(* ===== verification/Net.thy ===== *)
theory Net
  imports Prelude
begin

section \<open>Addresses of the standard library\<close>

text \<open>
  \<open>std::net\<close> as far as nhop uses it: the two IP families, socket addresses, the textual forms
  both are read from and written to, and the classifications the loop guard asks for.  The
  readers follow \<open>core::net::parser\<close> (the deterministic descent of \<open>read_number\<close>,
  \<open>read_ipv4_addr\<close>, \<open>read_groups\<close>, \<open>read_ipv6_addr\<close>), the printers follow the \<open>Display\<close>
  instances.  The flow label of an IPv6 socket address is left out: no text carries it.
\<close>

datatype ipv4 = IPv4 u8 u8 u8 u8
datatype ipv6 = IPv6 u16 u16 u16 u16 u16 u16 u16 u16
datatype ip_addr = V4 ipv4 | V6 ipv6
datatype socket_addr = SA4 ipv4 u16 | SA6 ipv6 u16 u32

fun sock_ip :: "socket_addr \<Rightarrow> ip_addr" where
  "sock_ip (SA4 a p) = V4 a"
| "sock_ip (SA6 a p z) = V6 a"

fun sock_port :: "socket_addr \<Rightarrow> u16" where
  "sock_port (SA4 a p) = p"
| "sock_port (SA6 a p z) = p"

fun segments :: "ipv6 \<Rightarrow> u16 list" where
  "segments (IPv6 a b c d e f g h) = [a, b, c, d, e, f, g, h]"

fun of_segments :: "u16 list \<Rightarrow> ipv6 option" where
  "of_segments [a, b, c, d, e, f, g, h] = Some (IPv6 a b c d e f g h)"
| "of_segments _ = None"

lemma of_segments_segments [simp]: "of_segments (segments a) = Some a"
  by (cases a) simp

lemma length_segments [simp]: "length (segments a) = 8"
  by (cases a) simp

subsection \<open>Bytes and words\<close>

definition hi_byte :: "u16 \<Rightarrow> u8" where "hi_byte w = of_nat (unat w div 256)"
definition lo_byte :: "u16 \<Rightarrow> u8" where "lo_byte w = of_nat (unat w mod 256)"
definition of_be_bytes :: "u8 \<Rightarrow> u8 \<Rightarrow> u16" where
  "of_be_bytes a b = of_nat (unat a * 256 + unat b)"

lemma unat_u8: "unat (a :: u8) < 256"
  using unsigned_less [of a] by simp

lemma unat_u16: "unat (a :: u16) < 65536"
  using unsigned_less [of a] by simp

lemma unat_of_nat_u8: "n < 256 \<Longrightarrow> unat (of_nat n :: u8) = n"
  by (simp add: unat_of_nat)

lemma unat_of_nat_u16: "n < 65536 \<Longrightarrow> unat (of_nat n :: u16) = n"
  by (simp add: unat_of_nat)

lemma unat_of_be_bytes: "unat (of_be_bytes a b) = unat a * 256 + unat b"
proof -
  have "unat a * 256 + unat b < 65536" using unat_u8 [of a] unat_u8 [of b] by linarith
  then show ?thesis unfolding of_be_bytes_def by (rule unat_of_nat_u16)
qed

lemma hi_byte_of_be_bytes [simp]: "hi_byte (of_be_bytes a b) = a"
  using unat_u8 [of b] by (simp add: hi_byte_def unat_of_be_bytes)

lemma lo_byte_of_be_bytes [simp]: "lo_byte (of_be_bytes a b) = b"
  using unat_u8 [of b] by (simp add: lo_byte_def unat_of_be_bytes)

lemma of_be_bytes_split [simp]: "of_be_bytes (hi_byte w) (lo_byte w) = w"
proof -
  have "unat w div 256 < 256" using unat_u16 [of w] by linarith
  then have "unat (of_be_bytes (hi_byte w) (lo_byte w)) = unat w"
    by (simp add: unat_of_be_bytes hi_byte_def lo_byte_def unat_of_nat_u8)
  then show ?thesis by (simp add: unsigned_word_eqI)
qed

subsection \<open>Reading\<close>

definition read_given_char :: "char \<Rightarrow> string \<Rightarrow> string option" where
  "read_given_char c s = (case s of x # r \<Rightarrow> if x = c then Some r else None | [] \<Rightarrow> None)"

definition read_number ::
  "(char \<Rightarrow> nat option) \<Rightarrow> nat \<Rightarrow> nat \<Rightarrow> nat option \<Rightarrow> bool \<Rightarrow> string \<Rightarrow> (nat \<times> string) option" where
  "read_number d r limit max_digits allow_zero_prefix s =
     (let ds = takeWhile (\<lambda>c. d c \<noteq> None) s; rest = dropWhile (\<lambda>c. d c \<noteq> None) s in
      if (case max_digits of None \<Rightarrow> False | Some m \<Rightarrow> m < length ds) then None
      else if ds = [] then None
      else if \<not> allow_zero_prefix \<and> hd ds = CHR ''0'' \<and> 1 < length ds then None
      else case digits_value d r 0 ds of
             None \<Rightarrow> None
           | Some n \<Rightarrow> if n \<le> limit then Some (n, rest) else None)"

definition read_octet :: "string \<Rightarrow> (u8 \<times> string) option" where
  "read_octet s =
     Option.bind (read_number dec_digit 10 255 (Some 3) False s) (\<lambda>(n, r). Some (of_nat n, r))"

definition read_dot_octet :: "string \<Rightarrow> (u8 \<times> string) option" where
  "read_dot_octet s = Option.bind (read_given_char (CHR ''.'') s) read_octet"

definition read_ipv4 :: "string \<Rightarrow> (ipv4 \<times> string) option" where
  "read_ipv4 s =
     Option.bind (read_octet s) (\<lambda>(a, s1).
     Option.bind (read_dot_octet s1) (\<lambda>(b, s2).
     Option.bind (read_dot_octet s2) (\<lambda>(c, s3).
     Option.bind (read_dot_octet s3) (\<lambda>(d, s4). Some (IPv4 a b c d, s4)))))"

definition read_separator ::
  "nat \<Rightarrow> (string \<Rightarrow> ('a \<times> string) option) \<Rightarrow> string \<Rightarrow> ('a \<times> string) option" where
  "read_separator i inner s =
     (if 0 < i then Option.bind (read_given_char (CHR '':'') s) inner else inner s)"

definition read_group :: "string \<Rightarrow> (u16 \<times> string) option" where
  "read_group s =
     Option.bind (read_number hex_digit 16 65535 (Some 4) True s) (\<lambda>(n, r). Some (of_nat n, r))"

text \<open>
  \<open>read_groups\<close>: the groups read, whether a trailing IPv4 address closed them, and the rest.
  The second argument counts the slots left, so an embedded address is tried while two remain.
\<close>

fun read_groups :: "nat \<Rightarrow> nat \<Rightarrow> string \<Rightarrow> u16 list \<times> bool \<times> string" where
  "read_groups i 0 s = ([], False, s)"
| "read_groups i (Suc n) s =
     (case (if 0 < n then read_separator i read_ipv4 s else None) of
        Some (IPv4 a b c d, r) \<Rightarrow> ([of_be_bytes a b, of_be_bytes c d], True, r)
      | None \<Rightarrow>
          (case read_separator i read_group s of
             None \<Rightarrow> ([], False, s)
           | Some (g, r) \<Rightarrow>
               (case read_groups (Suc i) n r of (gs, v4, r') \<Rightarrow> (g # gs, v4, r'))))"

definition read_ipv6 :: "string \<Rightarrow> (ipv6 \<times> string) option" where
  "read_ipv6 s =
     (let (head, head_ipv4, s1) = read_groups 0 8 s in
      if length head = 8 then map_option (\<lambda>a. (a, s1)) (of_segments head)
      else if head_ipv4 then None
      else
        Option.bind (read_given_char (CHR '':'') s1) (\<lambda>s2.
        Option.bind (read_given_char (CHR '':'') s2) (\<lambda>s3.
        let (tail, tail_ipv4, s4) = read_groups 0 (8 - (length head + 1)) s3 in
          map_option (\<lambda>a. (a, s4))
            (of_segments (head @ replicate (8 - length head - length tail) 0 @ tail)))))"

definition read_ip :: "string \<Rightarrow> (ip_addr \<times> string) option" where
  "read_ip s =
     (case read_ipv4 s of
        Some (a, r) \<Rightarrow> Some (V4 a, r)
      | None \<Rightarrow> (case read_ipv6 s of Some (a, r) \<Rightarrow> Some (V6 a, r) | None \<Rightarrow> None))"

definition whole :: "('a \<times> string) option \<Rightarrow> 'a option" where
  "whole p = (case p of Some (a, []) \<Rightarrow> Some a | _ \<Rightarrow> None)"

text \<open>\<open>"..".parse::<IpAddr>()\<close>.\<close>

definition parse_ip :: "string \<Rightarrow> ip_addr option" where
  "parse_ip s = whole (read_ip s)"

definition read_port :: "string \<Rightarrow> (u16 \<times> string) option" where
  "read_port s =
     Option.bind (read_given_char (CHR '':'') s) (\<lambda>r.
     Option.bind (read_number dec_digit 10 65535 None True r) (\<lambda>(n, r'). Some (of_nat n, r')))"

definition read_scope :: "string \<Rightarrow> (u32 \<times> string) option" where
  "read_scope s =
     Option.bind (read_given_char (CHR ''%'') s) (\<lambda>r.
     Option.bind (read_number dec_digit 10 4294967295 None True r)
       (\<lambda>(n, r'). Some (of_nat n, r')))"

definition read_socket4 :: "string \<Rightarrow> (socket_addr \<times> string) option" where
  "read_socket4 s =
     Option.bind (read_ipv4 s) (\<lambda>(a, r).
     Option.bind (read_port r) (\<lambda>(p, r'). Some (SA4 a p, r')))"

definition read_socket6 :: "string \<Rightarrow> (socket_addr \<times> string) option" where
  "read_socket6 s =
     Option.bind (read_given_char (CHR ''['') s) (\<lambda>s1.
     Option.bind (read_ipv6 s1) (\<lambda>(a, s2).
     let (z, s3) = (case read_scope s2 of None \<Rightarrow> (0, s2) | Some zr \<Rightarrow> zr) in
     Option.bind (read_given_char (CHR '']'') s3) (\<lambda>s4.
     Option.bind (read_port s4) (\<lambda>(p, r). Some (SA6 a p z, r)))))"

text \<open>\<open>"..".parse::<SocketAddr>()\<close>.\<close>

definition parse_socket :: "string \<Rightarrow> socket_addr option" where
  "parse_socket s =
     whole (case read_socket4 s of Some p \<Rightarrow> Some p | None \<Rightarrow> read_socket6 s)"

subsection \<open>Writing\<close>

definition show_u8 :: "u8 \<Rightarrow> string" where
  "show_u8 w = show_nat (unat w)"

fun show_ipv4 :: "ipv4 \<Rightarrow> string" where
  "show_ipv4 (IPv4 a b c d) =
     show_u8 a @ ''.'' @ show_u8 b @ ''.'' @ show_u8 c @ ''.'' @ show_u8 d"

fun show_groups :: "u16 list \<Rightarrow> string" where
  "show_groups [] = []"
| "show_groups [g] = show_hex (unat g)"
| "show_groups (g # gs) = show_hex (unat g) @ '':'' @ show_groups gs"

text \<open>The longest run of zero groups, the first of them on a tie: its start and length.\<close>

fun zero_run :: "nat \<Rightarrow> nat \<times> nat \<Rightarrow> nat \<times> nat \<Rightarrow> u16 list \<Rightarrow> nat \<times> nat" where
  "zero_run i longest current [] = longest"
| "zero_run i longest current (g # gs) =
     (if g = 0 then
        (let current = (if snd current = 0 then (i, 1) else (fst current, Suc (snd current)));
             longest = (if snd longest < snd current then current else longest)
         in zero_run (Suc i) longest current gs)
      else zero_run (Suc i) longest (0, 0) gs)"

definition zeroes :: "u16 list \<Rightarrow> nat \<times> nat" where
  "zeroes gs = zero_run 0 (0, 0) (0, 0) gs"

fun to_ipv4_mapped :: "ipv6 \<Rightarrow> ipv4 option" where
  "to_ipv4_mapped (IPv6 a b c d e f g h) =
     (if [a, b, c, d, e] = [0, 0, 0, 0, 0] \<and> f = 65535
      then Some (IPv4 (hi_byte g) (lo_byte g) (hi_byte h) (lo_byte h)) else None)"

definition show_ipv6 :: "ipv6 \<Rightarrow> string" where
  "show_ipv6 a =
     (case to_ipv4_mapped a of
        Some v4 \<Rightarrow> ''::ffff:'' @ show_ipv4 v4
      | None \<Rightarrow>
          (case zeroes (segments a) of (start, len) \<Rightarrow>
           if 1 < len then
             show_groups (take start (segments a)) @ ''::'' @
             show_groups (drop (start + len) (segments a))
           else show_groups (segments a)))"

fun show_ip :: "ip_addr \<Rightarrow> string" where
  "show_ip (V4 a) = show_ipv4 a"
| "show_ip (V6 a) = show_ipv6 a"

fun show_socket :: "socket_addr \<Rightarrow> string" where
  "show_socket (SA4 a p) = show_ipv4 a @ '':'' @ show_u16 p"
| "show_socket (SA6 a p z) =
     (if z = 0 then ''['' @ show_ipv6 a @ '']:'' @ show_u16 p
      else ''['' @ show_ipv6 a @ ''%'' @ show_nat (unat z) @ '']:'' @ show_u16 p)"

subsection \<open>Classification\<close>

fun is_loopback :: "ip_addr \<Rightarrow> bool" where
  "is_loopback (V4 (IPv4 a b c d)) = (a = 127)"
| "is_loopback (V6 a) = (a = IPv6 0 0 0 0 0 0 0 1)"

fun is_unspecified :: "ip_addr \<Rightarrow> bool" where
  "is_unspecified (V4 a) = (a = IPv4 0 0 0 0)"
| "is_unspecified (V6 a) = (a = IPv6 0 0 0 0 0 0 0 0)"

subsection \<open>A dotted address reads back as itself\<close>

lemma show_nat_length: "n < 1000 \<Longrightarrow> length (show_nat n) \<le> 3"
  by (subst show_nat.simps, subst show_nat.simps, subst show_nat.simps) auto

lemma show_nat_leading: "hd (show_nat n) = CHR ''0'' \<Longrightarrow> length (show_nat n) = 1"
proof (induction n rule: show_nat.induct)
  case (1 n)
  show ?case
  proof (cases "n < 10")
    case True
    then show ?thesis by (subst show_nat.simps) simp
  next
    case False
    then have "hd (show_nat n) = hd (show_nat (n div 10))"
      by (subst show_nat.simps) simp
    with "1.prems" have "hd (show_nat (n div 10)) = CHR ''0''" by simp
    with False "1.IH" have len: "length (show_nat (n div 10)) = 1"
      and hd: "hd (show_nat (n div 10)) = CHR ''0''" by simp_all
    then obtain c where c: "show_nat (n div 10) = [c]" by (cases "show_nat (n div 10)") auto
    with hd have "show_nat (n div 10) = ''0''" by simp
    moreover have "digits_value dec_digit 10 0 (show_nat (n div 10)) = Some (n div 10)"
      by (rule digits_value_show_nat)
    ultimately have "n div 10 = 0" by (simp add: dec_digit_def)
    with False show ?thesis by simp
  qed
qed

text \<open>What may follow a number: nothing that is itself a digit.\<close>

definition stops :: "(char \<Rightarrow> nat option) \<Rightarrow> string \<Rightarrow> bool" where
  "stops d r \<longleftrightarrow> (case r of [] \<Rightarrow> True | c # _ \<Rightarrow> d c = None)"

lemma stops_takeWhile:
  assumes "\<forall>c \<in> set s. d c \<noteq> None" and "stops d r"
  shows "takeWhile (\<lambda>c. d c \<noteq> None) (s @ r) = s" and "dropWhile (\<lambda>c. d c \<noteq> None) (s @ r) = r"
  using assms by (auto simp: stops_def takeWhile_append dropWhile_append split: list.splits)

lemma show_nat_dec: "\<forall>c \<in> set (show_nat n). dec_digit c \<noteq> None"
  using show_nat_digits by (auto simp: is_dec_def)

lemma read_number_show_nat:
  assumes "n \<le> limit" and "stops dec_digit r"
    and "case m of None \<Rightarrow> True | Some k \<Rightarrow> length (show_nat n) \<le> k"
  shows "read_number dec_digit 10 limit m z (show_nat n @ r) = Some (n, r)"
  using assms show_nat_leading [of n]
  unfolding read_number_def Let_def stops_takeWhile [OF show_nat_dec assms(2)]
  by (auto simp: digits_value_show_nat split: option.splits)

lemma read_octet_show: "stops dec_digit r \<Longrightarrow> read_octet (show_u8 a @ r) = Some (a, r)"
proof -
  assume r: "stops dec_digit r"
  have a: "unat a \<le> 255" using unat_u8 [of a] by simp
  then have "length (show_nat (unat a)) \<le> 3" by (intro show_nat_length) simp
  with a r show ?thesis
    by (simp add: read_octet_def show_u8_def read_number_show_nat)
qed

lemma read_ipv4_show: "stops dec_digit r \<Longrightarrow> read_ipv4 (show_ipv4 a @ r) = Some (a, r)"
proof (cases a)
  case (IPv4 w x y z)
  assume r: "stops dec_digit r"
  have dot: "stops dec_digit (CHR ''.'' # s)" for s by (simp add: stops_def dec_digit_def)
  show ?thesis
    by (simp add: IPv4 read_ipv4_def read_dot_octet_def read_given_char_def
        read_octet_show dot r)
qed

lemma parse_ip_show_ipv4: "parse_ip (show_ipv4 a) = Some (V4 a)"
  using read_ipv4_show [of "[]" a] by (simp add: parse_ip_def read_ip_def whole_def stops_def)

lemma parse_socket_show_SA4: "parse_socket (show_socket (SA4 a p)) = Some (SA4 a p)"
proof -
  have colon: "stops dec_digit (CHR '':'' # s)" for s by (simp add: stops_def dec_digit_def)
  have "unat p \<le> 65535" using unat_u16 [of p] by simp
  then have "read_number dec_digit 10 65535 None True (show_u16 p) = Some (unat p, [])"
    using read_number_show_nat [of "unat p" 65535 "[]" None True]
    by (simp add: show_u16_def stops_def)
  then show ?thesis
    by (simp add: parse_socket_def read_socket4_def read_port_def read_given_char_def
        read_ipv4_show colon whole_def)
qed

subsection \<open>A name is no address\<close>

text \<open>
  Every reader eats a run of characters that an address can hold, so a text with any other
  character - a letter past \<open>f\<close>, a hyphen, a space - reads as no address at all.
\<close>

definition addr_char :: "char \<Rightarrow> bool" where
  "addr_char c \<longleftrightarrow> hex_digit c \<noteq> None \<or> c = CHR ''.'' \<or> c = CHR '':''"

definition eats :: "(string \<Rightarrow> ('a \<times> string) option) \<Rightarrow> bool" where
  "eats f \<longleftrightarrow> (\<forall>s a r. f s = Some (a, r) \<longrightarrow> (\<exists>p. s = p @ r \<and> (\<forall>c \<in> set p. addr_char c)))"

lemma eatsI: "(\<And>s a r. f s = Some (a, r) \<Longrightarrow> \<exists>p. s = p @ r \<and> (\<forall>c \<in> set p. addr_char c)) \<Longrightarrow> eats f"
  by (simp add: eats_def)

lemma eatsD: "eats f \<Longrightarrow> f s = Some (a, r) \<Longrightarrow> \<exists>p. s = p @ r \<and> (\<forall>c \<in> set p. addr_char c)"
  by (simp add: eats_def)

lemma dec_addr_char: "dec_digit c \<noteq> None \<Longrightarrow> addr_char c"
  by (auto simp: addr_char_def dec_digit_def hex_digit_def Let_def split: if_splits)

lemma read_number_eats:
  assumes "\<And>c. d c \<noteq> None \<Longrightarrow> addr_char c"
  shows "eats (read_number d r limit m z)"
proof (rule eatsI)
  fix s a rest
  assume "read_number d r limit m z s = Some (a, rest)"
  then have "rest = dropWhile (\<lambda>c. d c \<noteq> None) s"
    unfolding read_number_def Let_def by (auto split: if_splits option.splits)
  moreover have "\<forall>c \<in> set (takeWhile (\<lambda>c. d c \<noteq> None) s). addr_char c"
    using assms by (auto dest: set_takeWhileD)
  ultimately show "\<exists>p. s = p @ rest \<and> (\<forall>c \<in> set p. addr_char c)"
    by (metis takeWhile_dropWhile_id)
qed

lemma read_given_char_Some: "read_given_char c s = Some r \<longleftrightarrow> s = c # r"
  by (auto simp: read_given_char_def split: list.splits)

lemma read_octet_eats: "eats read_octet"
  using read_number_eats [of dec_digit 10 255 "Some 3" False, OF dec_addr_char]
  by (auto simp: eats_def read_octet_def split: bind_splits)

lemma eats_dot: "eats f \<Longrightarrow> eats (\<lambda>s. Option.bind (read_given_char (CHR ''.'') s) f)"
proof (rule eatsI)
  fix s a r
  assume f: "eats f" and "Option.bind (read_given_char (CHR ''.'') s) f = Some (a, r)"
  then obtain s' where s: "s = CHR ''.'' # s'" and "f s' = Some (a, r)"
    by (auto simp: bind_eq_Some_conv read_given_char_Some)
  with f obtain p where "s' = p @ r" and "\<forall>c \<in> set p. addr_char c" by (auto dest: eatsD)
  with s show "\<exists>p. s = p @ r \<and> (\<forall>c \<in> set p. addr_char c)"
    by (intro exI [of _ "CHR ''.'' # p"]) (simp add: addr_char_def)
qed

lemma eats_bind:
  assumes "eats f" and "\<And>a. eats (g a)"
  shows "eats (\<lambda>s. Option.bind (f s) (\<lambda>(a, r). g a r))"
proof (rule eatsI)
  fix s b r
  assume "Option.bind (f s) (\<lambda>(a, r). g a r) = Some (b, r)"
  then obtain a t where "f s = Some (a, t)" and "g a t = Some (b, r)"
    by (auto simp: bind_eq_Some_conv)
  with assms obtain p q where "s = p @ t" "t = q @ r"
    "\<forall>c \<in> set p. addr_char c" "\<forall>c \<in> set q. addr_char c"
    by (meson eatsD)
  then show "\<exists>p. s = p @ r \<and> (\<forall>c \<in> set p. addr_char c)"
    by (intro exI [of _ "p @ q"]) auto
qed

lemma eats_return: "eats (\<lambda>s. Some (a, s))"
  by (auto simp: eats_def)

lemma read_ipv4_eats: "eats read_ipv4"
proof -
  have dot: "eats read_dot_octet"
    using eats_dot [OF read_octet_eats] by (simp add: read_dot_octet_def [abs_def])
  show ?thesis
    unfolding read_ipv4_def [abs_def]
    by (intro eats_bind read_octet_eats dot eats_return)
qed

lemma read_group_eats: "eats read_group"
  using read_number_eats [of hex_digit 16 65535 "Some 4" True]
  by (auto simp: eats_def read_group_def addr_char_def split: bind_splits)

lemma read_separator_eats: "eats f \<Longrightarrow> eats (read_separator i f)"
proof (rule eatsI)
  fix s a r
  assume f: "eats f" and step: "read_separator i f s = Some (a, r)"
  show "\<exists>p. s = p @ r \<and> (\<forall>c \<in> set p. addr_char c)"
  proof (cases "0 < i")
    case False
    with f step show ?thesis by (auto simp: read_separator_def dest: eatsD)
  next
    case True
    with step obtain s' where s: "s = CHR '':'' # s'" and "f s' = Some (a, r)"
      by (auto simp: read_separator_def bind_eq_Some_conv read_given_char_Some)
    with f obtain p where "s' = p @ r" and "\<forall>c \<in> set p. addr_char c" by (auto dest: eatsD)
    with s show ?thesis
      by (intro exI [of _ "CHR '':'' # p"]) (simp add: addr_char_def)
  qed
qed

lemma read_groups_eats:
  "read_groups i n s = (gs, v4, r) \<Longrightarrow> \<exists>p. s = p @ r \<and> (\<forall>c \<in> set p. addr_char c)"
proof (induction i n s arbitrary: gs v4 r rule: read_groups.induct)
  case (1 i s)
  then show ?case by auto
next
  case (2 i n s)
  let ?emb = "if 0 < n then read_separator i read_ipv4 s else None"
  show ?case
  proof (cases ?emb)
    case (Some ar)
    then have "eats (read_separator i read_ipv4)" "read_separator i read_ipv4 s = Some ar"
      by (auto intro: read_separator_eats read_ipv4_eats split: if_splits)
    with Some "2.prems" show ?thesis
      by (cases ar; cases "fst ar") (auto dest: eatsD)
  next
    case None
    note no_v4 = this
    show ?thesis
    proof (cases "read_separator i read_group s")
      case None
      with no_v4 "2.prems" show ?thesis by auto
    next
      case (Some gr)
      obtain g t where gr: "gr = (g, t)" by (cases gr)
      obtain gs' v4' r' where rec: "read_groups (Suc i) n t = (gs', v4', r')"
        by (cases "read_groups (Suc i) n t")
      have "\<exists>p. s = p @ t \<and> (\<forall>c \<in> set p. addr_char c)"
        using Some read_separator_eats [OF read_group_eats, of i] by (auto simp: gr dest: eatsD)
      moreover have "\<exists>p. t = p @ r' \<and> (\<forall>c \<in> set p. addr_char c)"
        by (rule "2.IH" [OF no_v4 Some gr [symmetric] rec])
      moreover have "r' = r" using "2.prems" no_v4 Some by (simp add: gr rec)
      ultimately obtain p q where "s = p @ t" "t = q @ r"
        "\<forall>c \<in> set p. addr_char c" "\<forall>c \<in> set q. addr_char c" by blast
      then show ?thesis by (intro exI [of _ "p @ q"]) auto
    qed
  qed
qed

lemma read_ipv6_eats: "eats read_ipv6"
proof (rule eatsI)
  fix s a r
  assume read: "read_ipv6 s = Some (a, r)"
  obtain gs v4 s1 where front: "read_groups 0 8 s = (gs, v4, s1)"
    by (cases "read_groups 0 8 s")
  show "\<exists>p. s = p @ r \<and> (\<forall>c \<in> set p. addr_char c)"
  proof (cases "length gs = 8")
    case True
    with read have "s1 = r" by (auto simp: read_ipv6_def front)
    with read_groups_eats [OF front] show ?thesis by simp
  next
    case False
    with read obtain n where s1: "s1 = CHR '':'' # CHR '':'' # n"
      by (auto simp: read_ipv6_def front bind_eq_Some_conv read_given_char_Some split: if_splits)
    obtain gs' v4' r' where rear: "read_groups 0 (8 - (length gs + 1)) n = (gs', v4', r')"
      by (cases "read_groups 0 (8 - (length gs + 1)) n")
    from read False s1 rear have "r' = r"
      by (auto simp: read_ipv6_def front bind_eq_Some_conv read_given_char_Some split: if_splits)
    with read_groups_eats [OF front] read_groups_eats [OF rear] s1
    obtain p q where "s = p @ CHR '':'' # CHR '':'' # q @ r"
      "\<forall>c \<in> set p. addr_char c" "\<forall>c \<in> set q. addr_char c" by auto
    then show ?thesis
      by (intro exI [of _ "p @ CHR '':'' # CHR '':'' # q"]) (auto simp: addr_char_def)
  qed
qed

lemma parse_ip_chars: "parse_ip s = Some a \<Longrightarrow> \<forall>c \<in> set s. addr_char c"
proof -
  assume "parse_ip s = Some a"
  then have "(\<exists>b. read_ipv4 s = Some (b, [])) \<or> (\<exists>b. read_ipv6 s = Some (b, []))"
    by (auto simp: parse_ip_def whole_def read_ip_def split: option.splits prod.splits list.splits)
  then show ?thesis
    using eatsD [OF read_ipv4_eats, of s] eatsD [OF read_ipv6_eats, of s] by fastforce
qed

lemma parse_ip_name: "\<exists>c \<in> set s. \<not> addr_char c \<Longrightarrow> parse_ip s = None"
  using parse_ip_chars by (cases "parse_ip s") auto

end
