(* ===== verification/Wire.thy ===== *)
theory Wire
  imports Net
begin

section \<open>The wire contract: \<open>nhop-ipc\<close>\<close>

text \<open>
  The types the daemon and its clients exchange (\<open>nhop-ipc/src/command.rs\<close>,
  \<open>nhop-ipc/src/view.rs\<close>): commands, responses and the views they carry.  The newtypes over
  \<open>String\<close>, \<open>u16\<close> and \<open>u64\<close> are type synonyms.  How they travel is
  theories Codec and Replies; an instant is a number of nanoseconds since the epoch.
\<close>

type_synonym host = string
type_synonym port = u16
type_synonym rule_value = string
type_synonym upstream_addr = string
type_synonym load_id = nat
type_synonym path = string
type_synonym time = int
type_synonym duration = nat

datatype rule_class = Require | Prefer | Never
datatype rule_kind = Suffix | Cidr | Port | Keyword

datatype command =
    AddRule rule_class rule_kind rule_value "load_id option"
  | ClearRules "load_id option"
  | SetUpstream upstream_addr "load_id option"
  | SetUpstreams upstream_addr "upstream_addr list" "load_id option"
  | SetListen socket_addr socket_addr "load_id option"
  | AddForward socket_addr host port "load_id option"
  | Reload "path option"
  | CmdOn
  | CmdOff
  | Status
  | Rules
  | Test host port
  | Doctor
  | Subscribe

datatype err_kind = NotFound | UpstreamDown | InvalidArgs | LoadInProgress | Internal

datatype decision_kind = KDirect | KNever | KUpstream
datatype effective_hop = HopDirect | HopUpstream | HopFallbackDirect
datatype health_state = Up | Down
datatype load_outcome = LoadOk | LoadFailed | LoadTimedOut

record rule_view =
  rv_index :: nat
  rv_class :: rule_class
  rv_kind :: rule_kind
  rv_value :: rule_value

record decision_view =
  dv_decision :: decision_kind
  dv_rule_index :: "nat option"
  dv_class :: "rule_class option"
  dv_next_hop :: string

record last_load_view =
  ll_at :: time
  ll_outcome :: load_outcome
  ll_command :: "string option"

record rule_counts_view =
  rc_require :: nat
  rc_prefer :: nat
  rc_never :: nat

record forward_view =
  fv_listen :: socket_addr
  fv_host :: host
  fv_port :: port

record upstream_view =
  uv_addr :: upstream_addr
  uv_health :: health_state
  uv_health_changed_at :: time
  uv_selected :: bool

record system_proxy_view =
  spv_http :: "string option"
  spv_https :: "string option"
  spv_socks :: "string option"

record status_view =
  sv_uptime_secs :: nat
  sv_http_listen :: socket_addr
  sv_http_bound :: bool
  sv_socks_listen :: socket_addr
  sv_socks_bound :: bool
  sv_forwards :: "forward_view list"
  sv_upstream :: upstream_addr
  sv_health :: health_state
  sv_health_changed_at :: time
  sv_upstreams :: "upstream_view list"
  sv_init_path :: "path option"
  sv_last_load :: "last_load_view option"
  sv_rules :: rule_counts_view
  sv_system_proxy :: system_proxy_view

record check_view =
  cv_name :: string
  cv_ok :: bool
  cv_detail :: string

record event_view =
  ev_host :: host
  ev_port :: port
  ev_decision :: decision_kind
  ev_rule_index :: "nat option"
  ev_class :: "rule_class option"
  ev_upstream :: health_state
  ev_connect_ms :: "nat option"
  ev_hop :: "effective_hop option"
  ev_via :: "upstream_addr option"
  ev_duration_ms :: nat
  ev_error :: "string option"

datatype response =
    RespOk
  | RespRules "rule_view list"
  | RespStatus status_view
  | RespDecision decision_view
  | RespDoctor "check_view list"
  | RespEvent event_view
  | RespErr err_kind string

subsection \<open>The two upstream commands\<close>

text \<open>\<open>Command::upstreams\<close>: one address travels as the command every daemon reads.\<close>

definition command_upstreams ::
  "upstream_addr \<Rightarrow> upstream_addr list \<Rightarrow> load_id option \<Rightarrow> command" where
  "command_upstreams addr fallbacks load =
     (if fallbacks = [] then SetUpstream addr load else SetUpstreams addr fallbacks load)"

definition UNREADABLE_UPSTREAM :: upstream_addr where
  "UNREADABLE_UPSTREAM = ''upstream fallbacks need a newer nhop daemon''"

definition command_unreadable_upstream :: "load_id \<Rightarrow> command" where
  "command_unreadable_upstream load = SetUpstream UNREADABLE_UPSTREAM (Some load)"

text \<open>The load a command carries, absent for the commands that belong to no run.\<close>

fun load_of_command :: "command \<Rightarrow> load_id option" where
  "load_of_command (AddRule c k v l) = l"
| "load_of_command (ClearRules l) = l"
| "load_of_command (SetUpstream a l) = l"
| "load_of_command (SetUpstreams a fs l) = l"
| "load_of_command (SetListen h s l) = l"
| "load_of_command (AddForward a h p l) = l"
| "load_of_command _ = None"

text \<open>The commands a run stages: those with a \<open>load\<close> field.\<close>

fun mutating :: "command \<Rightarrow> bool" where
  "mutating (AddRule c k v l) = True"
| "mutating (ClearRules l) = True"
| "mutating (SetUpstream a l) = True"
| "mutating (SetUpstreams a fs l) = True"
| "mutating (SetListen h s l) = True"
| "mutating (AddForward a h p l) = True"
| "mutating _ = False"

subsection \<open>Load identifiers\<close>

text \<open>\<open>LoadId::from_str\<close> and its \<open>Display\<close>.\<close>

definition parse_load_id :: "string \<Rightarrow> load_id option" where
  "parse_load_id s = parse_u64 (trim s)"

definition show_load_id :: "load_id \<Rightarrow> string" where
  "show_load_id i = show_nat i"

lemma is_dec_not_whitespace: "is_dec c \<Longrightarrow> \<not> is_whitespace c"
  by (auto simp: is_dec_def dec_digit_def is_whitespace_def Let_def split: if_splits)

lemma parse_load_id_show: "i \<le> u64_max \<Longrightarrow> parse_load_id (show_load_id i) = Some i"
proof -
  assume i: "i \<le> u64_max"
  have "trim (show_nat i) = show_nat i"
    by (rule trim_id) (auto dest: show_nat_digits is_dec_not_whitespace)
  then show ?thesis
    using i by (simp add: parse_load_id_def show_load_id_def parse_u64_def parse_unsigned_show_nat)
qed

end
