(* ===== verification/Rules.thy ===== *)
theory Rules
  imports Wire
begin

section \<open>Rules: matchers and the ruleset\<close>

text \<open>
  \<open>nhop/src/rules\<close>: how a rule value is read as its kind, how a destination is normalised and
  matched, and how a ruleset is built and decides.  A network (\<open>ipnet::IpNet\<close>) belongs to a
  library, so its reader and its containment test are the two fields of the parameter
  \<open>ipnet\<close> of the definitions that use them.
\<close>

subsection \<open>The network library\<close>

record 'net ipnet =
  net_parse :: "string \<Rightarrow> 'net option"
  net_contains :: "'net \<Rightarrow> ip_addr \<Rightarrow> bool"

subsection \<open>Rejections\<close>

record invalid_rule = ir_message :: string

fun kind_name :: "rule_kind \<Rightarrow> string" where
  "kind_name Suffix = ''suffix''"
| "kind_name Cidr = ''cidr''"
| "kind_name Port = ''port''"
| "kind_name Keyword = ''keyword''"

definition invalid_rule_new :: "rule_kind \<Rightarrow> rule_value \<Rightarrow> string \<Rightarrow> invalid_rule" where
  "invalid_rule_new kind value expected =
     \<lparr> ir_message =
         ''invalid '' @ kind_name kind @ '' value '' @ debug_str value @
         '': expected '' @ expected \<rparr>"

definition invalid_rule_err_kind :: "invalid_rule \<Rightarrow> err_kind" where
  "invalid_rule_err_kind r = InvalidArgs"

subsection \<open>Destinations\<close>

record normalized_host =
  nh_host :: string
  nh_address :: "ip_addr option"

definition strip_dot :: "string \<Rightarrow> string" where
  "strip_dot s = (case strip_suffix ''.'' s of None \<Rightarrow> s | Some r \<Rightarrow> r)"

definition normalized_host_new :: "host \<Rightarrow> normalized_host" where
  "normalized_host_new host =
     (let host = to_lowercase (strip_dot host) in
      \<lparr> nh_host = host, nh_address = parse_ip host \<rparr>)"

subsection \<open>Matchers\<close>

datatype 'net matcher = MSuffix string | MCidr 'net | MPort port | MKeyword string

definition suffix_parse :: "rule_value \<Rightarrow> (invalid_rule, string) res" where
  "suffix_parse value =
     (let sfx = to_lowercase (strip_dot value) in
      if sfx = [] \<or> list_ex is_whitespace sfx \<or> prefix ''.'' sfx
         \<or> List.member sfx (CHR ''*'')
      then Err (invalid_rule_new Suffix value ''a hostname such as example.com'')
      else Ok sfx)"

definition suffix_matches :: "string \<Rightarrow> normalized_host \<Rightarrow> bool" where
  "suffix_matches sfx host =
     (if nh_host host = sfx then True
      else case strip_suffix sfx (nh_host host) of
             None \<Rightarrow> False
           | Some head \<Rightarrow> suffix ''.'' head)"

definition keyword_parse :: "rule_value \<Rightarrow> (invalid_rule, string) res" where
  "keyword_parse value =
     (let keyword = to_lowercase value in
      if keyword = [] \<or> list_ex is_whitespace keyword
      then Err (invalid_rule_new Keyword value ''a non-empty substring of a hostname'')
      else Ok keyword)"

definition keyword_matches :: "string \<Rightarrow> normalized_host \<Rightarrow> bool" where
  "keyword_matches keyword host = sublist keyword (nh_host host)"

definition parse_network ::
  "('net, 'a) ipnet_scheme \<Rightarrow> rule_value \<Rightarrow> (invalid_rule, 'net) res" where
  "parse_network ipnet value =
     (case net_parse ipnet value of
        None \<Rightarrow> Err (invalid_rule_new Cidr value ''a network such as 192.0.2.0/24'')
      | Some network \<Rightarrow> Ok network)"

definition parse_port :: "rule_value \<Rightarrow> (invalid_rule, port) res" where
  "parse_port value =
     (case parse_u16 value of
        None \<Rightarrow> Err (invalid_rule_new Port value
          ''a single port between 0 and 65535, ranges are not supported'')
      | Some port \<Rightarrow> Ok port)"

fun matcher_parse ::
  "('net, 'a) ipnet_scheme \<Rightarrow> rule_kind \<Rightarrow> rule_value \<Rightarrow> (invalid_rule, 'net matcher) res" where
  "matcher_parse ipnet Suffix value = res_bind (suffix_parse value) (\<lambda>s. Ok (MSuffix s))"
| "matcher_parse ipnet Cidr value = res_bind (parse_network ipnet value) (\<lambda>n. Ok (MCidr n))"
| "matcher_parse ipnet Port value = res_bind (parse_port value) (\<lambda>p. Ok (MPort p))"
| "matcher_parse ipnet Keyword value = res_bind (keyword_parse value) (\<lambda>k. Ok (MKeyword k))"

fun matcher_kind :: "'net matcher \<Rightarrow> rule_kind" where
  "matcher_kind (MSuffix s) = Suffix"
| "matcher_kind (MCidr n) = Cidr"
| "matcher_kind (MPort p) = Port"
| "matcher_kind (MKeyword k) = Keyword"

fun matcher_matches ::
  "('net, 'a) ipnet_scheme \<Rightarrow> 'net matcher \<Rightarrow> normalized_host \<Rightarrow> port \<Rightarrow> bool" where
  "matcher_matches ipnet (MSuffix sfx) host port = suffix_matches sfx host"
| "matcher_matches ipnet (MCidr network) host port =
     (case nh_address host of None \<Rightarrow> False | Some address \<Rightarrow> net_contains ipnet network address)"
| "matcher_matches ipnet (MPort expected) host port = (expected = port)"
| "matcher_matches ipnet (MKeyword keyword) host port = keyword_matches keyword host"

subsection \<open>Decisions\<close>

type_synonym rule_id = nat

datatype decision = Direct | NeverRule rule_id | Upstream rule_class rule_id

fun decision_kind :: "decision \<Rightarrow> decision_kind" where
  "decision_kind Direct = KDirect"
| "decision_kind (NeverRule rule) = KNever"
| "decision_kind (Upstream class rule) = KUpstream"

fun decision_rule :: "decision \<Rightarrow> rule_id option" where
  "decision_rule Direct = None"
| "decision_rule (NeverRule rule) = Some rule"
| "decision_rule (Upstream class rule) = Some rule"

fun decision_class :: "decision \<Rightarrow> rule_class option" where
  "decision_class Direct = None"
| "decision_class (NeverRule rule) = Some Never"
| "decision_class (Upstream class rule) = Some class"

subsection \<open>The ruleset\<close>

record 'net rule =
  rule_id :: rule_id
  rule_class :: rule_class
  rule_matcher :: "'net matcher"
  rule_value :: rule_value

definition rule_kind :: "'net rule \<Rightarrow> rule_kind" where
  "rule_kind r = matcher_kind (rule_matcher r)"

type_synonym 'net ruleset = "'net rule list"

definition ruleset_push ::
  "('net, 'a) ipnet_scheme \<Rightarrow> 'net ruleset \<Rightarrow> rule_class \<Rightarrow> rule_kind \<Rightarrow> rule_value
     \<Rightarrow> 'net ruleset \<times> (invalid_rule, rule_id) res" where
  "ruleset_push ipnet rules class kind value =
     (case matcher_parse ipnet kind value of
        Inl failure \<Rightarrow> (rules, Err failure)
      | Inr matcher \<Rightarrow>
          (let id = length rules in
           (rules @ [\<lparr> rule_id = id, rule_class = class, rule_matcher = matcher,
                       rule_value = value \<rparr>], Ok id)))"

fun ruleset_count :: "'net ruleset \<Rightarrow> rule_class \<Rightarrow> nat" where
  "ruleset_count [] class = 0"
| "ruleset_count (rule # rules) class =
     (if rule_class rule = class then 1 else 0) + ruleset_count rules class"

text \<open>The two passes of \<open>decide\<close>: the \<open>never\<close> rules, then the rest in declaration order.\<close>

fun decide_never ::
  "('net, 'a) ipnet_scheme \<Rightarrow> normalized_host \<Rightarrow> port \<Rightarrow> 'net ruleset \<Rightarrow> decision option" where
  "decide_never ipnet host port [] = None"
| "decide_never ipnet host port (rule # rules) =
     (case rule_class rule of
        Never \<Rightarrow>
          (if matcher_matches ipnet (rule_matcher rule) host port
           then Some (NeverRule (rule_id rule)) else decide_never ipnet host port rules)
      | _ \<Rightarrow> decide_never ipnet host port rules)"

fun decide_upstream ::
  "('net, 'a) ipnet_scheme \<Rightarrow> normalized_host \<Rightarrow> port \<Rightarrow> 'net ruleset \<Rightarrow> decision option" where
  "decide_upstream ipnet host port [] = None"
| "decide_upstream ipnet host port (rule # rules) =
     (case rule_class rule of
        Never \<Rightarrow> decide_upstream ipnet host port rules
      | class \<Rightarrow>
          (if matcher_matches ipnet (rule_matcher rule) host port
           then Some (Upstream class (rule_id rule))
           else decide_upstream ipnet host port rules))"

definition decide ::
  "('net, 'a) ipnet_scheme \<Rightarrow> 'net ruleset \<Rightarrow> host \<Rightarrow> port \<Rightarrow> decision" where
  "decide ipnet rules host port =
     (let host = normalized_host_new host in
      case decide_never ipnet host port rules of
        Some decision \<Rightarrow> decision
      | None \<Rightarrow>
          (case decide_upstream ipnet host port rules of
             Some decision \<Rightarrow> decision
           | None \<Rightarrow> Direct))"

subsection \<open>Normalisation and matching\<close>

lemma strip_dot_append [simp]: "strip_dot (s @ ''.'') = s"
  by (simp add: strip_dot_def strip_suffix_def)

lemma strip_dot_id: "\<not> suffix ''.'' s \<Longrightarrow> strip_dot s = s"
  by (simp add: strip_dot_def strip_suffix_def)

lemma suffix_dot_lower: "suffix ''.'' (to_lowercase s) \<longleftrightarrow> suffix ''.'' s"
proof (cases s rule: rev_cases)
  case (snoc t c)
  then show ?thesis by (simp add: suffix_def)
qed simp

lemma strip_dot_lower: "strip_dot (to_lowercase s) = to_lowercase (strip_dot s)"
proof (cases "suffix ''.'' s")
  case True
  then obtain t where "s = t @ ''.''" by (auto simp: suffix_def)
  then have "to_lowercase s = to_lowercase t @ ''.''" by simp
  with \<open>s = t @ ''.''\<close> show ?thesis by simp
next
  case False
  then show ?thesis by (simp add: strip_dot_id suffix_dot_lower)
qed

lemma normalized_host_lower [simp]:
  "normalized_host_new (to_lowercase h) = normalized_host_new h"
  by (simp add: normalized_host_new_def strip_dot_lower)

lemma normalized_host_dot:
  "\<not> suffix ''.'' h \<Longrightarrow> normalized_host_new (h @ ''.'') = normalized_host_new h"
  by (simp add: normalized_host_new_def strip_dot_id)

lemma nh_host_new: "nh_host (normalized_host_new h) = to_lowercase (strip_dot h)"
  by (simp add: normalized_host_new_def Let_def)

lemma nh_address_new: "nh_address (normalized_host_new h) = parse_ip (to_lowercase (strip_dot h))"
  by (simp add: normalized_host_new_def Let_def)

lemma suffix_matches_iff:
  "suffix_matches sfx host \<longleftrightarrow> nh_host host = sfx \<or> (\<exists>sub. nh_host host = sub @ ''.'' @ sfx)"
  by (auto simp: suffix_matches_def strip_suffix_def suffix_def)

lemma suffix_parse_Ok:
  "suffix_parse value = Inr sfx \<Longrightarrow>
     sfx = to_lowercase (strip_dot value) \<and> sfx \<noteq> [] \<and> \<not> prefix ''.'' sfx
     \<and> (\<forall>c \<in> set sfx. \<not> is_whitespace c)"
  by (auto simp: suffix_parse_def Let_def list_ex_iff split: if_splits)

lemma strip_dot_sub: "value \<noteq> [] \<Longrightarrow> strip_dot (sub @ value) = sub @ strip_dot value"
proof (cases "value" rule: rev_cases)
  case (snoc t c)
  then show ?thesis
    by (cases "c = CHR ''.''") (auto simp: strip_dot_def strip_suffix_def suffix_def)
qed simp

lemma matcher_parse_kind: "matcher_parse ipnet kind value = Inr m \<Longrightarrow> matcher_kind m = kind"
  by (cases kind) (auto simp: res_bind_Inr_iff)

subsection \<open>The ruleset as it is built\<close>

text \<open>
  The invariant of a ruleset: a rule's id is its position, and its matcher is what its value reads
  as.  The constructor of the type is private to the module, so \<open>push\<close> is the only way to grow one.
\<close>

definition rule_ok :: "('net, 'a) ipnet_scheme \<Rightarrow> nat \<Rightarrow> 'net rule \<Rightarrow> bool" where
  "rule_ok ipnet i r \<longleftrightarrow>
     rule_id r = i \<and> matcher_parse ipnet (rule_kind r) (rule_value r) = Inr (rule_matcher r)"

definition wf_ruleset :: "('net, 'a) ipnet_scheme \<Rightarrow> 'net ruleset \<Rightarrow> bool" where
  "wf_ruleset ipnet rules \<longleftrightarrow> (\<forall>i < length rules. rule_ok ipnet i (rules ! i))"

lemma wf_ruleset_Nil [wf_intros, simp]: "wf_ruleset ipnet []"
  by (simp add: wf_ruleset_def)

lemma wf_ruleset_id: "wf_ruleset ipnet rules \<Longrightarrow> i < length rules \<Longrightarrow> rule_id (rules ! i) = i"
  by (simp add: wf_ruleset_def rule_ok_def)

lemma ruleset_push_wf [wf_intros]:
  assumes "wf_ruleset ipnet rules"
  shows "wf_ruleset ipnet (fst (ruleset_push ipnet rules class kind value))"
proof (cases "matcher_parse ipnet kind value")
  case (Inl failure)
  with assms show ?thesis by (simp add: ruleset_push_def)
next
  case (Inr m)
  with matcher_parse_kind [OF Inr] assms show ?thesis
    by (auto simp: ruleset_push_def Let_def wf_ruleset_def rule_ok_def nth_append rule_kind_def
        less_Suc_eq)
qed

subsection \<open>What the two passes find\<close>

definition fires ::
  "('net, 'a) ipnet_scheme \<Rightarrow> normalized_host \<Rightarrow> port \<Rightarrow> 'net rule \<Rightarrow> bool" where
  "fires ipnet host port r = matcher_matches ipnet (rule_matcher r) host port"

lemma decide_never_find:
  "decide_never ipnet host port rules =
     map_option (\<lambda>r. NeverRule (rule_id r))
       (find (\<lambda>r. rule_class r = Never \<and> fires ipnet host port r) rules)"
  by (induction rules) (auto simp: fires_def split: rule_class.splits)

lemma decide_upstream_find:
  "decide_upstream ipnet host port rules =
     map_option (\<lambda>r. Upstream (rule_class r) (rule_id r))
       (find (\<lambda>r. rule_class r \<noteq> Never \<and> fires ipnet host port r) rules)"
  by (induction rules) (auto simp: fires_def split: rule_class.splits)

lemma find_None_nth: "find P xs = None \<longleftrightarrow> (\<forall>i < length xs. \<not> P (xs ! i))"
  by (auto simp: find_None_iff in_set_conv_nth)

lemma find_Some_nth:
  "find P xs = Some x \<longleftrightarrow> (\<exists>i < length xs. x = xs ! i \<and> P x \<and> (\<forall>j < i. \<not> P (xs ! j)))"
  unfolding find_Some_iff by (metis (mono_tags, lifting))

subsection \<open>A library of /24 networks\<close>

text \<open>A concrete network library for the examples: IPv4 networks of prefix length 24.\<close>

fun contains24 :: "ipv4 \<Rightarrow> ip_addr \<Rightarrow> bool" where
  "contains24 (IPv4 a b c d) (V4 (IPv4 a' b' c' d')) = (a = a' \<and> b = b' \<and> c = c')"
| "contains24 _ (V6 _) = False"

definition parse24 :: "string \<Rightarrow> ipv4 option" where
  "parse24 s =
     Option.bind (strip_suffix ''/24'' s) (\<lambda>r.
       case parse_ip r of Some (V4 a) \<Rightarrow> Some a | _ \<Rightarrow> None)"

definition ipnet24 :: "ipv4 ipnet" where
  "ipnet24 = \<lparr> net_parse = parse24, net_contains = contains24 \<rparr>"

text \<open>Declares a list of rules in order, as an init script does.\<close>

fun declare_all ::
  "('net, 'a) ipnet_scheme \<Rightarrow> 'net ruleset \<Rightarrow> (rule_class \<times> rule_kind \<times> rule_value) list
     \<Rightarrow> 'net ruleset" where
  "declare_all ipnet rules [] = rules"
| "declare_all ipnet rules ((c, k, v) # ds) =
     declare_all ipnet (fst (ruleset_push ipnet rules c k v)) ds"

lemma declare_all_wf [wf_intros]:
  "wf_ruleset ipnet rules \<Longrightarrow> wf_ruleset ipnet (declare_all ipnet rules ds)"
  by (induction ipnet rules ds rule: declare_all.induct) (auto intro: ruleset_push_wf)

definition example_rules :: "ipv4 ruleset" where
  "example_rules = declare_all ipnet24 []
     [(Require, Suffix, ''Example.com''), (Never, Suffix, ''api.example.com''),
      (Prefer, Port, ''443''), (Never, Cidr, ''192.0.2.0/24'')]"

lemma example_rules_wf: "wf_ruleset ipnet24 example_rules"
  unfolding example_rules_def by (rule declare_all_wf) simp

subsection \<open>Properties\<close>

text \<open>C1: a decision is exactly what the precedence says.  A \<open>never\<close> decision names the first
  matching \<open>never\<close> rule; an upstream decision is made only when no \<open>never\<close> rule matches, and
  names the first matching rule of the other two classes together with that rule's class; the
  direct route without a rule is taken only when no rule matches at all.\<close>

theorem decide_outcome:
  assumes "wf_ruleset ipnet rules"
  shows "case decide ipnet rules host port of
      NeverRule i \<Rightarrow>
        i < length rules \<and> rule_class (rules ! i) = Never
        \<and> fires ipnet (normalized_host_new host) port (rules ! i)
        \<and> (\<forall>j < i. rule_class (rules ! j) = Never
             \<longrightarrow> \<not> fires ipnet (normalized_host_new host) port (rules ! j))
    | Upstream class i \<Rightarrow>
        i < length rules \<and> rule_class (rules ! i) = class \<and> class \<noteq> Never
        \<and> fires ipnet (normalized_host_new host) port (rules ! i)
        \<and> (\<forall>j < i. \<not> fires ipnet (normalized_host_new host) port (rules ! j))
        \<and> (\<forall>j < length rules. rule_class (rules ! j) = Never
             \<longrightarrow> \<not> fires ipnet (normalized_host_new host) port (rules ! j))
    | Direct \<Rightarrow>
        (\<forall>j < length rules. \<not> fires ipnet (normalized_host_new host) port (rules ! j))"
proof -
  let ?fires = "fires ipnet (normalized_host_new host) port"
  let ?never = "find (\<lambda>r. rule_class r = Never \<and> ?fires r) rules"
  let ?other = "find (\<lambda>r. rule_class r \<noteq> Never \<and> ?fires r) rules"
  have eq: "decide ipnet rules host port =
      (case ?never of Some r \<Rightarrow> NeverRule (rule_id r)
       | None \<Rightarrow> (case ?other of Some r \<Rightarrow> Upstream (rule_class r) (rule_id r) | None \<Rightarrow> Direct))"
    by (simp add: decide_def Let_def decide_never_find decide_upstream_find split: option.splits)
  show ?thesis
  proof (cases ?never)
    case (Some r)
    then have "decide ipnet rules host port = NeverRule (rule_id r)" by (simp add: eq)
    with Some wf_ruleset_id [OF assms] show ?thesis by (auto simp: find_Some_nth)
  next
    case None
    note no_never = this
    show ?thesis
    proof (cases ?other)
      case (Some r)
      with no_never have "decide ipnet rules host port = Upstream (rule_class r) (rule_id r)"
        by (simp add: eq)
      with no_never Some wf_ruleset_id [OF assms] show ?thesis
        by (auto simp: find_Some_nth find_None_nth)
    next
      case None
      with no_never have "decide ipnet rules host port = Direct" by (simp add: eq)
      with no_never None show ?thesis by (auto simp: find_None_nth)
    qed
  qed
qed

theorem decide_outcome_witness:
  "decide ipnet24 example_rules ''API.example.com.'' 443 = NeverRule 1
   \<and> rule_class (example_rules ! 1) = Never
   \<and> fires ipnet24 (normalized_host_new ''API.example.com.'') 443 (example_rules ! 1)"
proof -
  have "decide ipnet24 example_rules ''API.example.com.'' 443 = NeverRule 1" by code_simp
  with decide_outcome [OF example_rules_wf, of "''API.example.com.''" 443] show ?thesis by simp
qed

text \<open>Declaring a rule either appends it at the next position, keeping every rule before it, or
  rejects it as malformed arguments and leaves the ruleset untouched; both keep the invariant that
  a rule's id is its position and its matcher is what its value reads as.\<close>

theorem ruleset_push_outcome:
  assumes "wf_ruleset ipnet rules"
  shows "wf_ruleset ipnet (fst (ruleset_push ipnet rules class kind value)) \<and>
    (case ruleset_push ipnet rules class kind value of
       (rules', Inr rid) \<Rightarrow>
         rid = length rules \<and> length rules' = Suc (length rules) \<and> take (length rules) rules' = rules
         \<and> rule_class (rules' ! rid) = class \<and> rule_kind (rules' ! rid) = kind
         \<and> rule_value (rules' ! rid) = value
     | (rules', Inl failure) \<Rightarrow>
         rules' = rules \<and> invalid_rule_err_kind failure = InvalidArgs
         \<and> matcher_parse ipnet kind value = Inl failure)"
proof (cases "matcher_parse ipnet kind value")
  case (Inl failure)
  then show ?thesis
    using assms by (simp add: ruleset_push_def invalid_rule_err_kind_def)
next
  case (Inr m)
  with matcher_parse_kind [OF Inr] show ?thesis
    using ruleset_push_wf [OF assms, of "class" kind "value"]
    by (simp add: ruleset_push_def Let_def rule_kind_def)
qed

theorem ruleset_push_outcome_witness:
  "ruleset_push ipnet24 example_rules Prefer Port ''80-90'' =
     (example_rules, Inl (invalid_rule_new Port ''80-90''
        ''a single port between 0 and 65535, ranges are not supported''))
   \<and> wf_ruleset ipnet24 (fst (ruleset_push ipnet24 example_rules Prefer Port ''80-90''))"
proof -
  have "parse_u16 ''80-90'' = None" by code_simp
  then have "ruleset_push ipnet24 example_rules Prefer Port ''80-90'' =
     (example_rules, Inl (invalid_rule_new Port ''80-90''
        ''a single port between 0 and 65535, ranges are not supported''))"
    by (simp add: ruleset_push_def parse_port_def)
  with ruleset_push_outcome [OF example_rules_wf, of Prefer Port "''80-90''"] show ?thesis by simp
qed

text \<open>A decision does not depend on how the destination is spelled: neither its letter case nor
  one trailing dot changes where it is routed.\<close>

theorem decide_spelling:
  "decide ipnet rules (to_lowercase host) port = decide ipnet rules host port
   \<and> (\<not> suffix ''.'' host \<longrightarrow>
        decide ipnet rules (host @ ''.'') port = decide ipnet rules host port)"
  by (simp add: decide_def normalized_host_dot)

theorem decide_spelling_witness:
  "\<not> suffix ''.'' ''api.example.com''
   \<and> decide ipnet24 example_rules (''api.example.com'' @ ''.'') 443 = NeverRule 1"
proof -
  have a: "\<not> suffix ''.'' ''api.example.com''" by (simp add: suffix_def)
  have "decide ipnet24 example_rules ''api.example.com'' 443 = NeverRule 1" by code_simp
  with a decide_spelling [of ipnet24 example_rules "''api.example.com''" 443] show ?thesis by simp
qed

text \<open>A \<open>suffix\<close> rule whose value is accepted matches the domain it names, every name below it on
  a dot boundary, and nothing else - whatever the case and the trailing dot on either side.\<close>

theorem suffix_rule_scope:
  assumes "suffix_parse value = Inr sfx"
  shows "matcher_matches ipnet (MSuffix sfx) (normalized_host_new host) port \<longleftrightarrow>
    (let domain = to_lowercase (strip_dot value); name = to_lowercase (strip_dot host) in
     name = domain \<or> (\<exists>sub. name = sub @ ''.'' @ domain))"
  using suffix_parse_Ok [OF assms] by (simp add: suffix_matches_iff nh_host_new Let_def)

theorem suffix_rule_scope_witness:
  "matcher_matches ipnet24 (MSuffix ''example.com'') (normalized_host_new ''WWW.Example.Com'') 80
   \<and> \<not> matcher_matches ipnet24 (MSuffix ''example.com'') (normalized_host_new ''notexample.com'') 80"
proof -
  have ok: "suffix_parse ''Example.com.'' = Inr ''example.com''" by code_simp
  have yes: "to_lowercase (strip_dot ''WWW.Example.Com'') = ''www'' @ ''.'' @ ''example.com''"
    by code_simp
  have d: "to_lowercase (strip_dot ''Example.com.'') = ''example.com''" by code_simp
  have no: "to_lowercase (strip_dot ''notexample.com'') = ''notexample.com''" by code_simp
  have "''notexample.com'' \<noteq> sub @ ''.'' @ ''example.com''" for sub
  proof
    assume "''notexample.com'' = sub @ ''.'' @ ''example.com''"
    then have "suffix ''.example.com'' ''notexample.com''" by (auto simp: suffix_def)
    moreover have "\<not> suffix ''.example.com'' ''notexample.com''" by code_simp
    ultimately show False by blast
  qed
  then show ?thesis
    using suffix_rule_scope [OF ok, of ipnet24 "''WWW.Example.Com''" 80]
      suffix_rule_scope [OF ok, of ipnet24 "''notexample.com''" 80]
    by (auto simp: yes d no Let_def)
qed

text \<open>A \<open>cidr\<close> rule matches IP literals only: under a ruleset whose matchers are all networks, a
  destination with any character an address cannot hold goes direct with no rule, whatever the
  network library answers.\<close>

theorem cidr_ignores_names:
  assumes "\<forall>r \<in> set rules. \<exists>n. rule_matcher r = MCidr n"
    and "\<exists>c \<in> set (to_lowercase (strip_dot host)). \<not> addr_char c"
  shows "decide ipnet rules host port = Direct"
proof -
  have "nh_address (normalized_host_new host) = None"
    using parse_ip_name [OF assms(2)] by (simp add: nh_address_new)
  with assms(1) have "\<not> fires ipnet (normalized_host_new host) port r" if "r \<in> set rules" for r
    using that by (auto simp: fires_def)
  then show ?thesis
    by (auto simp: decide_def Let_def decide_never_find decide_upstream_find find_None_iff
        split: option.splits dest!: find_Some_nth [THEN iffD1])
qed

theorem cidr_ignores_names_witness:
  "decide ipnet24 (declare_all ipnet24 [] [(Never, Cidr, ''192.0.2.0/24'')])
     ''192.0.2.17.example.com'' 80 = Direct"
proof (rule cidr_ignores_names)
  show "\<forall>r \<in> set (declare_all ipnet24 [] [(Never, Cidr, ''192.0.2.0/24'')]).
      \<exists>n. rule_matcher r = MCidr n"
    by (auto simp: ruleset_push_def res_bind_def Let_def split: sum.splits)
  show "\<exists>c \<in> set (to_lowercase (strip_dot ''192.0.2.17.example.com'')). \<not> addr_char c"
    by code_simp
qed

end
