(* ===== verification/Proxy.thy ===== *)
theory Proxy
  imports Rules
begin

section \<open>The shared types of the front ends: \<open>proxy/mod.rs\<close>\<close>

text \<open>
  The forwards and the upstream list an init script declares, the failures a dial can end with,
  and the guard that keeps a front end from dialling the address it was reached on.
\<close>

subsection \<open>I/O failures\<close>

text \<open>
  A \<open>std::io::Error\<close> is a kind, the text it displays as and, for the two refusals nhop makes
  itself, the value it carries.
\<close>

datatype io_kind =
    HostUnreachable | PermissionDenied | TimedOut | UnexpectedEof | FileNotFound
  | ConnectionRefused | ConnectionReset | OtherKind

datatype payload = NoPayload | PUpstreamDown socket_addr rule_id | PDialsItself socket_addr

record io_error =
  ie_kind :: io_kind
  ie_text :: string
  ie_payload :: payload

definition io_other :: "string \<Rightarrow> io_error" where
  "io_other text = \<lparr> ie_kind = OtherKind, ie_text = text, ie_payload = NoPayload \<rparr>"

record dials_itself = di_listening :: socket_addr

definition show_dials_itself :: "dials_itself \<Rightarrow> string" where
  "show_dials_itself d =
     ''nhop: refusing to dial my own listening address '' @ show_socket (di_listening d)"

definition io_of_dials_itself :: "dials_itself \<Rightarrow> io_error" where
  "io_of_dials_itself d =
     \<lparr> ie_kind = PermissionDenied, ie_text = show_dials_itself d,
       ie_payload = PDialsItself (di_listening d) \<rparr>"

record upstream_down =
  ud_addr :: socket_addr
  ud_rule :: rule_id

definition show_upstream_down :: "upstream_down \<Rightarrow> string" where
  "show_upstream_down d =
     ''nhop: upstream '' @ show_socket (ud_addr d) @ '' is down (require rule ''
     @ show_nat (ud_rule d) @ '')''"

definition io_of_upstream_down :: "upstream_down \<Rightarrow> io_error" where
  "io_of_upstream_down d =
     \<lparr> ie_kind = HostUnreachable, ie_text = show_upstream_down d,
       ie_payload = PUpstreamDown (ud_addr d) (ud_rule d) \<rparr>"

definition carried_by :: "io_error \<Rightarrow> upstream_down option" where
  "carried_by failure =
     (case ie_payload failure of
        PUpstreamDown addr rule \<Rightarrow> Some \<lparr> ud_addr = addr, ud_rule = rule \<rparr>
      | _ \<Rightarrow> None)"

lemma carried_by_simps [simp]:
  "carried_by (io_of_upstream_down d) = Some d"
  "carried_by (io_of_dials_itself i) = None"
  "carried_by (io_other t) = None"
  by (simp_all add: carried_by_def io_of_upstream_down_def io_of_dials_itself_def io_other_def)

subsection \<open>Forwards\<close>

record listen =
  l_http :: socket_addr
  l_socks :: socket_addr

record target =
  t_host :: host
  t_port :: port

record forward =
  f_listen :: socket_addr
  f_target :: target

definition forward_show_view :: "forward \<Rightarrow> forward_view" where
  "forward_show_view f =
     \<lparr> fv_listen = f_listen f, fv_host = t_host (f_target f), fv_port = t_port (f_target f) \<rparr>"

datatype duplicate_forward = DuplicateForward socket_addr

fun show_duplicate_forward :: "duplicate_forward \<Rightarrow> string" where
  "show_duplicate_forward (DuplicateForward addr) =
     ''a forward already listens on '' @ show_socket addr"

type_synonym forwards = "forward list"

definition forwards_push :: "forwards \<Rightarrow> forward \<Rightarrow> forwards \<times> (duplicate_forward, unit) res" where
  "forwards_push forwards forward =
     (if list_ex (\<lambda>declared. f_listen declared = f_listen forward) forwards
      then (forwards, Err (DuplicateForward (f_listen forward)))
      else (forwards @ [forward], Ok ()))"

fun forwards_target_of :: "forwards \<Rightarrow> socket_addr \<Rightarrow> target option" where
  "forwards_target_of [] listen = None"
| "forwards_target_of (forward # forwards) listen =
     (if f_listen forward = listen then Some (f_target forward)
      else forwards_target_of forwards listen)"

definition forwards_views :: "forwards \<Rightarrow> forward_view list" where
  "forwards_views forwards = map forward_show_view forwards"

definition wf_forwards :: "forwards \<Rightarrow> bool" where
  "wf_forwards forwards \<longleftrightarrow> distinct (map f_listen forwards)"

lemma wf_forwards_Nil [simp, wf_intros]: "wf_forwards []"
  by (simp add: wf_forwards_def)

lemma forwards_push_wf [wf_intros]:
  "wf_forwards forwards \<Longrightarrow> wf_forwards (fst (forwards_push forwards forward))"
  by (auto simp: wf_forwards_def forwards_push_def list_ex_iff)

lemma forwards_target_of_append:
  "forwards_target_of (fs @ gs) listen =
     (case forwards_target_of fs listen of None \<Rightarrow> forwards_target_of gs listen | Some t \<Rightarrow> Some t)"
  by (induction fs) auto

lemma forwards_target_of_None:
  "forwards_target_of fs listen = None \<longleftrightarrow> listen \<notin> f_listen ` set fs"
  by (induction fs) auto

lemma forwards_target_of_Some:
  "wf_forwards fs \<Longrightarrow>
     forwards_target_of fs listen = Some t \<longleftrightarrow> \<lparr> f_listen = listen, f_target = t \<rparr> \<in> set fs"
proof (induction fs)
  case (Cons f fs)
  have "f = \<lparr> f_listen = f_listen f, f_target = f_target f \<rparr>" by simp
  with Cons show ?case
    by (cases f) (auto simp: wf_forwards_def image_iff intro: forward.equality)
qed simp

text \<open>
  The interface of a table of declarations: one entry per key, declared once, found by its key.
  Staging declares forwards into one and the listeners are matched against one.
\<close>

locale declaration_table =
  fixes empty :: 't
    and declare_entry :: "'t \<Rightarrow> 'k \<Rightarrow> 'v \<Rightarrow> 't \<times> bool"
    and lookup :: "'t \<Rightarrow> 'k \<Rightarrow> 'v option"
    and invar :: "'t \<Rightarrow> bool"
  assumes invar_empty: "invar empty"
    and invar_declare: "invar t \<Longrightarrow> invar (fst (declare_entry t k v))"
    and lookup_empty: "lookup empty k = None"
    and declare_fresh: "invar t \<Longrightarrow> lookup t k = None \<Longrightarrow> snd (declare_entry t k v)"
    and declare_taken: "invar t \<Longrightarrow> lookup t k = Some w \<Longrightarrow> declare_entry t k v = (t, False)"
    and lookup_declare:
      "invar t \<Longrightarrow> lookup t k = None \<Longrightarrow>
         lookup (fst (declare_entry t k v)) j = (if j = k then Some v else lookup t j)"
begin

lemma lookup_after:
  "invar t \<Longrightarrow>
     lookup (fst (declare_entry t k v)) j =
       (case lookup t k of None \<Rightarrow> if j = k then Some v else lookup t j | Some _ \<Rightarrow> lookup t j)"
  by (cases "lookup t k") (auto simp: lookup_declare declare_taken)

text \<open>Declaring a list of entries keeps the first declaration of each key.\<close>

lemma fold_declare:
  "invar t \<Longrightarrow>
     (let t' = foldl (\<lambda>t (k, v). fst (declare_entry t k v)) t kvs in
      invar t' \<and>
      lookup t' j = (case lookup t j of Some v \<Rightarrow> Some v | None \<Rightarrow> map_of kvs j))"
proof (induction kvs arbitrary: t)
  case Nil
  then show ?case by (auto split: option.splits)
next
  case (Cons kv kvs)
  obtain k v where kv: "kv = (k, v)" by (cases kv)
  from Cons.prems have "invar (fst (declare_entry t k v))" by (rule invar_declare)
  from Cons.IH [OF this] Cons.prems show ?case
    by (cases "lookup t k") (auto simp: kv Let_def lookup_after split: option.splits if_splits)
qed

end

definition forwards_declare :: "forwards \<Rightarrow> socket_addr \<Rightarrow> target \<Rightarrow> forwards \<times> bool" where
  "forwards_declare fs listen target =
     (case forwards_push fs \<lparr> f_listen = listen, f_target = target \<rparr> of
        (fs', Inr _) \<Rightarrow> (fs', True) | (fs', Inl _) \<Rightarrow> (fs', False))"

lemma declared_iff:
  "list_ex (\<lambda>d. f_listen d = a) fs \<longleftrightarrow> forwards_target_of fs a \<noteq> None"
  by (induction fs) auto

lemma forwards_push_fresh:
  "forwards_target_of fs (f_listen f) = None \<Longrightarrow> forwards_push fs f = (fs @ [f], Ok ())"
  by (simp add: forwards_push_def declared_iff)

lemma forwards_push_taken:
  "forwards_target_of fs (f_listen f) \<noteq> None \<Longrightarrow>
     forwards_push fs f = (fs, Err (DuplicateForward (f_listen f)))"
  by (simp add: forwards_push_def declared_iff)

interpretation fwd: declaration_table "[]" forwards_declare forwards_target_of wf_forwards
proof
  show "wf_forwards []" by simp
  show "wf_forwards (fst (forwards_declare t k v))" if "wf_forwards t" for t k v
    using forwards_push_wf [OF that]
    by (auto simp: forwards_declare_def split: prod.splits sum.splits) (metis fst_conv)+
  show "forwards_target_of [] k = None" for k by simp
  show "snd (forwards_declare t k v)" if "forwards_target_of t k = None" for t k v
    using that by (simp add: forwards_declare_def forwards_push_fresh)
  show "forwards_declare t k v = (t, False)" if "forwards_target_of t k = Some w" for t k v w
    using that by (simp add: forwards_declare_def forwards_push_taken)
  show "forwards_target_of (fst (forwards_declare t k v)) j =
      (if j = k then Some v else forwards_target_of t j)"
    if "forwards_target_of t k = None" for t k v j
    using that
    by (auto simp: forwards_declare_def forwards_push_fresh forwards_target_of_append
        split: option.splits)
qed

subsection \<open>Upstreams\<close>

definition NO_UPSTREAM :: socket_addr where
  "NO_UPSTREAM = SA4 (IPv4 127 0 0 1) 0"

definition SOCKS5_SCHEME :: string where "SOCKS5_SCHEME = ''socks5://''"

definition LOCALHOST :: string where "LOCALHOST = ''localhost''"

datatype unusable_upstreams = Invalid string | Duplicate socket_addr

fun show_unusable_upstreams :: "unusable_upstreams \<Rightarrow> string" where
  "show_unusable_upstreams (Invalid text) =
     ''upstream must be socks5://<ip>:<port>, got '' @ debug_str text"
| "show_unusable_upstreams (Duplicate addr) =
     ''upstream '' @ show_socket addr @ '' is listed more than once''"

record upstream =
  written :: upstream_addr
  socket :: socket_addr

definition upstream_parse :: "upstream_addr \<Rightarrow> (unusable_upstreams, upstream) res" where
  "upstream_parse text =
     (let text' = trim text;
          text' = (case strip_prefix SOCKS5_SCHEME text' of Some rest \<Rightarrow> rest | None \<Rightarrow> text')
      in case parse_socket text' of
           None \<Rightarrow> Err (Invalid text')
         | Some addr \<Rightarrow> Ok \<lparr> written = text, socket = addr \<rparr>)"

fun upstreams_parse_from ::
  "upstream list \<Rightarrow> upstream_addr list \<Rightarrow> (unusable_upstreams, upstream list) res" where
  "upstreams_parse_from entries [] = Ok entries"
| "upstreams_parse_from entries (text # rest) =
     res_bind (upstream_parse text) (\<lambda>u.
       if list_ex (\<lambda>listed. socket listed = socket u) entries then Err (Duplicate (socket u))
       else upstreams_parse_from (entries @ [u]) rest)"

definition upstreams_parse ::
  "upstream_addr \<Rightarrow> upstream_addr list \<Rightarrow> (unusable_upstreams, upstream list) res" where
  "upstreams_parse first fallbacks = upstreams_parse_from [] (first # fallbacks)"

definition wf_upstreams :: "upstream list \<Rightarrow> bool" where
  "wf_upstreams us \<longleftrightarrow> us \<noteq> [] \<and> distinct (map socket us)"

lemma upstream_parse_written: "upstream_parse text = Inr u \<Longrightarrow> written u = text"
  by (auto simp: upstream_parse_def Let_def split: option.splits)

lemma upstreams_parse_from_Ok:
  "upstreams_parse_from entries texts = Inr us \<Longrightarrow> distinct (map socket entries) \<Longrightarrow>
     distinct (map socket us) \<and>
     (\<exists>new. us = entries @ new \<and> map upstream_parse texts = map Inr new)"
proof (induction entries texts rule: upstreams_parse_from.induct)
  case (1 entries)
  then show ?case by simp
next
  case (2 entries t rest)
  from "2.prems"(1) obtain u where u: "upstream_parse t = Inr u"
    and fresh: "\<not> list_ex (\<lambda>listed. socket listed = socket u) entries"
    and rest: "upstreams_parse_from (entries @ [u]) rest = Inr us"
    by (auto simp: res_bind_Inr_iff split: if_splits)
  have "distinct (map socket (entries @ [u]))"
    using "2.prems"(2) fresh by (auto simp: list_ex_iff)
  with "2.IH" [OF _ rest] u fresh show ?case by (auto simp: list_ex_iff)
qed

lemma upstreams_parse_wf [wf_intros]:
  "upstreams_parse first fallbacks = Inr us \<Longrightarrow> wf_upstreams us"
  unfolding upstreams_parse_def wf_upstreams_def
  by (drule upstreams_parse_from_Ok) auto

lemma map_written: "map upstream_parse texts = map Inr us \<Longrightarrow> map written us = texts"
  by (induction texts arbitrary: us) (auto simp: Cons_eq_map_conv dest: upstream_parse_written)

lemma upstreams_parse_written:
  assumes "upstreams_parse first fallbacks = Inr us"
  shows "map written us = first # fallbacks"
proof -
  from assms upstreams_parse_from_Ok [of "[]" "first # fallbacks" us]
  have "map upstream_parse (first # fallbacks) = map Inr us"
    by (auto simp: upstreams_parse_def)
  then show ?thesis by (rule map_written)
qed

subsection \<open>The loop guard\<close>

fun canonical :: "ip_addr \<Rightarrow> ip_addr" where
  "canonical (V4 address) = V4 address"
| "canonical (V6 address) =
     (case to_ipv4_mapped address of Some v4 \<Rightarrow> V4 v4 | None \<Rightarrow> V6 address)"

definition dials_itself_test :: "host \<Rightarrow> port \<Rightarrow> socket_addr \<Rightarrow> bool" where
  "dials_itself_test destination port listening =
     (if port \<noteq> sock_port listening then False
      else
        let listening = canonical (sock_ip listening);
            destination = normalized_host_new destination
        in case nh_address destination of
             None \<Rightarrow> nh_host destination = LOCALHOST \<and> is_loopback listening
           | Some address \<Rightarrow>
               (let address = canonical address in
                is_unspecified address \<or> address = listening))"

datatype loop = Own socket_addr | Elsewhere

text \<open>The address of the accepted socket is absent when the socket cannot name itself.\<close>

definition own_address :: "socket_addr option \<Rightarrow> host \<Rightarrow> port \<Rightarrow> loop" where
  "own_address local_addr host port =
     (case local_addr of
        None \<Rightarrow> Elsewhere
      | Some listening \<Rightarrow>
          if dials_itself_test host port listening then Own listening else Elsewhere)"

lemma own_address_Own:
  "own_address local_addr host port = Own a \<longleftrightarrow>
     local_addr = Some a \<and> dials_itself_test host port a"
  by (auto simp: own_address_def split: option.splits)

end
