(* ===== verification/Staging.thy ===== *)
theory Staging
  imports Proxy
begin

section \<open>What an init run has built so far: \<open>daemon/staging.rs\<close>\<close>

text \<open>
  A run of the init script declares the whole rule set, the upstreams, the front-end addresses and
  the forwards into a staging area.  A rejected declaration marks the run as failed, and the first
  such mark is kept.  The identifier a run is tagged with is drawn here too.
\<close>

datatype failed_command =
    FailedAddRule | FailedSetUpstream | FailedSetUpstreams | FailedSetListen | FailedAddForward

fun failed_command_name :: "failed_command \<Rightarrow> string" where
  "failed_command_name FailedAddRule = ''add_rule''"
| "failed_command_name FailedSetUpstream = ''set_upstream''"
| "failed_command_name FailedSetUpstreams = ''set_upstreams''"
| "failed_command_name FailedSetListen = ''set_listen''"
| "failed_command_name FailedAddForward = ''add_forward''"

record 'net committed =
  cm_rules :: "'net ruleset"
  cm_upstream :: "upstream list option"
  cm_listen :: "listen option"
  cm_forwards :: forwards

record 'net staging =
  sg_rules :: "'net ruleset"
  sg_upstream :: "upstream list option"
  sg_listen :: "listen option"
  sg_forwards :: forwards
  sg_failed :: "failed_command option"

definition staging_default :: "'net staging" where
  "staging_default =
     \<lparr> sg_rules = [], sg_upstream = None, sg_listen = None, sg_forwards = [], sg_failed = None \<rparr>"

subsection \<open>The operations of a run\<close>

definition staging_fail :: "'net staging \<Rightarrow> failed_command \<Rightarrow> 'net staging" where
  "staging_fail staged failed =
     (case sg_failed staged of
        Some first \<Rightarrow> staged
      | None \<Rightarrow> staged\<lparr> sg_failed := Some failed \<rparr>)"

definition staging_push_rule ::
  "('net, 'a) ipnet_scheme \<Rightarrow> 'net staging \<Rightarrow> rule_class \<Rightarrow> rule_kind \<Rightarrow> rule_value
     \<Rightarrow> 'net staging \<times> (invalid_rule, unit) res" where
  "staging_push_rule ipnet staged class kind value =
     (let (rules, pushed) = ruleset_push ipnet (sg_rules staged) class kind value;
          staged = staged\<lparr> sg_rules := rules \<rparr>
      in case pushed of
           Inr _ \<Rightarrow> (staged, Ok ())
         | Inl failure \<Rightarrow> (staging_fail staged FailedAddRule, Err failure))"

definition staging_clear_rules :: "'net staging \<Rightarrow> 'net staging" where
  "staging_clear_rules staged = staged\<lparr> sg_rules := [] \<rparr>"

definition staging_set_upstream ::
  "'net staging \<Rightarrow> upstream_addr \<Rightarrow> upstream_addr list
     \<Rightarrow> 'net staging \<times> (unusable_upstreams, unit) res" where
  "staging_set_upstream staged first fallbacks =
     (let sent = (if fallbacks = [] then FailedSetUpstream else FailedSetUpstreams) in
      case upstreams_parse first fallbacks of
        Inr upstreams \<Rightarrow> (staged\<lparr> sg_upstream := Some upstreams \<rparr>, Ok ())
      | Inl failure \<Rightarrow> (staging_fail staged sent, Err failure))"

definition staging_set_listen :: "'net staging \<Rightarrow> listen \<Rightarrow> 'net staging" where
  "staging_set_listen staged addrs = staged\<lparr> sg_listen := Some addrs \<rparr>"

definition staging_push_forward ::
  "'net staging \<Rightarrow> forward \<Rightarrow> 'net staging \<times> (duplicate_forward, unit) res" where
  "staging_push_forward staged forward =
     (let (forwards, pushed) = forwards_push (sg_forwards staged) forward;
          staged = staged\<lparr> sg_forwards := forwards \<rparr>
      in case pushed of
           Inr _ \<Rightarrow> (staged, Ok ())
         | Inl failure \<Rightarrow> (staging_fail staged FailedAddForward, Err failure))"

definition staging_failure :: "'net staging \<Rightarrow> failed_command option" where
  "staging_failure staged = sg_failed staged"

definition staging_commit :: "'net staging \<Rightarrow> 'net committed" where
  "staging_commit staged =
     \<lparr> cm_rules = sg_rules staged, cm_upstream = sg_upstream staged,
       cm_listen = sg_listen staged, cm_forwards = sg_forwards staged \<rparr>"

subsection \<open>The identifiers of the runs\<close>

text \<open>The counter is a \<open>u64\<close>; it wraps in a release build.\<close>

definition load_ids_issue :: "nat \<Rightarrow> nat \<times> load_id" where
  "load_ids_issue issued = (let issued = (issued + 1) mod (u64_max + 1) in (issued, issued))"

lemma load_ids_issue_fresh: "issued < u64_max \<Longrightarrow> load_ids_issue issued = (Suc issued, Suc issued)"
  by (simp add: load_ids_issue_def Let_def u64_max_def)

subsection \<open>The invariant of a run\<close>

definition wf_staging :: "('net, 'a) ipnet_scheme \<Rightarrow> 'net staging \<Rightarrow> bool" where
  "wf_staging ipnet staged \<longleftrightarrow>
     wf_ruleset ipnet (sg_rules staged) \<and> wf_forwards (sg_forwards staged)
     \<and> (case sg_upstream staged of None \<Rightarrow> True | Some us \<Rightarrow> wf_upstreams us)"

lemma wf_staging_default [wf_intros, simp]: "wf_staging ipnet staging_default"
  by (simp add: wf_staging_def staging_default_def)

lemma sg_fail_simps [simp]:
  "sg_rules (staging_fail s c) = sg_rules s" "sg_upstream (staging_fail s c) = sg_upstream s"
  "sg_listen (staging_fail s c) = sg_listen s" "sg_forwards (staging_fail s c) = sg_forwards s"
  "sg_failed (staging_fail s c) = (case sg_failed s of None \<Rightarrow> Some c | Some first \<Rightarrow> Some first)"
  by (simp_all add: staging_fail_def split: option.split)

lemma staging_push_rule_eq:
  "staging_push_rule ipnet s class kind value =
     (case matcher_parse ipnet kind value of
        Inl failure \<Rightarrow> (staging_fail s FailedAddRule, Err failure)
      | Inr _ \<Rightarrow> (s\<lparr> sg_rules := fst (ruleset_push ipnet (sg_rules s) class kind value) \<rparr>, Ok ()))"
  by (simp add: staging_push_rule_def ruleset_push_def Let_def split: sum.split)

lemma staging_push_forward_eq:
  "staging_push_forward s forward =
     (if forwards_target_of (sg_forwards s) (f_listen forward) = None
      then (s\<lparr> sg_forwards := sg_forwards s @ [forward] \<rparr>, Ok ())
      else (staging_fail s FailedAddForward, Err (DuplicateForward (f_listen forward))))"
  by (simp add: staging_push_forward_def forwards_push_fresh forwards_push_taken)

lemma staging_push_rule_wf [wf_intros]:
  "wf_staging ipnet s \<Longrightarrow> wf_staging ipnet (fst (staging_push_rule ipnet s class kind value))"
  by (simp add: staging_push_rule_eq wf_staging_def ruleset_push_wf split: sum.split)

lemma staging_clear_rules_wf [wf_intros]:
  "wf_staging ipnet s \<Longrightarrow> wf_staging ipnet (staging_clear_rules s)"
  by (simp add: staging_clear_rules_def wf_staging_def)

lemma staging_set_upstream_wf [wf_intros]:
  "wf_staging ipnet s \<Longrightarrow> wf_staging ipnet (fst (staging_set_upstream s first fallbacks))"
  by (simp add: staging_set_upstream_def wf_staging_def upstreams_parse_wf split: sum.split)

lemma staging_set_listen_wf [wf_intros]:
  "wf_staging ipnet s \<Longrightarrow> wf_staging ipnet (staging_set_listen s addrs)"
  by (simp add: staging_set_listen_def wf_staging_def)

lemma staging_push_forward_wf [wf_intros]:
  assumes "wf_staging ipnet s"
  shows "wf_staging ipnet (fst (staging_push_forward s forward))"
proof -
  from assms have "wf_forwards (fst (forwards_push (sg_forwards s) forward))"
    by (simp add: wf_staging_def forwards_push_wf)
  with assms show ?thesis
    by (auto simp: staging_push_forward_def wf_staging_def Let_def split: prod.split sum.split)
qed

end
