(* ===== verification/Frontends.thy ===== *)
theory Frontends
  imports Proxy
begin

section \<open>The listeners of a running daemon: \<open>Frontends\<close> of \<open>daemon/mod.rs\<close>\<close>

text \<open>
  Which addresses the two protocol front ends and the forwards hold, and how a load moves them.
  Opening a listening socket is the operating system's: the parameter \<open>os\<close> says, for each attempt,
  whether an address can be bound and what the listener reports as its own address.  An attempt is
  numbered, so an address may be free at one attempt and taken at another.  The task that accepts
  on a listener, and the live cells and the hop it is handed, do not change which addresses are
  held.
\<close>

record listener =
  ln_attempt :: nat
  ln_requested :: socket_addr

record os =
  os_bind :: "nat \<Rightarrow> socket_addr \<Rightarrow> io_error option"
  os_local :: "listener \<Rightarrow> (io_error, socket_addr) res"

definition bind_tcp :: "os \<Rightarrow> nat \<Rightarrow> socket_addr \<Rightarrow> nat \<times> (io_error, listener) res" where
  "bind_tcp os n addr =
     (Suc n,
      case os_bind os n addr of
        Some failure \<Rightarrow> Err failure
      | None \<Rightarrow> Ok \<lparr> ln_attempt = n, ln_requested = addr \<rparr>)"

record accepting =
  ac_addr :: socket_addr
  ac_listener :: listener

record forwarding =
  fg_accepting :: accepting
  fg_target :: target

record bound =
  bd_http :: accepting
  bd_socks :: accepting
  bd_forwards :: "forwarding list"

datatype frontends = Unbound | Bound bound

text \<open>\<open>accept_http\<close>, \<open>accept_socks\<close> and the first lines of \<open>accept_forward\<close>.\<close>

definition accept_on :: "os \<Rightarrow> listener \<Rightarrow> (io_error, accepting) res" where
  "accept_on os listener =
     res_bind (os_local os listener) (\<lambda>addr. Ok \<lparr> ac_addr = addr, ac_listener = listener \<rparr>)"

definition accept_forward :: "os \<Rightarrow> listener \<Rightarrow> target \<Rightarrow> (io_error, forwarding) res" where
  "accept_forward os listener target =
     res_bind (accept_on os listener)
       (\<lambda>accepting. Ok \<lparr> fg_accepting = accepting, fg_target = target \<rparr>)"

definition forwarding_forward :: "forwarding \<Rightarrow> forward" where
  "forwarding_forward fg = \<lparr> f_listen = ac_addr (fg_accepting fg), f_target = fg_target fg \<rparr>"

definition bound_listen :: "bound \<Rightarrow> listen" where
  "bound_listen b = \<lparr> l_http = ac_addr (bd_http b), l_socks = ac_addr (bd_socks b) \<rparr>"

definition bound_forwards :: "bound \<Rightarrow> forwards" where
  "bound_forwards b =
     foldl (\<lambda>forwards fg. fst (forwards_push forwards (forwarding_forward fg))) [] (bd_forwards b)"

definition bound_held :: "bound \<Rightarrow> socket_addr \<Rightarrow> bool" where
  "bound_held b addr = list_ex (\<lambda>fg. ac_addr (fg_accepting fg) = addr) (bd_forwards b)"

subsection \<open>Moving the protocol front ends\<close>

definition bind_unless_held ::
  "os \<Rightarrow> nat \<Rightarrow> socket_addr \<Rightarrow> socket_addr \<Rightarrow> nat \<times> (io_error, listener option) res" where
  "bind_unless_held os n addr kept =
     (if addr = kept then (n, Ok None)
      else let (n, tcp) = bind_tcp os n addr in (n, res_bind tcp (\<lambda>l. Ok (Some l))))"

definition bound_rebind ::
  "os \<Rightarrow> nat \<Rightarrow> bound \<Rightarrow> listen \<Rightarrow> nat \<times> bound \<times> (io_error, listen) res" where
  "bound_rebind os n b addrs =
     (case bind_unless_held os n (l_http addrs) (ac_addr (bd_http b)) of
        (n, Inl failure) \<Rightarrow> (n, b, Err failure)
      | (n, Inr http) \<Rightarrow>
          (case bind_unless_held os n (l_socks addrs) (ac_addr (bd_socks b)) of
             (n, Inl failure) \<Rightarrow> (n, b, Err failure)
           | (n, Inr socks) \<Rightarrow>
               (case (case http of
                        None \<Rightarrow> Ok b
                      | Some l \<Rightarrow> res_bind (accept_on os l) (\<lambda>a. Ok (b\<lparr> bd_http := a \<rparr>))) of
                  Inl failure \<Rightarrow> (n, b, Err failure)
                | Inr b \<Rightarrow>
                    (case (case socks of
                             None \<Rightarrow> Ok b
                           | Some l \<Rightarrow> res_bind (accept_on os l) (\<lambda>a. Ok (b\<lparr> bd_socks := a \<rparr>))) of
                       Inl failure \<Rightarrow> (n, b, Err failure)
                     | Inr b \<Rightarrow> (n, b, Ok (bound_listen b))))))"

subsection \<open>Making the forwards match the declared set\<close>

text \<open>The first loop: every declared address no listener holds is bound before anything is closed.\<close>

fun bind_fresh ::
  "os \<Rightarrow> nat \<Rightarrow> bound \<Rightarrow> forwards \<Rightarrow> nat \<times> (io_error, (listener \<times> target) list) res" where
  "bind_fresh os n b [] = (n, Ok [])"
| "bind_fresh os n b (forward # wanted) =
     (if bound_held b (f_listen forward) then bind_fresh os n b wanted
      else
        case bind_tcp os n (f_listen forward) of
          (n, Inl failure) \<Rightarrow> (n, Err failure)
        | (n, Inr listener) \<Rightarrow>
            (case bind_fresh os n b wanted of
               (n, Inl failure) \<Rightarrow> (n, Err failure)
             | (n, Inr fresh) \<Rightarrow> (n, Ok ((listener, f_target forward) # fresh))))"

definition retained :: "forwards \<Rightarrow> forwarding list \<Rightarrow> forwarding list" where
  "retained wanted fgs =
     filter (\<lambda>fg. forwards_target_of wanted (ac_addr (fg_accepting fg)) \<noteq> None) fgs"

definition retargeted :: "forwards \<Rightarrow> forwarding list \<Rightarrow> forwarding list" where
  "retargeted wanted fgs =
     map (\<lambda>fg. case forwards_target_of wanted (ac_addr (fg_accepting fg)) of
                 None \<Rightarrow> fg
               | Some target \<Rightarrow> fg\<lparr> fg_target := target \<rparr>) fgs"

fun accept_fresh ::
  "os \<Rightarrow> forwarding list \<Rightarrow> (listener \<times> target) list \<Rightarrow> forwarding list \<times> (io_error, unit) res" where
  "accept_fresh os fgs [] = (fgs, Ok ())"
| "accept_fresh os fgs ((listener, target) # fresh) =
     (case accept_forward os listener target of
        Inl failure \<Rightarrow> (fgs, Err failure)
      | Inr fg \<Rightarrow> accept_fresh os (fgs @ [fg]) fresh)"

definition bound_rebind_forwards ::
  "os \<Rightarrow> nat \<Rightarrow> bound \<Rightarrow> forwards \<Rightarrow> nat \<times> bound \<times> (io_error, forwards) res" where
  "bound_rebind_forwards os n b wanted =
     (case bind_fresh os n b wanted of
        (n, Inl failure) \<Rightarrow> (n, b, Err failure)
      | (n, Inr fresh) \<Rightarrow>
          (let kept = retargeted wanted (retained wanted (bd_forwards b));
               (fgs, accepted) = accept_fresh os kept fresh;
               b = b\<lparr> bd_forwards := fgs \<rparr>
           in (n, b, res_bind accepted (\<lambda>_. Ok (bound_forwards b)))))"

subsection \<open>The front ends as the state task sees them\<close>

definition frontends_bind :: "os \<Rightarrow> nat \<Rightarrow> listen \<Rightarrow> nat \<times> (io_error, frontends) res" where
  "frontends_bind os n addrs =
     (case bind_tcp os n (l_http addrs) of
        (n, Inl failure) \<Rightarrow> (n, Err failure)
      | (n, Inr http) \<Rightarrow>
          (case bind_tcp os n (l_socks addrs) of
             (n, Inl failure) \<Rightarrow> (n, Err failure)
           | (n, Inr socks) \<Rightarrow>
               (n, res_bind (accept_on os http) (\<lambda>http.
                     res_bind (accept_on os socks) (\<lambda>socks.
                       Ok (Bound \<lparr> bd_http = http, bd_socks = socks, bd_forwards = [] \<rparr>))))))"

fun frontends_listening :: "frontends \<Rightarrow> listen option" where
  "frontends_listening Unbound = None"
| "frontends_listening (Bound b) = Some (bound_listen b)"

fun frontends_rebind ::
  "os \<Rightarrow> nat \<Rightarrow> frontends \<Rightarrow> listen \<Rightarrow> nat \<times> frontends \<times> (io_error, listen) res" where
  "frontends_rebind os n Unbound addrs = (n, Unbound, Ok addrs)"
| "frontends_rebind os n (Bound b) addrs =
     (let (n, b, moved) = bound_rebind os n b addrs in (n, Bound b, moved))"

fun frontends_rebind_forwards ::
  "os \<Rightarrow> nat \<Rightarrow> frontends \<Rightarrow> forwards \<Rightarrow> nat \<times> frontends \<times> (io_error, forwards) res" where
  "frontends_rebind_forwards os n Unbound wanted = (n, Unbound, Ok wanted)"
| "frontends_rebind_forwards os n (Bound b) wanted =
     (let (n, b, moved) = bound_rebind_forwards os n b wanted in (n, Bound b, moved))"

subsection \<open>What a rebind leaves behind\<close>

text \<open>
  The documented behaviour of \<open>local_addr\<close>: a listener bound to a port other than 0 reports the
  address it was bound to.
\<close>

definition names_itself :: "os \<Rightarrow> bool" where
  "names_itself os \<longleftrightarrow>
     (\<forall>l. sock_port (ln_requested l) \<noteq> 0 \<longrightarrow> os_local os l = Inr (ln_requested l))"

definition addr_of :: "forwarding \<Rightarrow> socket_addr" where
  "addr_of fg = ac_addr (fg_accepting fg)"

definition wf_bound :: "bound \<Rightarrow> bool" where
  "wf_bound b \<longleftrightarrow> distinct (map addr_of (bd_forwards b))"

definition fixed_ports :: "forwards \<Rightarrow> bool" where
  "fixed_ports wanted \<longleftrightarrow> list_all (\<lambda>f. sock_port (f_listen f) \<noteq> 0) wanted"

definition opened :: "listener \<Rightarrow> target \<Rightarrow> forwarding" where
  "opened l t = \<lparr> fg_accepting = \<lparr> ac_addr = ln_requested l, ac_listener = l \<rparr>, fg_target = t \<rparr>"

lemma forwarding_forward_simps [simp]:
  "f_listen (forwarding_forward fg) = addr_of fg" "f_target (forwarding_forward fg) = fg_target fg"
  by (simp_all add: forwarding_forward_def addr_of_def)

lemma addr_of_opened [simp]: "addr_of (opened l t) = ln_requested l" "fg_target (opened l t) = t"
  by (simp_all add: addr_of_def opened_def)

lemma bound_held_iff: "bound_held b a \<longleftrightarrow> a \<in> addr_of ` set (bd_forwards b)"
  by (auto simp: bound_held_def list_ex_iff addr_of_def)

lemma foldl_push:
  "distinct (map f_listen (fs @ map forwarding_forward fgs)) \<Longrightarrow>
     foldl (\<lambda>fs fg. fst (forwards_push fs (forwarding_forward fg))) fs fgs
       = fs @ map forwarding_forward fgs"
proof (induction fgs arbitrary: fs)
  case (Cons fg fgs)
  from Cons.prems have "forwards_target_of fs (addr_of fg) = None"
    by (auto simp: forwards_target_of_None)
  then have "forwards_push fs (forwarding_forward fg) = (fs @ [forwarding_forward fg], Ok ())"
    by (simp add: forwards_push_fresh)
  with Cons.IH [of "fs @ [forwarding_forward fg]"] Cons.prems show ?case by simp
qed simp

lemma bound_forwards_eq: "wf_bound b \<Longrightarrow> bound_forwards b = map forwarding_forward (bd_forwards b)"
  using foldl_push [of "[]" "bd_forwards b"]
  by (simp add: bound_forwards_def wf_bound_def comp_def)

lemma bind_fresh_Ok:
  "bind_fresh os n b wanted = (n', Inr fresh) \<Longrightarrow>
     map (\<lambda>(l, t). \<lparr> f_listen = ln_requested l, f_target = t \<rparr>) fresh
       = filter (\<lambda>f. \<not> bound_held b (f_listen f)) wanted"
proof (induction os n b wanted arbitrary: n' fresh rule: bind_fresh.induct)
  case (2 os n b f wanted)
  then show ?case
    by (cases f) (auto simp: bind_tcp_def split: if_splits prod.splits sum.splits option.splits)
qed simp

lemma bind_fresh_Err:
  "bind_fresh os n b wanted = (n', Inl e) \<Longrightarrow>
     \<exists>k. \<exists>f \<in> set wanted. \<not> bound_held b (f_listen f) \<and> os_bind os k (f_listen f) = Some e"
proof (induction os n b wanted arbitrary: n' rule: bind_fresh.induct)
  case (2 os n b f wanted)
  then show ?case
    by (auto simp: bind_tcp_def split: if_splits prod.splits sum.splits option.splits)
qed simp

lemma accept_fresh_Ok:
  "names_itself os \<Longrightarrow> list_all (\<lambda>(l, t). sock_port (ln_requested l) \<noteq> 0) fresh \<Longrightarrow>
     accept_fresh os fgs fresh = (fgs @ map (\<lambda>(l, t). opened l t) fresh, Ok ())"
proof (induction os fgs fresh rule: accept_fresh.induct)
  case (2 os fgs l t fresh)
  then have "accept_forward os l t = Inr (opened l t)"
    by (simp add: accept_forward_def accept_on_def names_itself_def opened_def)
  with 2 show ?case by simp
qed simp

lemma addr_of_retargeted: "map addr_of (retargeted wanted fgs) = map addr_of fgs"
  by (induction fgs) (auto simp: retargeted_def addr_of_def split: option.splits)

lemma accepting_retargeted: "map fg_accepting (retargeted wanted fgs) = map fg_accepting fgs"
  by (induction fgs) (auto simp: retargeted_def split: option.splits)

lemma retained_eq:
  "retained wanted fgs = filter (\<lambda>fg. addr_of fg \<in> f_listen ` set wanted) fgs"
  using forwards_target_of_None [of wanted]
  by (simp add: retained_def addr_of_def)

lemma map_filter_addr: "map addr_of (filter (\<lambda>fg. P (addr_of fg)) fgs) = filter P (map addr_of fgs)"
  by (induction fgs) auto

lemma kept_forward:
  "fg \<in> set (retargeted wanted (retained wanted fgs)) \<Longrightarrow> wf_forwards wanted \<Longrightarrow>
     forwarding_forward fg \<in> set wanted"
  by (auto simp: retargeted_def retained_def forwarding_forward_def
      dest: forwards_target_of_Some [THEN iffD1, rotated] split: option.splits)

lemma kept_addresses:
  "map addr_of (retargeted wanted (retained wanted fgs)) =
     filter (\<lambda>a. a \<in> f_listen ` set wanted) (map addr_of fgs)"
  by (simp add: addr_of_retargeted retained_eq map_filter_addr [of "\<lambda>a. a \<in> f_listen ` set wanted"])

lemma kept_declared:
  assumes "wf_forwards wanted"
  shows "forwarding_forward ` set (retargeted wanted (retained wanted (bd_forwards b)))
    = {f \<in> set wanted. bound_held b (f_listen f)}" (is "_ ` set ?kept = _")
proof (intro set_eqI iffI)
  fix f assume "f \<in> forwarding_forward ` set ?kept"
  then obtain fg where fg: "fg \<in> set ?kept" "f = forwarding_forward fg" by blast
  then have "addr_of fg \<in> set (map addr_of ?kept)" by simp
  then have "bound_held b (f_listen f)"
    unfolding kept_addresses fg(2) by (auto simp: bound_held_iff)
  with kept_forward [OF fg(1) assms] fg show "f \<in> {f \<in> set wanted. bound_held b (f_listen f)}"
    by simp
next
  fix f assume f: "f \<in> {f \<in> set wanted. bound_held b (f_listen f)}"
  then have "f_listen f \<in> set (map addr_of ?kept)"
    unfolding kept_addresses by (auto simp: bound_held_iff)
  then obtain fg where fg: "fg \<in> set ?kept" "addr_of fg = f_listen f"
    by (metis (no_types, lifting) in_set_conv_nth length_map nth_map)
  with kept_forward [OF fg(1) assms] f have "forwarding_forward fg \<in> set wanted" "f \<in> set wanted"
    "f_listen (forwarding_forward fg) = f_listen f" by simp_all
  with assms have "forwarding_forward fg = f"
    by (simp add: wf_forwards_def distinct_map inj_on_def)
  with fg show "f \<in> forwarding_forward ` set ?kept" by blast
qed

subsection \<open>What the front ends hold is what a rebind reports\<close>

text \<open>The documented behaviour of \<open>local_addr\<close> on a bound listener: it does not fail.\<close>

definition sockets_named :: "os \<Rightarrow> bool" where
  "sockets_named os \<longleftrightarrow> (\<forall>l e. os_local os l \<noteq> Inl e)"

lemma accept_on_Inl: "sockets_named os \<Longrightarrow> accept_on os l \<noteq> Inl e"
  by (cases "os_local os l") (auto simp: accept_on_def sockets_named_def)

lemma accept_fresh_Inl:
  "sockets_named os \<Longrightarrow> snd (accept_fresh os fgs fresh) \<noteq> Inl e"
proof (induction os fgs fresh rule: accept_fresh.induct)
  case (2 os fgs l t fresh)
  then show ?case
    by (cases "accept_on os l") (auto simp: accept_forward_def dest: accept_on_Inl)
qed simp

lemma bound_forwards_wf [wf_intros]: "wf_forwards (bound_forwards b)"
proof -
  have "wf_forwards fs \<Longrightarrow>
      wf_forwards (foldl (\<lambda>fs fg. fst (forwards_push fs (forwarding_forward fg))) fs fgs)" for fs fgs
    by (induction fgs arbitrary: fs) (simp_all add: forwards_push_wf)
  then show ?thesis by (simp add: bound_forwards_def)
qed

lemma bound_rebind_reports:
  assumes "sockets_named os" and "bound_rebind os n b addrs = (n', b', moved)"
  shows "case moved of
      Inl e \<Rightarrow> b' = b
    | Inr now \<Rightarrow> now = bound_listen b' \<and> bd_forwards b' = bd_forwards b"
  using assms(2) accept_on_Inl [OF assms(1)]
  by (auto simp: bound_rebind_def res_bind_def split: prod.splits sum.splits option.splits)

lemma bound_rebind_forwards_reports:
  assumes "sockets_named os" and "bound_rebind_forwards os n b wanted = (n', b', moved)"
  shows "case moved of
      Inl e \<Rightarrow> b' = b
    | Inr now \<Rightarrow> now = bound_forwards b' \<and> bound_listen b' = bound_listen b"
proof (cases "bind_fresh os n b wanted")
  case (Pair k result)
  show ?thesis
  proof (cases result)
    case (Inr fresh)
    obtain fgs r where run: "accept_fresh os (retargeted wanted (retained wanted (bd_forwards b))) fresh
        = (fgs, r)" by fastforce
    moreover from run have "r = Inr ()"
      using accept_fresh_Inl [OF assms(1), of "retargeted wanted (retained wanted (bd_forwards b))" fresh]
      by (cases r) auto
    ultimately show ?thesis
      using assms(2) Pair Inr by (auto simp: bound_rebind_forwards_def bound_listen_def Let_def)
  qed (use assms(2) Pair in \<open>auto simp: bound_rebind_forwards_def\<close>)
qed

subsection \<open>Properties\<close>

lemma rebind_forwards_shape:
  assumes "wf_bound b" and "wf_forwards wanted" and "names_itself os" and "fixed_ports wanted"
    and "bind_fresh os n b wanted = (n', Inr fresh)"
  shows "bound_rebind_forwards os n b wanted =
      (n', b\<lparr> bd_forwards := retargeted wanted (retained wanted (bd_forwards b))
                @ map (\<lambda>(l, t). opened l t) fresh \<rparr>,
       Ok (bound_forwards (b\<lparr> bd_forwards := retargeted wanted (retained wanted (bd_forwards b))
                @ map (\<lambda>(l, t). opened l t) fresh \<rparr>)))"
proof -
  have "list_all (\<lambda>f. sock_port (f_listen f) \<noteq> 0)
      (map (\<lambda>(l, t). \<lparr> f_listen = ln_requested l, f_target = t \<rparr>) fresh)"
    unfolding bind_fresh_Ok [OF assms(5)] using assms(4) by (simp add: fixed_ports_def list_all_iff)
  then have "list_all (\<lambda>(l, t). sock_port (ln_requested l) \<noteq> 0) fresh"
    by (auto simp: list_all_iff)
  then show ?thesis
    by (simp add: bound_rebind_forwards_def assms(5) accept_fresh_Ok [OF assms(3)] Let_def)
qed

lemma fresh_addresses:
  assumes "bind_fresh os n b wanted = (n', Inr fresh)"
  shows "map (\<lambda>(l, t). forwarding_forward (opened l t)) fresh
      = filter (\<lambda>f. \<not> bound_held b (f_listen f)) wanted"
  using bind_fresh_Ok [OF assms]
  by (simp add: forwarding_forward_def opened_def case_prod_unfold)

text \<open>An operating system on which every address is free, and a daemon holding one forward.\<close>

definition free_os :: os where
  "free_os = \<lparr> os_bind = (\<lambda>n a. None), os_local = (\<lambda>l. Ok (ln_requested l)) \<rparr>"

definition local_port :: "u16 \<Rightarrow> socket_addr" where
  "local_port p = SA4 (IPv4 127 0 0 1) p"

definition example_bound :: bound where
  "example_bound =
     (let held = (\<lambda>n p. \<lparr> ac_addr = local_port p,
                            ac_listener = \<lparr> ln_attempt = n, ln_requested = local_port p \<rparr> \<rparr>) in
      \<lparr> bd_http = held 0 7890, bd_socks = held 1 7891,
        bd_forwards = [\<lparr> fg_accepting = held 2 19000,
                         fg_target = \<lparr> t_host = ''a.example.com'', t_port = 9000 \<rparr> \<rparr>] \<rparr>)"

definition example_wanted :: forwards where
  "example_wanted =
     [\<lparr> f_listen = local_port 19001, f_target = \<lparr> t_host = ''b.example.com'', t_port = 9001 \<rparr> \<rparr>,
      \<lparr> f_listen = local_port 19000, f_target = \<lparr> t_host = ''c.example.com'', t_port = 9002 \<rparr> \<rparr>]"

lemma names_itself_free [simp]: "names_itself free_os"
  by (simp add: names_itself_def free_os_def)



end
