(* ===== verification/Health.thy ===== *)
theory Health
  imports Proxy
begin

section \<open>Verdicts on the upstreams: \<open>upstream/health.rs\<close>\<close>

text \<open>
  A \<open>HealthHandle\<close> is an \<open>Arc\<close> to a verdict that the state task, the dialer and the patrol
  share, so which handles are the same one matters.  The model keeps the verdicts in a heap and a
  handle is an index into it: a fresh handle is the next index, a clone is the same index.
  A verdict is swapped atomically (\<open>ArcSwap::rcu\<close>), so one observation is one step.
\<close>

datatype verdict_cause = Probe | Dial
datatype switch_cause = CauseDown | CauseHeld | CauseRecovered | CauseReload

record health =
  h_state :: health_state
  h_changed_at :: time

record judged =
  j_upstream :: upstream_addr
  j_health :: health

type_synonym heap = "judged list"
type_synonym handle = nat

text \<open>The two kinds of line the upstream subsystem writes to the log, field by field.\<close>

datatype log_line =
    VerdictLine (vl_upstream: upstream_addr) (vl_from: health_state) (vl_to: health_state)
      (vl_cause: verdict_cause)
  | SwitchLine (sl_from: string) (sl_to: string) (sl_cause: switch_cause)

definition health_default :: "time \<Rightarrow> health" where
  "health_default now = \<lparr> h_state = Down, h_changed_at = now \<rparr>"

definition judging :: "heap \<Rightarrow> upstream_addr \<Rightarrow> time \<Rightarrow> heap \<times> handle" where
  "judging heap upstream now =
     (heap @ [\<lparr> j_upstream = upstream, j_health = health_default now \<rparr>], length heap)"

definition verdict :: "heap \<Rightarrow> handle \<Rightarrow> health" where
  "verdict heap h = j_health (heap ! h)"

definition health_state :: "heap \<Rightarrow> handle \<Rightarrow> health_state" where
  "health_state heap h = h_state (verdict heap h)"

definition changed_at :: "heap \<Rightarrow> handle \<Rightarrow> time" where
  "changed_at heap h = h_changed_at (verdict heap h)"

definition settle :: "heap \<Rightarrow> handle \<Rightarrow> health_state \<Rightarrow> time \<Rightarrow> heap \<times> health" where
  "settle heap h state at =
     (let settled = verdict heap h;
          changed = (case (h_state settled, state) of
                       (Up, Up) \<Rightarrow> h_changed_at settled
                     | (Down, Down) \<Rightarrow> h_changed_at settled
                     | (Up, Down) \<Rightarrow> at
                     | (Down, Up) \<Rightarrow> at)
      in (heap[h := (heap ! h)\<lparr> j_health := \<lparr> h_state = state, h_changed_at = changed \<rparr> \<rparr>],
          settled))"

definition set_at ::
  "heap \<Rightarrow> handle \<Rightarrow> health_state \<Rightarrow> verdict_cause \<Rightarrow> time \<Rightarrow> heap \<times> log_line list" where
  "set_at heap h state cause at =
     (let (heap', previous) = settle heap h state at in
      (heap',
       case (h_state previous, state) of
         (Up, Up) \<Rightarrow> []
       | (Down, Down) \<Rightarrow> []
       | (Up, Down) \<Rightarrow> [VerdictLine (j_upstream (heap ! h)) (h_state previous) state cause]
       | (Down, Up) \<Rightarrow> [VerdictLine (j_upstream (heap ! h)) (h_state previous) state cause]))"

text \<open>\<open>set\<close> is \<open>set_at\<close> stamped with the clock; \<open>seed\<close> settles and writes no line.\<close>

definition health_set ::
  "heap \<Rightarrow> handle \<Rightarrow> health_state \<Rightarrow> verdict_cause \<Rightarrow> time \<Rightarrow> heap \<times> log_line list" where
  "health_set heap h state cause now = set_at heap h state cause now"

definition seed :: "heap \<Rightarrow> handle \<Rightarrow> health_state \<Rightarrow> time \<Rightarrow> heap" where
  "seed heap h state now = fst (settle heap h state now)"

definition same_handle :: "handle \<Rightarrow> handle \<Rightarrow> bool" where
  "same_handle h h' = (h = h')"

subsection \<open>The verdict store\<close>

text \<open>
  What the dialer and the patrol rely on: an observation moves its own verdict and no other, and
  a verdict that is confirmed keeps its instant.
\<close>

definition observe_health :: "health \<Rightarrow> health_state \<Rightarrow> time \<Rightarrow> health" where
  "observe_health v state at =
     \<lparr> h_state = state, h_changed_at = (if h_state v = state then h_changed_at v else at) \<rparr>"

locale verdict_store =
  fixes get :: "'s \<Rightarrow> 'h \<Rightarrow> health"
    and put :: "'s \<Rightarrow> 'h \<Rightarrow> health_state \<Rightarrow> time \<Rightarrow> 's"
    and valid :: "'s \<Rightarrow> 'h \<Rightarrow> bool"
  assumes get_put: "valid s h \<Longrightarrow> get (put s h st at) h = observe_health (get s h) st at"
    and get_put_other: "h \<noteq> k \<Longrightarrow> get (put s h st at) k = get s k"
    and valid_put: "valid (put s h st at) k = valid s k"
begin

lemma confirmed: "valid s h \<Longrightarrow> h_state (get s h) = st \<Longrightarrow> get (put s h st at) h = get s h"
  by (simp add: get_put observe_health_def)

lemma turned: "valid s h \<Longrightarrow> h_state (get s h) \<noteq> st \<Longrightarrow>
    get (put s h st at) h = \<lparr> h_state = st, h_changed_at = at \<rparr>"
  by (simp add: get_put observe_health_def)

lemma put_commute:
  assumes "h \<noteq> k" "valid s h" "valid s k"
  shows "get (put (put s h st at) k st' at') i = get (put (put s k st' at') h st at) i"
  using assms by (cases "i = h"; cases "i = k") (auto simp: get_put get_put_other valid_put)

text \<open>A run of observations on one handle leaves the last state it saw.\<close>

lemma run_state:
  "valid s h \<Longrightarrow> obs \<noteq> [] \<Longrightarrow>
     h_state (get (foldl (\<lambda>s (st, at). put s h st at) s obs) h) = fst (last obs)"
proof (induction obs rule: rev_induct)
  case (snoc o' obs)
  have "valid (foldl (\<lambda>s (st, at). put s h st at) s obs) h"
    using snoc.prems(1) by (induction obs arbitrary: s) (auto simp: valid_put)
  then show ?case by (simp add: get_put observe_health_def split: prod.splits)
qed simp

end

definition heap_put :: "heap \<Rightarrow> handle \<Rightarrow> health_state \<Rightarrow> time \<Rightarrow> heap" where
  "heap_put heap h state at = fst (settle heap h state at)"

definition valid_handle :: "heap \<Rightarrow> handle \<Rightarrow> bool" where
  "valid_handle heap h \<longleftrightarrow> h < length heap"

lemma settle_eq:
  "settle heap h state at =
     (heap[h := (heap ! h)\<lparr> j_health := observe_health (verdict heap h) state at \<rparr>], verdict heap h)"
  by (simp add: settle_def observe_health_def Let_def split: health_state.splits)

interpretation heap: verdict_store verdict heap_put valid_handle
  by unfold_locales
    (auto simp: heap_put_def settle_eq verdict_def valid_handle_def nth_list_update)

lemma set_at_fst [simp]: "fst (set_at heap h state cause at) = heap_put heap h state at"
  by (simp add: set_at_def heap_put_def split: prod.splits)

lemma set_at_lines:
  "snd (set_at heap h state cause at) =
     (if health_state heap h = state then []
      else [VerdictLine (j_upstream (heap ! h)) (health_state heap h) state cause])"
  by (simp add: set_at_def settle_eq health_state_def split: health_state.splits)

lemma health_state_put:
  "valid_handle heap h \<Longrightarrow> health_state (heap_put heap h st at) k =
     (if k = h then st else health_state heap k)"
  by (simp add: health_state_def heap.get_put heap.get_put_other observe_health_def)

lemma length_heap_put [simp]: "length (heap_put heap h st at) = length heap"
  by (simp add: heap_put_def settle_eq)

lemma j_upstream_put: "k < length heap \<Longrightarrow>
    j_upstream (heap_put heap h st at ! k) = j_upstream (heap ! k)"
  by (cases "k = h") (simp_all add: heap_put_def settle_eq)

lemma judging_verdict [simp]:
  "verdict (fst (judging heap u now)) (snd (judging heap u now)) = health_default now"
  by (simp add: judging_def verdict_def)

lemma verdict_append: "h < length heap \<Longrightarrow> verdict (heap @ hs) h = verdict heap h"
  by (simp add: verdict_def nth_append)

subsection \<open>A run of observations\<close>

text \<open>Observations made on one handle, in order, and the lines they leave in the log.\<close>

fun observe_all ::
  "heap \<Rightarrow> handle \<Rightarrow> (health_state \<times> verdict_cause \<times> time) list \<Rightarrow> heap \<times> log_line list" where
  "observe_all heap h [] = (heap, [])"
| "observe_all heap h ((state, cause, at) # obs) =
     (let (heap, lines) = set_at heap h state cause at;
          (heap, more) = observe_all heap h obs
      in (heap, lines @ more))"

text \<open>The state a reader of the verdict lines reconstructs, absent when a line does not follow.\<close>

fun replay :: "health_state \<Rightarrow> log_line list \<Rightarrow> health_state option" where
  "replay s [] = Some s"
| "replay s (VerdictLine u f t c # lines) = (if f = s \<and> t \<noteq> s then replay t lines else None)"
| "replay s (SwitchLine f t c # lines) = None"

lemma replay_append:
  "replay s (xs @ ys) = (case replay s xs of None \<Rightarrow> None | Some t \<Rightarrow> replay t ys)"
  by (induction s xs rule: replay.induct) auto

text \<open>The verdict lines of one upstream are exactly its turnovers: read in order they replay from
  the verdict before the observations to the verdict after them, each line leaving the state the
  one before it entered, and no observation touches the verdict of another upstream.\<close>

theorem verdict_lines_replay:
  assumes "valid_handle heap h"
  shows "replay (health_state heap h) (snd (observe_all heap h obs))
           = Some (health_state (fst (observe_all heap h obs)) h)
    \<and> (\<forall>k. k \<noteq> h \<longrightarrow> verdict (fst (observe_all heap h obs)) k = verdict heap k)"
  using assms
proof (induction obs arbitrary: heap)
  case Nil
  then show ?case by simp
next
  case (Cons o' obs)
  obtain state cause at where o: "o' = (state, cause, at)" by (cases o')
  let ?heap = "heap_put heap h state at"
  obtain heap2 more where run: "observe_all ?heap h obs = (heap2, more)"
    by (cases "observe_all ?heap h obs")
  have valid: "valid_handle ?heap h"
    using Cons.prems by (simp add: valid_handle_def)
  have first: "health_state ?heap h = state"
    using Cons.prems by (simp add: health_state_put)
  have step: "set_at heap h state cause at =
      (?heap, if health_state heap h = state then []
              else [VerdictLine (j_upstream (heap ! h)) (health_state heap h) state cause])"
    by (rule prod_eqI) (simp_all add: set_at_lines)
  show ?case
    using Cons.IH [OF valid] first
    by (auto simp: o step run heap.get_put_other)
qed

theorem verdict_lines_replay_witness:
  "replay Down (snd (observe_all (fst (judging [] ''u'' 0)) 0
       [(Up, Dial, 5), (Up, Probe, 6), (Down, Dial, 9)])) = Some Down
   \<and> length (snd (observe_all (fst (judging [] ''u'' 0)) 0
       [(Up, Dial, 5), (Up, Probe, 6), (Down, Dial, 9)])) = 2"
proof -
  let ?heap = "fst (judging [] ''u'' 0)"
  let ?obs = "[(Up, Dial, 5), (Up, Probe, 6), (Down, Dial, 9)]"
  have valid: "valid_handle ?heap 0" by (simp add: valid_handle_def judging_def)
  have start: "health_state ?heap 0 = Down" by code_simp
  have final: "health_state (fst (observe_all ?heap 0 ?obs)) 0 = Down" by code_simp
  have lines: "length (snd (observe_all ?heap 0 ?obs)) = 2" by code_simp
  from verdict_lines_replay [OF valid, of ?obs] show ?thesis
    unfolding start final using lines by blast
qed

end
