(* ===== verification/Select.thy ===== *)
theory Select
  imports Health
begin

section \<open>Which upstream new connections go through: \<open>upstream/select.rs\<close>\<close>

text \<open>
  The selection is a function of the verdicts, the clock and the return hold.  \<open>select\<close> below is
  the loop of the source; \<open>chosen\<close> is its specification in the three steps the source documents,
  and the hysteresis properties are consequences of it.
\<close>

subsection \<open>The loop\<close>

datatype held = HeldYes | HeldNo

definition RETURN_HOLD :: duration where "RETURN_HOLD = 60000000000"

text \<open>\<open>SystemTime::duration_since\<close>: an error when the instant lies after the clock.\<close>

definition duration_since :: "time \<Rightarrow> time \<Rightarrow> duration option" where
  "duration_since now earlier = (if earlier \<le> now then Some (nat (now - earlier)) else None)"

definition held :: "time \<Rightarrow> time \<Rightarrow> duration \<Rightarrow> held" where
  "held changed now hold =
     (case duration_since now changed of
        None \<Rightarrow> HeldNo
      | Some up_for \<Rightarrow> if hold \<le> up_for then HeldYes else HeldNo)"

fun select_from ::
  "nat \<Rightarrow> (nat \<times> time) option \<Rightarrow> health list \<Rightarrow> time \<Rightarrow> duration \<Rightarrow> nat option" where
  "select_from index longest [] now hold = map_option fst longest"
| "select_from index longest (v # entries) now hold =
     (case h_state v of
        Down \<Rightarrow> select_from (Suc index) longest entries now hold
      | Up \<Rightarrow>
          (case held (h_changed_at v) now hold of
             HeldYes \<Rightarrow> Some index
           | HeldNo \<Rightarrow>
               (case longest of
                  None \<Rightarrow>
                    select_from (Suc index) (Some (index, h_changed_at v)) entries now hold
                | Some (earliest, since) \<Rightarrow>
                    if h_changed_at v < since
                    then select_from (Suc index) (Some (index, h_changed_at v)) entries now hold
                    else select_from (Suc index) longest entries now hold)))"

definition select :: "health list \<Rightarrow> time \<Rightarrow> duration \<Rightarrow> nat option" where
  "select entries now hold = select_from 0 None entries now hold"

subsection \<open>The specification\<close>

definition is_up :: "health \<Rightarrow> bool" where
  "is_up v \<longleftrightarrow> h_state v = Up"

definition up_held :: "time \<Rightarrow> duration \<Rightarrow> health \<Rightarrow> bool" where
  "up_held now hold v \<longleftrightarrow> is_up v \<and> held (h_changed_at v) now hold = HeldYes"

lemma held_iff: "held c now hold = HeldYes \<longleftrightarrow> c + int hold \<le> now"
  by (auto simp: held_def duration_since_def)

lemma up_held_iff: "up_held now hold v \<longleftrightarrow> is_up v \<and> h_changed_at v + int hold \<le> now"
  by (simp add: up_held_def held_iff)

text \<open>
  Entry \<open>i\<close> is chosen when it is the first that is up and held, or, with none held, the one that
  has been up longest, the first of them on a tie.
\<close>

definition longest_up :: "health list \<Rightarrow> nat \<Rightarrow> bool" where
  "longest_up es i \<longleftrightarrow>
     i < length es \<and> is_up (es ! i)
     \<and> (\<forall>j < length es. is_up (es ! j) \<longrightarrow>
          h_changed_at (es ! i) \<le> h_changed_at (es ! j)
          \<and> (j < i \<longrightarrow> h_changed_at (es ! i) < h_changed_at (es ! j)))"

definition chosen :: "health list \<Rightarrow> time \<Rightarrow> duration \<Rightarrow> nat \<Rightarrow> bool" where
  "chosen es now hold i \<longleftrightarrow>
     (i < length es \<and> up_held now hold (es ! i) \<and> (\<forall>j < i. \<not> up_held now hold (es ! j)))
     \<or> ((\<forall>j < length es. \<not> up_held now hold (es ! j)) \<and> longest_up es i)"

lemma select_from_held:
  assumes "\<exists>v \<in> set es. up_held now hold v"
  shows "\<exists>i < length es. select_from n longest es now hold = Some (n + i)
    \<and> up_held now hold (es ! i) \<and> (\<forall>j < i. \<not> up_held now hold (es ! j))"
  using assms
proof (induction es arbitrary: n longest)
  case (Cons v es)
  show ?case
  proof (cases "up_held now hold v")
    case True
    then show ?thesis by (auto simp: up_held_def is_up_def intro!: exI [of _ 0])
  next
    case False
    with Cons.prems have ex: "\<exists>v \<in> set es. up_held now hold v" by simp
    have skip: "\<exists>l. select_from n longest (v # es) now hold = select_from (Suc n) l es now hold"
      using False
      by (cases "h_state v"; cases "held (h_changed_at v) now hold")
        (auto simp: up_held_def is_up_def split: option.splits prod.splits)
    then obtain l where "select_from n longest (v # es) now hold = select_from (Suc n) l es now hold"
      by blast
    with Cons.IH [OF ex, of "Suc n" l] obtain i where i: "i < length es"
      "select_from n longest (v # es) now hold = Some (Suc n + i)"
      "up_held now hold (es ! i)" "\<forall>j < i. \<not> up_held now hold (es ! j)" by auto
    with False show ?thesis
      by (intro exI [of _ "Suc i"]) (auto simp: less_Suc_eq_0_disj)
  qed
qed simp

text \<open>The list as the second step sees it: the candidate found so far, then what is left.\<close>

definition earliest_of :: "nat \<Rightarrow> (nat \<times> time) option \<Rightarrow> health list \<Rightarrow> nat \<Rightarrow> bool" where
  "earliest_of n longest es k \<longleftrightarrow>
     (case longest of
        None \<Rightarrow> \<exists>i. k = n + i \<and> longest_up es i
      | Some (e, c) \<Rightarrow>
          (k = e \<and> (\<forall>j < length es. is_up (es ! j) \<longrightarrow> c \<le> h_changed_at (es ! j)))
          \<or> (\<exists>i. k = n + i \<and> longest_up es i \<and> h_changed_at (es ! i) < c))"

lemma longest_up_Nil [simp]: "\<not> longest_up [] i"
  by (simp add: longest_up_def)

lemma all_less_Suc: "(\<forall>j < Suc n. P j) \<longleftrightarrow> P 0 \<and> (\<forall>j < n. P (Suc j))"
  by (auto simp: less_Suc_eq_0_disj)

lemma longest_up_down: "\<not> is_up v \<Longrightarrow> longest_up (v # es) (Suc i) = longest_up es i"
  by (auto simp: longest_up_def all_less_Suc)

lemma longest_up_head:
  "longest_up (v # es) 0 \<longleftrightarrow>
     is_up v \<and> (\<forall>j < length es. is_up (es ! j) \<longrightarrow> h_changed_at v \<le> h_changed_at (es ! j))"
  by (auto simp: longest_up_def all_less_Suc)

lemma longest_up_tail:
  "longest_up es i \<Longrightarrow> h_changed_at (es ! i) < h_changed_at v \<Longrightarrow> longest_up (v # es) (Suc i)"
  by (auto simp: longest_up_def all_less_Suc)

lemma earliest_skip:
  assumes "\<not> is_up v" and "earliest_of (Suc n) longest es k"
  shows "earliest_of n longest (v # es) k"
proof (cases longest)
  case None
  with assms(2) obtain i where "k = Suc n + i" "longest_up es i" by (auto simp: earliest_of_def)
  with None assms(1) show ?thesis
    by (auto simp: earliest_of_def longest_up_down intro!: exI [of _ "Suc i"])
next
  case (Some ec)
  obtain e c where ec: "ec = (e, c)" by (cases ec)
  from assms(2) consider
      "k = e" "\<forall>j < length es. is_up (es ! j) \<longrightarrow> c \<le> h_changed_at (es ! j)"
    | i where "k = Suc n + i" "longest_up es i" "h_changed_at (es ! i) < c"
    by (auto simp: earliest_of_def Some ec)
  then show ?thesis
  proof cases
    case 1
    with assms(1) show ?thesis by (simp add: earliest_of_def Some ec all_less_Suc)
  next
    case 2
    with assms(1) have "k = n + Suc i \<and> longest_up (v # es) (Suc i) \<and> h_changed_at ((v # es) ! Suc i) < c"
      by (simp add: longest_up_down)
    then show ?thesis unfolding earliest_of_def Some ec by auto
  qed
qed

lemma earliest_keep:
  assumes "c \<le> h_changed_at v" and "earliest_of (Suc n) (Some (e, c)) es k"
  shows "earliest_of n (Some (e, c)) (v # es) k"
proof -
  from assms(2) consider
      "k = e" "\<forall>j < length es. is_up (es ! j) \<longrightarrow> c \<le> h_changed_at (es ! j)"
    | i where "k = Suc n + i" "longest_up es i" "h_changed_at (es ! i) < c"
    by (auto simp: earliest_of_def)
  then show ?thesis
  proof cases
    case 1
    with assms(1) show ?thesis by (simp add: earliest_of_def all_less_Suc)
  next
    case 2
    with assms(1) have "k = n + Suc i \<and> longest_up (v # es) (Suc i) \<and> h_changed_at ((v # es) ! Suc i) < c"
      by (auto intro: longest_up_tail)
    then show ?thesis unfolding earliest_of_def by auto
  qed
qed

lemma earliest_take:
  assumes "is_up v" and "case longest of None \<Rightarrow> True | Some (e, c) \<Rightarrow> h_changed_at v < c"
    and "earliest_of (Suc n) (Some (n, h_changed_at v)) es k"
  shows "earliest_of n longest (v # es) k"
proof -
  from assms(1,3) consider
      "k = n" "longest_up (v # es) 0"
    | i where "k = n + Suc i" "longest_up (v # es) (Suc i)" "h_changed_at (es ! i) < h_changed_at v"
    by (auto simp: earliest_of_def longest_up_head intro: longest_up_tail)
  then obtain i where "k = n + i" "longest_up (v # es) i" "h_changed_at ((v # es) ! i) \<le> h_changed_at v"
    by cases (auto intro: that [of 0] that [of "Suc _"])
  with assms(2) show ?thesis
    by (cases longest) (auto simp: earliest_of_def)
qed

lemma select_from_longest:
  assumes "\<forall>v \<in> set es. \<not> up_held now hold v" and "longest \<noteq> None \<or> (\<exists>v \<in> set es. is_up v)"
  shows "\<exists>k. select_from n longest es now hold = Some k \<and> earliest_of n longest es k"
  using assms
proof (induction es arbitrary: n longest)
  case Nil
  then show ?case by (auto simp: earliest_of_def)
next
  case (Cons v es)
  from Cons.prems(1) have rest: "\<forall>v \<in> set es. \<not> up_held now hold v" by simp
  show ?case
  proof (cases "is_up v")
    case False
    then have "h_state v = Down" by (cases "h_state v") (auto simp: is_up_def)
    then have step: "select_from n longest (v # es) now hold = select_from (Suc n) longest es now hold"
      by simp
    from False Cons.prems(2) have "longest \<noteq> None \<or> (\<exists>v \<in> set es. is_up v)" by auto
    from Cons.IH [OF rest this, of "Suc n"] earliest_skip [OF False] show ?thesis
      unfolding step by blast
  next
    case True
    with Cons.prems(1) have up: "h_state v = Up" "held (h_changed_at v) now hold = HeldNo"
      by (auto simp: up_held_def is_up_def intro: held.exhaust)
    show ?thesis
    proof (cases "case longest of None \<Rightarrow> True | Some (e, c) \<Rightarrow> h_changed_at v < c")
      case earlier: True
      then have step: "select_from n longest (v # es) now hold
          = select_from (Suc n) (Some (n, h_changed_at v)) es now hold"
        using up by (auto split: option.splits)
      have "Some (n, h_changed_at v) \<noteq> None \<or> (\<exists>v \<in> set es. is_up v)" by simp
      from Cons.IH [OF rest this, of "Suc n"] earliest_take [OF True earlier] show ?thesis
        unfolding step by blast
    next
      case False
      then obtain e c where l: "longest = Some (e, c)" and c: "c \<le> h_changed_at v"
        by (auto split: option.splits)
      then have step: "select_from n longest (v # es) now hold = select_from (Suc n) longest es now hold"
        using up by auto
      have "longest \<noteq> None \<or> (\<exists>v \<in> set es. is_up v)" by (simp add: l)
      from Cons.IH [OF rest this, of "Suc n"] earliest_keep [OF c] show ?thesis
        unfolding step unfolding l by blast
    qed
  qed
qed

lemma select_from_None:
  "\<forall>v \<in> set es. \<not> is_up v \<Longrightarrow> select_from n None es now hold = None"
proof (induction es arbitrary: n)
  case (Cons v es)
  then have "h_state v = Down" by (cases "h_state v") (auto simp: is_up_def)
  with Cons show ?case by simp
qed simp

lemma longest_up_unique: "longest_up es i \<Longrightarrow> longest_up es j \<Longrightarrow> i = j"
  unfolding longest_up_def by (meson leD linorder_neqE_nat)

lemma chosen_unique: "chosen es now hold i \<Longrightarrow> chosen es now hold j \<Longrightarrow> i = j"
  unfolding chosen_def by (metis linorder_neqE_nat longest_up_unique)

lemma select_chosen_ex:
  assumes "\<exists>v \<in> set es. is_up v"
  shows "\<exists>i. select es now hold = Some i \<and> chosen es now hold i"
proof (cases "\<exists>v \<in> set es. up_held now hold v")
  case True
  from select_from_held [OF True, of 0 None] show ?thesis
    by (auto simp: select_def chosen_def)
next
  case False
  then have none: "\<forall>v \<in> set es. \<not> up_held now hold v" by simp
  from select_from_longest [OF none, of None 0] assms
  obtain k where "select es now hold = Some k" "longest_up es k"
    by (auto simp: select_def earliest_of_def)
  with none show ?thesis by (auto simp: chosen_def)
qed

lemma chosen_up: "chosen es now hold i \<Longrightarrow> i < length es \<and> is_up (es ! i)"
  by (auto simp: chosen_def longest_up_def up_held_def)

lemma select_None_iff: "select es now hold = None \<longleftrightarrow> (\<forall>v \<in> set es. \<not> is_up v)"
proof
  assume "select es now hold = None"
  with select_chosen_ex [of es now hold] show "\<forall>v \<in> set es. \<not> is_up v" by auto
next
  assume "\<forall>v \<in> set es. \<not> is_up v"
  then show "select es now hold = None" by (simp add: select_def select_from_None)
qed

lemma select_Some_iff: "select es now hold = Some i \<longleftrightarrow> chosen es now hold i"
proof
  assume sel: "select es now hold = Some i"
  then have "\<exists>v \<in> set es. is_up v" using select_None_iff [of es now hold] by auto
  then obtain j where "select es now hold = Some j" "chosen es now hold j"
    using select_chosen_ex by blast
  with sel show "chosen es now hold i" by simp
next
  assume c: "chosen es now hold i"
  then have "\<exists>v \<in> set es. is_up v" using chosen_up [OF c] by (meson nth_mem)
  then obtain j where "select es now hold = Some j" "chosen es now hold j"
    using select_chosen_ex by blast
  with c chosen_unique show "select es now hold = Some i" by blast
qed

subsection \<open>Properties\<close>

text \<open>C12: the selection loop implements its three documented steps.  It returns the first entry that
  is up and has been for the whole hold; with none held, the entry that has been up longest, ties
  going to list order; and nothing exactly when no entry is up.\<close>

theorem select_specification:
  "(select es now hold = Some i \<longleftrightarrow> chosen es now hold i)
   \<and> (select es now hold = None \<longleftrightarrow> list_all (\<lambda>v. h_state v = Down) es)"
proof -
  have "\<not> is_up v \<longleftrightarrow> h_state v = Down" for v by (cases "h_state v") (auto simp: is_up_def)
  then show ?thesis by (simp add: select_Some_iff select_None_iff list_all_iff)
qed

text \<open>C27: the hysteresis.  While the clock does not move back, a selected entry whose verdict holds
  is never displaced by a lower-ranked one: if every other entry is either unchanged or settled at
  or after the instant of the selection, the next selection is that entry or one ranked before it.\<close>

theorem selected_not_displaced:
  assumes sel: "select es now hold = Some i"
    and settled: "h_changed_at (es ! i) \<le> now"
    and clock: "now \<le> now'"
    and len: "length es' = length es"
    and kept: "es' ! i = es ! i"
    and others: "\<forall>j < length es. es' ! j = es ! j \<or> now \<le> h_changed_at (es' ! j)"
  shows "\<exists>j \<le> i. select es' now' hold = Some j"
proof -
  let ?c = "h_changed_at (es ! i)"
  from sel have ch: "chosen es now hold i" by (simp add: select_Some_iff)
  from chosen_up [OF ch] have i: "i < length es" "is_up (es ! i)" by auto
  with kept len have "\<exists>v \<in> set es'. is_up v" by (metis nth_mem)
  then obtain j where j: "select es' now' hold = Some j" "chosen es' now' hold j"
    using select_chosen_ex by blast
  from chosen_up [OF j(2)] len have jl: "j < length es" "is_up (es' ! j)" by auto
  have "j \<le> i"
  proof (rule ccontr)
    assume "\<not> j \<le> i"
    then have ij: "i < j" by simp
    show False
    proof (cases "up_held now' hold (es ! i)")
      case True
      with ij kept i len j(2) show False by (auto simp: chosen_def)
    next
      case False
      with clock i have "\<not> up_held now hold (es ! i)" by (auto simp: up_held_iff)
      with ch have longest: "longest_up es i" by (auto simp: chosen_def)
      have later: "?c \<le> h_changed_at (es' ! j)"
      proof (cases "es' ! j = es ! j")
        case True
        with longest jl show ?thesis by (auto simp: longest_up_def)
      next
        case False
        with others jl settled show ?thesis by fastforce
      qed
      from False have "\<not> up_held now' hold (es' ! j)"
        using later i by (auto simp: up_held_iff)
      with j(2) have "longest_up es' j" by (auto simp: chosen_def)
      with ij i kept len have "h_changed_at (es' ! j) < h_changed_at (es' ! i)"
        unfolding longest_up_def by metis
      with kept have "h_changed_at (es' ! j) < ?c" by simp
      with later show False by simp
    qed
  qed
  with j(1) show ?thesis by blast
qed

theorem selected_not_displaced_witness:
  "\<exists>j \<le> 1. select [\<lparr> h_state = Up, h_changed_at = 12 \<rparr>, \<lparr> h_state = Up, h_changed_at = 5 \<rparr>]
     20 60 = Some j"
proof -
  let ?es = "[\<lparr> h_state = Down, h_changed_at = 0 \<rparr>, \<lparr> h_state = Up, h_changed_at = 5 \<rparr>]"
  let ?es' = "[\<lparr> h_state = Up, h_changed_at = 12 \<rparr>, \<lparr> h_state = Up, h_changed_at = 5 \<rparr>]"
  have sel: "select ?es 10 60 = Some 1" by code_simp
  show ?thesis
    by (rule selected_not_displaced [OF sel]) (auto simp: all_less_Suc)
qed

text \<open>Traffic returns to a higher-ranked entry only after the hold.  When the selection falls on an
  entry ranked before one that is up and came up earlier, that entry has been up for the whole hold,
  so an entry that flaps faster than the hold never wins traffic back.\<close>

theorem return_needs_hold:
  assumes "select es now hold = Some j" and "j < k" and "k < length es"
    and "h_state (es ! k) = Up" and "h_changed_at (es ! k) < h_changed_at (es ! j)"
  shows "h_state (es ! j) = Up \<and> h_changed_at (es ! j) + int hold \<le> now"
proof -
  from assms(1) have ch: "chosen es now hold j" by (simp add: select_Some_iff)
  have "\<not> longest_up es j"
    using assms(3-5) by (auto simp: longest_up_def is_up_def)
  with ch have "up_held now hold (es ! j)" by (auto simp: chosen_def)
  then show ?thesis by (simp add: up_held_iff is_up_def)
qed

theorem return_needs_hold_witness:
  "select [\<lparr> h_state = Up, h_changed_at = 10 \<rparr>, \<lparr> h_state = Up, h_changed_at = 0 \<rparr>] 70 60 = Some 0
   \<and> (10 :: int) + int 60 \<le> 70"
proof -
  let ?es = "[\<lparr> h_state = Up, h_changed_at = 10 \<rparr>, \<lparr> h_state = Up, h_changed_at = 0 \<rparr>]"
  have sel: "select ?es 70 60 = Some 0" by code_simp
  from return_needs_hold [OF sel, of 1] have "(10 :: int) + int 60 \<le> 70" by simp
  with sel show ?thesis by simp
qed

end
