(* ===== verification/Entries.thy ===== *)
theory Entries
  imports Select
begin

section \<open>The published upstream list: \<open>upstream/entries.rs\<close> and its publication\<close>

text \<open>
  The list new connections are handed to, each address judged by its own verdict, and the cell it
  is published in (\<open>LiveUpstream\<close> of \<open>daemon/state.rs\<close>).  A published list is shared behind an
  \<open>Arc\<close>, and whether two lists are the same one is a pointer comparison, so a list carries the
  identity of its allocation.
\<close>

record 'a arc =
  arc_ptr :: nat
  arc_val :: 'a

definition ptr_eq :: "'a arc \<Rightarrow> 'b arc \<Rightarrow> bool" where
  "ptr_eq a b \<longleftrightarrow> arc_ptr a = arc_ptr b"

record upstream_entry =
  ue_upstream :: upstream
  ue_health :: handle

subsection \<open>Publications\<close>

text \<open>How many lists were published before this one; the source derives its order.\<close>

datatype publication = Publication nat

instantiation publication :: linorder
begin

fun less_eq_publication :: "publication \<Rightarrow> publication \<Rightarrow> bool" where
  "less_eq_publication (Publication a) (Publication b) = (a \<le> b)"

fun less_publication :: "publication \<Rightarrow> publication \<Rightarrow> bool" where
  "less_publication (Publication a) (Publication b) = (a < b)"

instance
proof
  fix x y z :: publication
  show "(x < y) = (x \<le> y \<and> \<not> y \<le> x)" by (cases x; cases y) auto
  show "x \<le> x" by (cases x) simp
  show "x \<le> y \<Longrightarrow> y \<le> z \<Longrightarrow> x \<le> z" by (cases x; cases y; cases z) simp
  show "x \<le> y \<Longrightarrow> y \<le> x \<Longrightarrow> x = y" by (cases x; cases y) simp
  show "x \<le> y \<or> y \<le> x" by (cases x; cases y) auto
qed

end

record upstream_entries =
  ues_entries :: "upstream_entry list"
  ues_publication :: publication

definition upstream_entries_default :: upstream_entries where
  "upstream_entries_default = \<lparr> ues_entries = [], ues_publication = Publication 0 \<rparr>"

subsection \<open>Adopting a new list\<close>

text \<open>The handle a kept list judges a socket address by: the first entry that dials it.\<close>

fun judged_by :: "upstream_entry list \<Rightarrow> socket_addr \<Rightarrow> handle option" where
  "judged_by [] addr = None"
| "judged_by (e # kept) addr =
     (if socket (ue_upstream e) = addr then Some (ue_health e) else judged_by kept addr)"

text \<open>
  The loop of \<open>adopted\<close>; the clock gives the instant each fresh verdict is created at, by the
  position of its entry.
\<close>

fun adopt_from ::
  "heap \<Rightarrow> upstream_entry list \<Rightarrow> (nat \<Rightarrow> time) \<Rightarrow> nat \<Rightarrow> upstream list
     \<Rightarrow> heap \<times> upstream_entry list" where
  "adopt_from heap kept clock k [] = (heap, [])"
| "adopt_from heap kept clock k (u # next) =
     (let (heap, h) =
            (case judged_by kept (socket u) of
               Some h \<Rightarrow> (heap, h)
             | None \<Rightarrow> judging heap (written u) (clock k));
          (heap, entries) = adopt_from heap kept clock (Suc k) next
      in (heap, \<lparr> ue_upstream = u, ue_health = h \<rparr> # entries))"

fun publication_next :: "publication \<Rightarrow> publication" where
  "publication_next (Publication published) = Publication (sat_add64 published 1)"

definition adopted ::
  "heap \<Rightarrow> upstream_entries \<Rightarrow> (nat \<Rightarrow> time) \<Rightarrow> upstream list \<Rightarrow> heap \<times> upstream_entries" where
  "adopted heap self clock next =
     (let (heap, entries) = adopt_from heap (ues_entries self) clock 0 next in
      (heap, \<lparr> ues_entries = entries,
               ues_publication = publication_next (ues_publication self) \<rparr>))"

definition published_before :: "upstream_entries \<Rightarrow> upstream_entries \<Rightarrow> bool" where
  "published_before self other \<longleftrightarrow> ues_publication self < ues_publication other"

subsection \<open>Reading a list\<close>

definition nth_opt :: "'a list \<Rightarrow> nat \<Rightarrow> 'a option" where
  "nth_opt xs i = (if i < length xs then Some (xs ! i) else None)"

definition entries_first :: "upstream_entries \<Rightarrow> upstream_entry option" where
  "entries_first es = nth_opt (ues_entries es) 0"

definition entries_at :: "upstream_entries \<Rightarrow> nat option \<Rightarrow> upstream_entry option" where
  "entries_at es selected = Option.bind selected (nth_opt (ues_entries es))"

definition entries_required :: "upstream_entries \<Rightarrow> nat option \<Rightarrow> upstream_entry option" where
  "entries_required es selected =
     (case entries_at es selected of None \<Rightarrow> entries_first es | Some entry \<Rightarrow> Some entry)"

definition verdicts_of :: "heap \<Rightarrow> upstream_entries \<Rightarrow> health list" where
  "verdicts_of heap es = map (\<lambda>e. verdict heap (ue_health e)) (ues_entries es)"

definition entries_selected ::
  "heap \<Rightarrow> upstream_entries \<Rightarrow> time \<Rightarrow> duration \<Rightarrow> nat option" where
  "entries_selected heap es now hold = select (verdicts_of heap es) now hold"

lemma nth_opt_Some: "nth_opt xs i = Some x \<longleftrightarrow> i < length xs \<and> x = xs ! i"
  by (auto simp: nth_opt_def)

lemma nth_opt_None: "nth_opt xs i = None \<longleftrightarrow> length xs \<le> i"
  by (auto simp: nth_opt_def)

subsection \<open>The live publication\<close>

text \<open>\<open>LiveUpstream\<close>: the snapshot is the published list itself, shared.\<close>

definition live_upstream_snapshot :: "upstream_entries arc \<Rightarrow> upstream_entries arc" where
  "live_upstream_snapshot live = live"

definition live_upstream_publish ::
  "heap \<Rightarrow> upstream_entries arc \<Rightarrow> (nat \<Rightarrow> time) \<Rightarrow> nat \<Rightarrow> upstream list
     \<Rightarrow> heap \<times> upstream_entries arc" where
  "live_upstream_publish heap live clock fresh_ptr upstreams =
     (let (heap, entries) = adopted heap (arc_val live) clock upstreams in
      (heap, \<lparr> arc_ptr = fresh_ptr, arc_val = entries \<rparr>))"

subsection \<open>The invariant of a list\<close>

text \<open>Every address once, every handle allocated, and no two addresses judged by one verdict.\<close>

definition wf_entries :: "heap \<Rightarrow> upstream_entry list \<Rightarrow> bool" where
  "wf_entries heap es \<longleftrightarrow>
     distinct (map (\<lambda>e. socket (ue_upstream e)) es) \<and> distinct (map ue_health es)
     \<and> list_all (\<lambda>e. ue_health e < length heap) es"

lemma wf_entries_Nil [simp, wf_intros]: "wf_entries heap []"
  by (simp add: wf_entries_def)

lemma wf_entries_mono: "wf_entries heap es \<Longrightarrow> length heap \<le> length heap' \<Longrightarrow> wf_entries heap' es"
  by (auto simp: wf_entries_def list_all_iff)

lemma judged_by_Some:
  "judged_by kept addr = Some h \<Longrightarrow> \<exists>e \<in> set kept. ue_health e = h \<and> socket (ue_upstream e) = addr"
  by (induction kept) (auto split: if_splits)

lemma judged_by_None: "judged_by kept addr = None \<longleftrightarrow> addr \<notin> (\<lambda>e. socket (ue_upstream e)) ` set kept"
  by (induction kept) auto

lemma judged_by_inj:
  assumes "distinct (map ue_health kept)"
    and "judged_by kept a = Some h" and "judged_by kept b = Some h"
  shows "a = b"
proof -
  obtain e f where "e \<in> set kept" "f \<in> set kept" "ue_health e = h" "ue_health f = h"
    "socket (ue_upstream e) = a" "socket (ue_upstream f) = b"
    using judged_by_Some assms(2,3) by metis
  with assms(1) show ?thesis by (metis distinct_map inj_onD)
qed

text \<open>What the loop of \<open>adopted\<close> keeps and what it makes.\<close>

lemma adopt_from_upstreams:
  "adopt_from heap kept clock k us = (heap', es) \<Longrightarrow> map ue_upstream es = us"
  by (induction heap kept clock k us arbitrary: heap' es rule: adopt_from.induct)
    (auto simp: Let_def split: prod.splits)

lemma adopt_from_heap:
  "adopt_from heap kept clock k us = (heap', es) \<Longrightarrow> \<exists>new. heap' = heap @ new"
proof (induction heap kept clock k us arbitrary: heap' es rule: adopt_from.induct)
  case (2 heap kept clock k u us)
  then show ?case
    by (cases "judged_by kept (socket u)") (fastforce simp: Let_def judging_def split: prod.splits)+
qed simp

lemma adopt_from_handles:
  "adopt_from heap kept clock k us = (heap', es) \<Longrightarrow> e \<in> set es \<Longrightarrow>
     (case judged_by kept (socket (ue_upstream e)) of
        Some h \<Rightarrow> ue_health e = h
      | None \<Rightarrow> length heap \<le> ue_health e \<and> ue_health e < length heap'
          \<and> health_state heap' (ue_health e) = Down
          \<and> j_upstream (heap' ! ue_health e) = written (ue_upstream e))"
proof (induction heap kept clock k us arbitrary: heap' es rule: adopt_from.induct)
  case (2 heap kept clock k u us)
  show ?case
  proof (cases "judged_by kept (socket u)")
    case (Some h)
    with 2 show ?thesis by (auto simp: Let_def split: prod.splits)
  next
    case None
    let ?new = "\<lparr> j_upstream = written u, j_health = health_default (clock k) \<rparr>"
    obtain heap2 rest where run: "adopt_from (heap @ [?new]) kept clock (Suc k) us = (heap2, rest)"
      by (cases "adopt_from (heap @ [?new]) kept clock (Suc k) us")
    from None run "2.prems"(1) have h': "heap' = heap2"
      and es: "es = \<lparr> ue_upstream = u, ue_health = length heap \<rparr> # rest"
      by (auto simp: judging_def)
    from adopt_from_heap [OF run] obtain more where heap2: "heap2 = heap @ ?new # more" by auto
    show ?thesis
    proof (cases "e = \<lparr> ue_upstream = u, ue_health = length heap \<rparr>")
      case True
      with None show ?thesis
        by (simp add: h' heap2 nth_append health_state_def verdict_def health_default_def)
    next
      case False
      with "2.prems"(2) es have "e \<in> set rest" by simp
      with "2.IH" [OF refl _ run, of "length heap"] None show ?thesis
        by (fastforce simp: judging_def h' split: option.splits)
    qed
  qed
qed simp

lemma adopt_from_distinct:
  assumes "adopt_from heap kept clock k us = (heap', es)"
    and "distinct (map socket us)" and "wf_entries heap kept"
  shows "distinct (map ue_health es)"
  using assms
proof (induction heap kept clock k us arbitrary: heap' es rule: adopt_from.induct)
  case (2 heap kept clock k u us)
  from "2.prems"(3) have kept: "distinct (map ue_health kept)"
    "\<forall>e \<in> set kept. ue_health e < length heap"
    by (auto simp: wf_entries_def list_all_iff)
  define ph where "ph = (case judged_by kept (socket u) of
      Some h \<Rightarrow> (heap, h) | None \<Rightarrow> judging heap (written u) (clock k))"
  obtain heap1 h where ph': "ph = (heap1, h)" by (cases ph)
  obtain heap2 rest where run: "adopt_from heap1 kept clock (Suc k) us = (heap2, rest)"
    by (cases "adopt_from heap1 kept clock (Suc k) us")
  from "2.prems"(1) have es: "es = \<lparr> ue_upstream = u, ue_health = h \<rparr> # rest"
    by (simp add: ph_def [symmetric] ph' run)
  have len: "length heap \<le> length heap1"
    using ph' by (auto simp: ph_def judging_def split: option.splits)
  have wf: "wf_entries heap1 kept" using "2.prems"(3) len by (rule wf_entries_mono)
  have rest: "distinct (map ue_health rest)"
    using "2.IH" [OF ph_def ph' [symmetric] run _ wf] "2.prems"(2) by simp
  have "h \<notin> ue_health ` set rest"
  proof
    assume "h \<in> ue_health ` set rest"
    then obtain e where e: "e \<in> set rest" "ue_health e = h" by auto
    have sock: "socket (ue_upstream e) \<in> set (map socket us)"
      using adopt_from_upstreams [OF run] e(1) by auto
    note he = adopt_from_handles [OF run e(1)]
    show False
    proof (cases "judged_by kept (socket u)")
      case (Some h0)
      then have h0: "h = h0" "heap1 = heap" using ph' by (auto simp: ph_def)
      then have "h < length heap" using judged_by_Some [OF Some] kept(2) by auto
      with he e(2) h0 have "judged_by kept (socket (ue_upstream e)) = Some h"
        by (auto split: option.splits)
      with Some h0 kept(1) have "socket (ue_upstream e) = socket u"
        by (auto intro: judged_by_inj)
      with sock "2.prems"(2) show False by auto
    next
      case None
      then have h: "h = length heap" "length heap1 = Suc (length heap)"
        using ph' by (auto simp: ph_def judging_def)
      show False
      proof (cases "judged_by kept (socket (ue_upstream e))")
        case (Some h1)
        with he e(2) h judged_by_Some [OF Some] kept(2) show False by auto
      next
        case None
        with he e(2) h show False by auto
      qed
    qed
  qed
  with rest show ?case by (simp add: es)
qed simp

lemma adopt_from_bounded:
  assumes "adopt_from heap kept clock k us = (heap', es)" and "wf_entries heap kept" and "e \<in> set es"
  shows "ue_health e < length heap'"
proof (cases "judged_by kept (socket (ue_upstream e))")
  case None
  with adopt_from_handles [OF assms(1,3)] show ?thesis by simp
next
  case (Some h)
  with adopt_from_handles [OF assms(1,3)] have "ue_health e = h" by simp
  with judged_by_Some [OF Some] assms(2) have "ue_health e < length heap"
    by (auto simp: wf_entries_def list_all_iff)
  with adopt_from_heap [OF assms(1)] show ?thesis by auto
qed

lemma adopted_wf [wf_intros]:
  assumes "wf_entries heap (ues_entries es)" and "wf_upstreams us"
    and "adopted heap es clock us = (heap', es')"
  shows "wf_entries heap' (ues_entries es')"
proof -
  obtain entries where run: "adopt_from heap (ues_entries es) clock 0 us = (heap', entries)"
    and es': "ues_entries es' = entries"
    using assms(3) by (auto simp: adopted_def split: prod.splits)
  have "map (\<lambda>e. socket (ue_upstream e)) entries = map socket us"
    using adopt_from_upstreams [OF run] by (auto simp: comp_def)
  with assms(2) have "distinct (map (\<lambda>e. socket (ue_upstream e)) entries)"
    by (simp add: wf_upstreams_def)
  moreover have "distinct (map ue_health entries)"
    using adopt_from_distinct [OF run] assms(1,2) by (simp add: wf_upstreams_def)
  moreover have "list_all (\<lambda>e. ue_health e < length heap') entries"
    using adopt_from_bounded [OF run assms(1)] by (simp add: list_all_iff)
  ultimately show ?thesis by (simp add: wf_entries_def es')
qed

lemma adopted_run:
  assumes "adopted heap es clock us = (heap', es')"
  shows "adopt_from heap (ues_entries es) clock 0 us = (heap', ues_entries es')"
    and "ues_publication es' = publication_next (ues_publication es)"
  using assms by (auto simp: adopted_def split: prod.splits)

lemma adopted_verdict:
  assumes "adopted heap es clock us = (heap', es')" and "h < length heap"
  shows "verdict heap' h = verdict heap h"
  using adopt_from_heap [OF adopted_run(1) [OF assms(1)]] assms(2) by (auto simp: verdict_append)

subsection \<open>Properties\<close>

text \<open>C26: publishing a list keeps the operator's order and addresses, lets every address the list in
  force already judges keep its verdict - the same handle, at the same state and instant - and gives
  every other address a verdict of its own that starts down, while no verdict already held by
  anybody changes and no two entries share one.\<close>

theorem adopted_outcome:
  assumes "wf_entries heap (ues_entries es)" and "wf_upstreams us"
    and "adopted heap es clock us = (heap', es')"
  shows "wf_entries heap' (ues_entries es') \<and> map ue_upstream (ues_entries es') = us
    \<and> (\<forall>h < length heap. verdict heap' h = verdict heap h)
    \<and> (\<forall>e \<in> set (ues_entries es').
         case judged_by (ues_entries es) (socket (ue_upstream e)) of
           Some h \<Rightarrow> ue_health e = h
         | None \<Rightarrow> length heap \<le> ue_health e \<and> health_state heap' (ue_health e) = Down)"
proof (intro conjI ballI)
  show "wf_entries heap' (ues_entries es')" by (rule adopted_wf [OF assms])
  show "map ue_upstream (ues_entries es') = us"
    by (rule adopt_from_upstreams [OF adopted_run(1) [OF assms(3)]])
  show "\<forall>h < length heap. verdict heap' h = verdict heap h"
    using adopted_verdict [OF assms(3)] by blast
  fix e assume "e \<in> set (ues_entries es')"
  then show "case judged_by (ues_entries es) (socket (ue_upstream e)) of
      Some h \<Rightarrow> ue_health e = h
    | None \<Rightarrow> length heap \<le> ue_health e \<and> health_state heap' (ue_health e) = Down"
    using adopt_from_handles [OF adopted_run(1) [OF assms(3)], of e] by (auto split: option.splits)
qed

text \<open>Two upstreams for the examples, and the first list published from them.\<close>

definition example_upstream :: "u8 \<Rightarrow> upstream" where
  "example_upstream n =
     \<lparr> written = ''socks5://192.0.2.'' @ show_u8 n @ '':1080'',
       socket = SA4 (IPv4 192 0 2 n) 1080 \<rparr>"

theorem adopted_outcome_witness:
  "ues_entries (snd (adopted
       [\<lparr> j_upstream = ''a'', j_health = \<lparr> h_state = Up, h_changed_at = 7 \<rparr> \<rparr>]
       \<lparr> ues_entries = [\<lparr> ue_upstream = example_upstream 10, ue_health = 0 \<rparr>],
         ues_publication = Publication 1 \<rparr>
       (\<lambda>_. 9) [example_upstream 11, example_upstream 10]))
     = [\<lparr> ue_upstream = example_upstream 11, ue_health = 1 \<rparr>,
        \<lparr> ue_upstream = example_upstream 10, ue_health = 0 \<rparr>]
   \<and> wf_entries (fst (adopted
       [\<lparr> j_upstream = ''a'', j_health = \<lparr> h_state = Up, h_changed_at = 7 \<rparr> \<rparr>]
       \<lparr> ues_entries = [\<lparr> ue_upstream = example_upstream 10, ue_health = 0 \<rparr>],
         ues_publication = Publication 1 \<rparr>
       (\<lambda>_. 9) [example_upstream 11, example_upstream 10]))
      [\<lparr> ue_upstream = example_upstream 11, ue_health = 1 \<rparr>,
       \<lparr> ue_upstream = example_upstream 10, ue_health = 0 \<rparr>]"
proof -
  let ?heap = "[\<lparr> j_upstream = ''a'', j_health = \<lparr> h_state = Up, h_changed_at = 7 \<rparr> \<rparr>]"
  let ?es = "\<lparr> ues_entries = [\<lparr> ue_upstream = example_upstream 10, ue_health = 0 \<rparr>],
      ues_publication = Publication 1 \<rparr>"
  let ?us = "[example_upstream 11, example_upstream 10]"
  let ?new = "[\<lparr> ue_upstream = example_upstream 11, ue_health = 1 \<rparr>,
      \<lparr> ue_upstream = example_upstream 10, ue_health = 0 \<rparr>]"
  have wf: "wf_entries ?heap (ues_entries ?es)" by (simp add: wf_entries_def)
  have us: "wf_upstreams ?us" by (simp add: wf_upstreams_def example_upstream_def)
  obtain heap' es' where run: "adopted ?heap ?es (\<lambda>_. 9) ?us = (heap', es')"
    by (cases "adopted ?heap ?es (\<lambda>_. 9) ?us")
  then have "ues_entries es' = ?new"
    by (auto simp: adopted_def judging_def example_upstream_def)
  with adopted_outcome [OF wf us run] run show ?thesis by simp
qed

text \<open>An address removed and later added back is judged afresh.  After a list without the address
  and whatever verdict writes come in between, the address comes back down under a verdict that no
  dial or probe holding an earlier handle can reach.\<close>

theorem readded_address_is_fresh:
  assumes "wf_entries heap (ues_entries es)"
    and "adopted heap es clock us = (heap1, es1)" and "addr \<notin> socket ` set us"
    and "length heap1' = length heap1"
    and "adopted heap1' es1 clock' us' = (heap2, es2)"
    and "e \<in> set (ues_entries es2)" and "socket (ue_upstream e) = addr"
    and "h < length heap"
  shows "health_state heap2 (ue_health e) = Down
    \<and> verdict (heap_put heap2 h st at) (ue_health e) = verdict heap2 (ue_health e)"
proof -
  have "addr \<notin> (\<lambda>e. socket (ue_upstream e)) ` set (ues_entries es1)"
    using adopt_from_upstreams [OF adopted_run(1) [OF assms(2)]] assms(3) by auto
  then have "judged_by (ues_entries es1) (socket (ue_upstream e)) = None"
    by (simp add: judged_by_None assms(7))
  with adopt_from_handles [OF adopted_run(1) [OF assms(5)] assms(6)]
  have fresh: "length heap1' \<le> ue_health e" "health_state heap2 (ue_health e) = Down" by auto
  have "length heap \<le> length heap1"
    using adopt_from_heap [OF adopted_run(1) [OF assms(2)]] by auto
  with fresh(1) assms(4,8) have "h \<noteq> ue_health e" by simp
  then show ?thesis using fresh(2) by (simp add: heap.get_put_other)
qed

theorem readded_address_is_fresh_witness:
  "health_state (fst (live_upstream_publish
       [\<lparr> j_upstream = ''a'', j_health = \<lparr> h_state = Up, h_changed_at = 7 \<rparr> \<rparr>,
        \<lparr> j_upstream = ''b'', j_health = \<lparr> h_state = Down, h_changed_at = 9 \<rparr> \<rparr>]
       \<lparr> arc_ptr = 2, arc_val = \<lparr> ues_entries =
           [\<lparr> ue_upstream = example_upstream 11, ue_health = 1 \<rparr>],
           ues_publication = Publication 2 \<rparr> \<rparr>
       (\<lambda>_. 11) 3 [example_upstream 10])) 2 = Down"
proof -
  let ?heap = "[\<lparr> j_upstream = ''a'', j_health = \<lparr> h_state = Up, h_changed_at = 7 \<rparr> \<rparr>]"
  let ?es = "\<lparr> ues_entries = [\<lparr> ue_upstream = example_upstream 10, ue_health = 0 \<rparr>],
      ues_publication = Publication 1 \<rparr>"
  let ?b = "\<lparr> j_upstream = written (example_upstream 11),
      j_health = \<lparr> h_state = Down, h_changed_at = 9 \<rparr> \<rparr>"
  let ?heap1 = "?heap @ [\<lparr> j_upstream = ''b'', j_health = \<lparr> h_state = Down, h_changed_at = 9 \<rparr> \<rparr>]"
  let ?es1 = "\<lparr> ues_entries = [\<lparr> ue_upstream = example_upstream 11, ue_health = 1 \<rparr>],
      ues_publication = Publication 2 \<rparr>"
  have wf: "wf_entries ?heap (ues_entries ?es)" by (simp add: wf_entries_def)
  have run1: "adopted ?heap ?es (\<lambda>_. 9) [example_upstream 11] = (?heap @ [?b], ?es1)"
    by (simp add: adopted_def judging_def example_upstream_def health_default_def sat_add64_def
        u64_max_def)
  have away: "socket (example_upstream 10) \<notin> socket ` set [example_upstream 11]"
    by (simp add: example_upstream_def)
  obtain heap2 es2 where run2: "adopted ?heap1 ?es1 (\<lambda>_. 11) [example_upstream 10] = (heap2, es2)"
    by (cases "adopted ?heap1 ?es1 (\<lambda>_. 11) [example_upstream 10]")
  then have es2: "ues_entries es2 = [\<lparr> ue_upstream = example_upstream 10, ue_health = 2 \<rparr>]"
    by (auto simp: adopted_def judging_def example_upstream_def)
  have "health_state heap2 2 = Down"
    using readded_address_is_fresh [OF wf run1 away _ run2, of _ 0] by (simp add: es2)
  with run2 show ?thesis by (simp add: live_upstream_publish_def)
qed

end
