(* ===== verification/Selection.thy ===== *)
theory Selection
  imports Entries
begin

section \<open>The log of moves between upstreams: \<open>Selection\<close> of \<open>upstream/select.rs\<close>\<close>

text \<open>
  The selection last observed by any dial or patrol round, and the one log line each move leaves.
  The cell is swapped atomically (\<open>ArcSwap::rcu\<close>), so one observation is one step on the
  observed pair of list and index.
\<close>

record observed =
  ob_list :: "upstream_entries arc"
  ob_selected :: "nat option"

record switch =
  sw_from :: "upstream_addr option"
  sw_to :: "upstream_addr option"
  sw_cause :: switch_cause

text \<open>The cell a hop starts with: an empty list of its own, allocated at \<open>p\<close>.\<close>

definition observed_default :: "nat \<Rightarrow> observed" where
  "observed_default p =
     \<lparr> ob_list = \<lparr> arc_ptr = p, arc_val = upstream_entries_default \<rparr>, ob_selected = None \<rparr>"

definition cause :: "heap \<Rightarrow> upstream_entries \<Rightarrow> nat option \<Rightarrow> nat option \<Rightarrow> switch_cause" where
  "cause heap list previous new =
     (case previous of
        None \<Rightarrow> CauseRecovered
      | Some previous \<Rightarrow>
          (let state = (case nth_opt (ues_entries list) previous of
                          Some entry \<Rightarrow> health_state heap (ue_health entry)
                        | None \<Rightarrow> Down)
           in case state of
                Down \<Rightarrow> CauseDown
              | Up \<Rightarrow>
                  (case new of
                     None \<Rightarrow> CauseDown
                   | Some new \<Rightarrow> if new < previous then CauseHeld else CauseDown)))"

definition upstream_at :: "upstream_entries \<Rightarrow> nat option \<Rightarrow> upstream option" where
  "upstream_at list index =
     Option.bind index (\<lambda>i. map_option ue_upstream (nth_opt (ues_entries list) i))"

fun logged_addr :: "upstream_addr option \<Rightarrow> string" where
  "logged_addr (Some text) = text"
| "logged_addr None = []"

definition switched ::
  "heap \<Rightarrow> observed \<Rightarrow> upstream_entries arc \<Rightarrow> nat option \<Rightarrow> observed \<times> switch option" where
  "switched heap observed list new =
     (let previous = observed;
          observed' =
            (if published_before (arc_val list) (arc_val (ob_list observed)) then observed
             else \<lparr> ob_list = list, ob_selected = new \<rparr>)
      in if published_before (arc_val list) (arc_val (ob_list previous)) then (observed', None)
         else
           let from = upstream_at (arc_val (ob_list previous)) (ob_selected previous);
               to = upstream_at (arc_val list) new;
               same = (case (from, to) of
                         (Some from, Some to) \<Rightarrow> socket from = socket to
                       | (None, None) \<Rightarrow> True
                       | _ \<Rightarrow> False)
           in if same then (observed', None)
              else (observed',
                    Some \<lparr> sw_from = map_option written from, sw_to = map_option written to,
                           sw_cause = (if ptr_eq (ob_list previous) list
                                       then cause heap (arc_val list) (ob_selected previous) new
                                       else CauseReload) \<rparr>))"

definition observe ::
  "heap \<Rightarrow> observed \<Rightarrow> upstream_entries arc \<Rightarrow> nat option \<Rightarrow> observed \<times> log_line list" where
  "observe heap observed list new =
     (case switched heap observed list new of
        (observed', None) \<Rightarrow> (observed', [])
      | (observed', Some switch) \<Rightarrow>
          (observed', [SwitchLine (logged_addr (sw_from switch)) (logged_addr (sw_to switch))
                         (sw_cause switch)]))"

subsection \<open>What an observation does\<close>

text \<open>The socket address new connections reach, absent while nothing is selected.\<close>

definition reaches :: "upstream_entries \<Rightarrow> nat option \<Rightarrow> socket_addr option" where
  "reaches list index = map_option socket (upstream_at list index)"

lemma published_before_irrefl [simp]: "\<not> published_before es es"
  by (simp add: published_before_def)

lemma observe_stale:
  "published_before (arc_val list) (arc_val (ob_list observed)) \<Longrightarrow>
     observe heap observed list new = (observed, [])"
  by (simp add: observe_def switched_def)

lemma observe_current:
  assumes "\<not> published_before (arc_val list) (arc_val (ob_list observed))"
  shows "observe heap observed list new =
    (\<lparr> ob_list = list, ob_selected = new \<rparr>,
     if reaches (arc_val (ob_list observed)) (ob_selected observed) = reaches (arc_val list) new
     then []
     else [SwitchLine
             (logged_addr (map_option written
                (upstream_at (arc_val (ob_list observed)) (ob_selected observed))))
             (logged_addr (map_option written (upstream_at (arc_val list) new)))
             (if ptr_eq (ob_list observed) list
              then cause heap (arc_val list) (ob_selected observed) new else CauseReload)])"
  using assms
  by (auto simp: observe_def switched_def reaches_def Let_def split: option.splits)

lemma observe_publication:
  "ues_publication (arc_val (ob_list observed))
     \<le> ues_publication (arc_val (ob_list (fst (observe heap observed list new))))"
  by (cases "published_before (arc_val list) (arc_val (ob_list observed))")
    (simp_all add: observe_stale observe_current published_before_def)

text \<open>The causes, row by row.\<close>

lemma cause_recovered: "cause heap list None new = CauseRecovered"
  by (simp add: cause_def)

lemma cause_held_iff:
  "cause heap list (Some i) new = CauseHeld \<longleftrightarrow>
     (\<exists>n. new = Some n \<and> n < i) \<and> i < length (ues_entries list)
     \<and> health_state heap (ue_health (ues_entries list ! i)) = Up"
  by (auto simp: cause_def nth_opt_def Let_def split: option.splits health_state.splits if_splits)

lemma verdicts_of_nth:
  "i < length (ues_entries es) \<Longrightarrow> verdicts_of heap es ! i = verdict heap (ue_health (ues_entries es ! i))"
  by (simp add: verdicts_of_def)

lemma length_verdicts_of [simp]: "length (verdicts_of heap es) = length (ues_entries es)"
  by (simp add: verdicts_of_def)

lemma entries_selected_bound:
  "entries_selected heap es now hold = Some i \<Longrightarrow>
     i < length (ues_entries es) \<and> health_state heap (ue_health (ues_entries es ! i)) = Up"
  using chosen_up [of "verdicts_of heap es" now hold i]
  by (auto simp: entries_selected_def select_Some_iff verdicts_of_nth is_up_def health_state_def)

subsection \<open>Properties\<close>

text \<open>A move of new connections is logged exactly once, by whoever sees it first: observing the
  same selection again changes nothing and writes nothing, and an observation made from a list a
  reload has since replaced is dropped, so a dial holding an old snapshot cannot log a switch back.
  A line is written exactly when the socket address new connections reach has changed.\<close>

theorem observe_once:
  "(let (observed', lines) = observe heap observed list new;
        (observed'', again) = observe heap' observed' list new
    in observed'' = observed' \<and> again = [] \<and>
       (if published_before (arc_val list) (arc_val (ob_list observed))
        then observed' = observed \<and> lines = []
        else observed' = \<lparr> ob_list = list, ob_selected = new \<rparr> \<and>
             (lines = [] \<longleftrightarrow>
                reaches (arc_val (ob_list observed)) (ob_selected observed)
                = reaches (arc_val list) new)))"
  by (cases "published_before (arc_val list) (arc_val (ob_list observed))")
    (simp_all add: observe_stale observe_current)

text \<open>The cause \<open>held\<close> is truthful.  A switch within one list that is blamed on a higher-ranked
  entry taking traffic back names an entry that has been up for the whole return hold, provided the
  displaced entry's verdict did not change since it was selected and the verdicts that did change
  settled after that selection.\<close>

theorem held_cause_is_truthful:
  assumes sel: "select es now hold = Some i" and old: "h_changed_at (es ! i) < now"
    and es': "es' = verdicts_of heap list" and len: "length es' = length es"
    and kept: "es' ! i = es ! i"
    and others: "\<forall>j < length es. es' ! j = es ! j \<or> now \<le> h_changed_at (es' ! j)"
    and new: "entries_selected heap list now' hold = Some n"
    and blamed: "cause heap list (Some i) (Some n) = CauseHeld"
  shows "n < i \<and> h_state (es' ! n) = Up \<and> h_changed_at (es' ! n) + int hold \<le> now'"
proof -
  from sel have ch: "chosen es now hold i" by (simp add: select_Some_iff)
  from chosen_up [OF ch] have i: "i < length es" "is_up (es ! i)" by auto
  from blamed have ni: "n < i" by (simp add: cause_held_iff)
  from new have ch': "chosen es' now' hold n" by (simp add: entries_selected_def es' select_Some_iff)
  have "\<not> longest_up es' n"
  proof
    assume longest: "longest_up es' n"
    with i kept len have le: "h_changed_at (es' ! n) \<le> h_changed_at (es ! i)"
      unfolding longest_up_def by metis
    with old have lt: "h_changed_at (es' ! n) < now" by simp
    from others ni i have "es' ! n = es ! n \<or> now \<le> h_changed_at (es' ! n)" by simp
    with lt have same: "es' ! n = es ! n" by simp
    with longest have up: "is_up (es ! n)" by (auto simp: longest_up_def)
    from ch show False
    proof (cases "up_held now hold (es ! i)")
      case True
      with le up same have "up_held now hold (es ! n)" by (auto simp: up_held_iff)
      with ch ni i show False by (auto simp: chosen_def)
    next
      case False
      with ch have "longest_up es i" by (auto simp: chosen_def)
      with up ni i have "h_changed_at (es ! i) < h_changed_at (es ! n)"
        unfolding longest_up_def by (meson dual_order.strict_trans)
      with le same show False by simp
    qed
  qed
  with ch' have "up_held now' hold (es' ! n)" by (auto simp: chosen_def)
  with ni show ?thesis by (simp add: up_held_iff is_up_def)
qed

text \<open>A primary up since 10 and a fallback up since 0, for the example.\<close>

definition example_heap :: heap where
  "example_heap =
     [\<lparr> j_upstream = ''p'', j_health = \<lparr> h_state = Up, h_changed_at = 10 \<rparr> \<rparr>,
      \<lparr> j_upstream = ''f'', j_health = \<lparr> h_state = Up, h_changed_at = 0 \<rparr> \<rparr>]"

definition example_list :: upstream_entries where
  "example_list =
     \<lparr> ues_entries =
         [\<lparr> ue_upstream = example_upstream 10, ue_health = 0 \<rparr>,
          \<lparr> ue_upstream = example_upstream 11, ue_health = 1 \<rparr>],
       ues_publication = Publication 1 \<rparr>"

theorem held_cause_is_truthful_witness:
  "entries_selected example_heap example_list 70 60 = Some 0
   \<and> cause example_heap example_list (Some 1) (Some 0) = CauseHeld
   \<and> h_changed_at (verdicts_of example_heap example_list ! 0) + int 60 \<le> 70"
proof -
  let ?es = "[\<lparr> h_state = Down, h_changed_at = -5 \<rparr>, \<lparr> h_state = Up, h_changed_at = 0 \<rparr>]"
  have es': "verdicts_of example_heap example_list =
      [\<lparr> h_state = Up, h_changed_at = 10 \<rparr>, \<lparr> h_state = Up, h_changed_at = 0 \<rparr>]"
    by (simp add: verdicts_of_def verdict_def example_heap_def example_list_def)
  have sel: "select ?es 5 60 = Some 1" by code_simp
  have new: "entries_selected example_heap example_list 70 60 = Some 0"
    unfolding entries_selected_def es' by code_simp
  have blamed: "cause example_heap example_list (Some 1) (Some 0) = CauseHeld"
    by (simp add: cause_held_iff health_state_def verdict_def example_heap_def example_list_def)
  have "(0::nat) < 1 \<and> h_state (verdicts_of example_heap example_list ! 0) = Up
      \<and> h_changed_at (verdicts_of example_heap example_list ! 0) + int 60 \<le> 70"
    by (rule held_cause_is_truthful [OF sel _ refl _ _ _ new blamed])
      (unfold es', simp_all add: all_less_Suc)
  with new blamed show ?thesis by blast
qed

end
