(* ===== verification/Dialer.thy ===== *)
theory Dialer
  imports Selection
begin

section \<open>Dialling through the selected upstream: \<open>upstream/mod.rs\<close>\<close>

text \<open>
  \<open>UpstreamHop\<close> opens the connection a decision calls for.  The network is the parameter
  \<open>network\<close>: what a direct connect and a SOCKS5 connect through an upstream come back with; the
  SOCKS5 client is a library (\<open>tokio-socks\<close>), so its connect and the text of its errors are
  fields.  A dial is two atomic steps with the network in between: the selection, made and observed
  on one snapshot, and the verdict written when the answer is in; the functions here compose them.
\<close>

subsection \<open>The network\<close>

datatype socks_error =
    GeneralSocksServerFailure | ConnectionNotAllowedByRuleset | NetworkUnreachable
  | SocksHostUnreachable | SocksConnectionRefused | TtlExpired | AddressTypeNotSupported
  | CommandNotSupported | UnknownAuthMethod | InvalidTargetAddress
  | SocksIo | ParseError | ProxyServerUnreachable | InvalidResponseVersion
  | NoAcceptableAuthMethods | UnknownError | InvalidReservedByte | UnknownAddressType
  | InvalidAuthValues | PasswordAuthFailure | AuthorizationRequired | IdentdAuthFailure
  | InvalidUserIdAuthFailure

text \<open>
  \<open>net_socks budget upstream host port\<close> is \<open>None\<close> when the connect is not over within the budget;
  \<open>net_probe budget upstream\<close> is the connect through an upstream to the upstream's own address.
\<close>

record 'stream network =
  net_connect :: "host \<Rightarrow> port \<Rightarrow> (io_error, 'stream) res"
  net_socks :: "duration \<Rightarrow> socket_addr \<Rightarrow> host \<Rightarrow> port \<Rightarrow> (socks_error, 'stream) res option"
  net_probe :: "duration \<Rightarrow> socket_addr \<Rightarrow> (socks_error, 'stream) res option"
  net_socks_text :: "socks_error \<Rightarrow> string"

subsection \<open>Budgets\<close>

definition PREFER_CONNECT_TIMEOUT :: duration where "PREFER_CONNECT_TIMEOUT = 2000000000"
definition REQUIRE_CONNECT_TIMEOUT :: duration where "REQUIRE_CONNECT_TIMEOUT = 10000000000"
definition PROBE_TIMEOUT :: duration where "PROBE_TIMEOUT = 2000000000"

definition as_secs :: "duration \<Rightarrow> nat" where
  "as_secs d = d div 1000000000"

datatype upstream_budget = BudgetPrefer | BudgetRequire

fun allowance :: "upstream_budget \<Rightarrow> duration" where
  "allowance BudgetPrefer = PREFER_CONNECT_TIMEOUT"
| "allowance BudgetRequire = REQUIRE_CONNECT_TIMEOUT"

subsection \<open>What a dial comes back with\<close>

datatype dial_failure = DfUpstream io_error | DfDestination io_error | DfUnsent io_error

datatype 'stream dialled =
    DialRefused io_error
  | DialAttempted effective_hop "upstream_addr option" "(io_error, 'stream) res"

definition failed_dial :: "(socks_error \<Rightarrow> string) \<Rightarrow> socks_error \<Rightarrow> dial_failure" where
  "failed_dial text failure =
     (case failure of
        GeneralSocksServerFailure \<Rightarrow> DfDestination (io_other (text failure))
      | ConnectionNotAllowedByRuleset \<Rightarrow> DfDestination (io_other (text failure))
      | NetworkUnreachable \<Rightarrow> DfDestination (io_other (text failure))
      | SocksHostUnreachable \<Rightarrow> DfDestination (io_other (text failure))
      | SocksConnectionRefused \<Rightarrow> DfDestination (io_other (text failure))
      | TtlExpired \<Rightarrow> DfDestination (io_other (text failure))
      | AddressTypeNotSupported \<Rightarrow> DfDestination (io_other (text failure))
      | CommandNotSupported \<Rightarrow> DfDestination (io_other (text failure))
      | UnknownAuthMethod \<Rightarrow> DfDestination (io_other (text failure))
      | InvalidTargetAddress \<Rightarrow> DfUnsent (io_other (text failure))
      | _ \<Rightarrow> DfUpstream (io_other (text failure)))"

text \<open>
  A direct connect.  Arming TCP keepalive on the socket can only leave a warning in the log, so it
  is no part of the result.
\<close>

definition direct :: "'stream network \<Rightarrow> host \<Rightarrow> port \<Rightarrow> (io_error, 'stream) res" where
  "direct net host port = net_connect net host port"

definition through ::
  "'stream network \<Rightarrow> host \<Rightarrow> port \<Rightarrow> socket_addr \<Rightarrow> upstream_budget
     \<Rightarrow> (dial_failure, 'stream) res" where
  "through net host port upstream budget =
     (case net_socks net (allowance budget) upstream host port of
        None \<Rightarrow>
          Err (DfUpstream
            \<lparr> ie_kind = TimedOut,
              ie_text = ''the upstream '' @ show_socket upstream @ '' did not answer within ''
                @ show_nat (as_secs (allowance budget)) @ ''s'',
              ie_payload = NoPayload \<rparr>)
      | Some (Inr dialled) \<Rightarrow> Ok dialled
      | Some (Inl failure) \<Rightarrow> Err (failed_dial (net_socks_text net) failure))"

subsection \<open>The three classes\<close>

definition observed_dial ::
  "heap \<Rightarrow> upstream_entry \<Rightarrow> health_state \<Rightarrow> verdict_cause \<Rightarrow> time \<Rightarrow> heap \<times> log_line list" where
  "observed_dial heap dialled state seen_by now =
     health_set heap (ue_health dialled) state seen_by now"

definition carried :: "upstream_entry \<Rightarrow> upstream_addr" where
  "carried dialled = written (ue_upstream dialled)"

text \<open>The part of \<open>required\<close> and \<open>preferred\<close> that writes what the dial saw about the upstream.\<close>

definition dial_verdict :: "(dial_failure, 'stream) res \<Rightarrow> health_state option" where
  "dial_verdict answer =
     (case answer of
        Inr _ \<Rightarrow> Some Up
      | Inl (DfDestination _) \<Rightarrow> Some Up
      | Inl (DfUnsent _) \<Rightarrow> None
      | Inl (DfUpstream _) \<Rightarrow> Some Down)"

definition judge ::
  "heap \<Rightarrow> upstream_entry \<Rightarrow> (dial_failure, 'stream) res \<Rightarrow> time \<Rightarrow> heap \<times> log_line list" where
  "judge heap dialled answer now =
     (case dial_verdict answer of
        None \<Rightarrow> (heap, [])
      | Some state \<Rightarrow> observed_dial heap dialled state Dial now)"

definition fallen_back :: "'stream network \<Rightarrow> host \<Rightarrow> port \<Rightarrow> 'stream dialled" where
  "fallen_back net host port = DialAttempted HopFallbackDirect None (direct net host port)"

definition required ::
  "'stream network \<Rightarrow> heap \<Rightarrow> time \<Rightarrow> host \<Rightarrow> port \<Rightarrow> rule_id \<Rightarrow> upstream_entry option
     \<Rightarrow> heap \<times> log_line list \<times> 'stream dialled" where
  "required net heap now host port rule dialled =
     (case dialled of
        None \<Rightarrow>
          (heap, [], DialRefused (io_of_upstream_down \<lparr> ud_addr = NO_UPSTREAM, ud_rule = rule \<rparr>))
      | Some dialled \<Rightarrow>
          (let upstream = socket (ue_upstream dialled);
               answer = through net host port upstream BudgetRequire;
               (heap, lines) = judge heap dialled answer now;
               next = (case answer of
                         Inr next \<Rightarrow> Ok next
                       | Inl (DfDestination failure) \<Rightarrow> Err failure
                       | Inl (DfUnsent failure) \<Rightarrow> Err failure
                       | Inl (DfUpstream failure) \<Rightarrow>
                           Err (io_of_upstream_down \<lparr> ud_addr = upstream, ud_rule = rule \<rparr>))
           in (heap, lines, DialAttempted HopUpstream (Some (carried dialled)) next)))"

definition preferred ::
  "'stream network \<Rightarrow> heap \<Rightarrow> time \<Rightarrow> host \<Rightarrow> port \<Rightarrow> upstream_entry option
     \<Rightarrow> heap \<times> log_line list \<times> 'stream dialled" where
  "preferred net heap now host port selected =
     (case selected of
        None \<Rightarrow> (heap, [], fallen_back net host port)
      | Some dialled \<Rightarrow>
          (let upstream = socket (ue_upstream dialled);
               answer = through net host port upstream BudgetPrefer;
               (heap, lines) = judge heap dialled answer now
           in (heap, lines,
               case answer of
                 Inr next \<Rightarrow> DialAttempted HopUpstream (Some (carried dialled)) (Ok next)
               | Inl failure \<Rightarrow> fallen_back net host port)))"

subsection \<open>The hop\<close>

text \<open>What a hop reads and writes: the verdicts, the published list, the observed selection, the log.\<close>

record hop =
  hop_heap :: heap
  hop_upstream :: "upstream_entries arc"
  hop_hold :: duration
  hop_observed :: observed
  hop_log :: "log_line list"

text \<open>
  The first step of \<open>routed\<close>: one snapshot, one selection, one observation.  It returns the list
  and the index the rest of the dial goes by.
\<close>

definition routed_select :: "hop \<Rightarrow> time \<Rightarrow> hop \<times> upstream_entries \<times> nat option" where
  "routed_select hop now =
     (let entries = live_upstream_snapshot (hop_upstream hop);
          selected = entries_selected (hop_heap hop) (arc_val entries) now (hop_hold hop);
          (observed, lines) = observe (hop_heap hop) (hop_observed hop) entries selected
      in (hop\<lparr> hop_observed := observed, hop_log := hop_log hop @ lines \<rparr>,
          arc_val entries, selected))"

definition hop_write :: "hop \<Rightarrow> heap \<Rightarrow> log_line list \<Rightarrow> hop" where
  "hop_write hop heap lines = hop\<lparr> hop_heap := heap, hop_log := hop_log hop @ lines \<rparr>"

text \<open>\<open>routed\<close>, the selection made at \<open>now\<close> and the verdict written at \<open>later\<close>.\<close>

definition routed ::
  "'stream network \<Rightarrow> hop \<Rightarrow> time \<Rightarrow> time \<Rightarrow> host \<Rightarrow> port \<Rightarrow> rule_class \<Rightarrow> rule_id
     \<Rightarrow> hop \<times> 'stream dialled" where
  "routed net hop now later host port class rule =
     (let (hop, entries, selected) = routed_select hop now in
      case class of
        Never \<Rightarrow> (hop, DialAttempted HopDirect None (direct net host port))
      | Require \<Rightarrow>
          (let (heap, lines, dialled) =
                 required net (hop_heap hop) later host port rule (entries_required entries selected)
           in (hop_write hop heap lines, dialled))
      | Prefer \<Rightarrow>
          (let (heap, lines, dialled) =
                 preferred net (hop_heap hop) later host port (entries_at entries selected)
           in (hop_write hop heap lines, dialled)))"

definition hop_dial ::
  "'stream network \<Rightarrow> hop \<Rightarrow> time \<Rightarrow> time \<Rightarrow> host \<Rightarrow> port \<Rightarrow> decision \<Rightarrow> hop \<times> 'stream dialled" where
  "hop_dial net hop now later host port decision =
     (case decision of
        Direct \<Rightarrow> (hop, DialAttempted HopDirect None (direct net host port))
      | NeverRule rule \<Rightarrow> (hop, DialAttempted HopDirect None (direct net host port))
      | Upstream class rule \<Rightarrow> routed net hop now later host port class rule)"

definition hop_verdict :: "hop \<Rightarrow> time \<Rightarrow> health_state" where
  "hop_verdict hop now =
     (case entries_selected (hop_heap hop) (arc_val (hop_upstream hop)) now (hop_hold hop) of
        Some index \<Rightarrow> Up
      | None \<Rightarrow> Down)"

subsection \<open>The parts of a dial\<close>

lemma routed_select_simps:
  "fst (snd (routed_select hop now)) = arc_val (hop_upstream hop)"
  "snd (snd (routed_select hop now)) =
     entries_selected (hop_heap hop) (arc_val (hop_upstream hop)) now (hop_hold hop)"
  "hop_heap (fst (routed_select hop now)) = hop_heap hop"
  "hop_upstream (fst (routed_select hop now)) = hop_upstream hop"
  "hop_hold (fst (routed_select hop now)) = hop_hold hop"
  by (simp_all add: routed_select_def live_upstream_snapshot_def Let_def split: prod.splits)

text \<open>The entry a \<open>prefer\<close> dial and a \<open>require\<close> dial made now go through.\<close>

definition hop_at :: "hop \<Rightarrow> time \<Rightarrow> upstream_entry option" where
  "hop_at hop now =
     entries_at (arc_val (hop_upstream hop))
       (entries_selected (hop_heap hop) (arc_val (hop_upstream hop)) now (hop_hold hop))"

definition hop_required :: "hop \<Rightarrow> time \<Rightarrow> upstream_entry option" where
  "hop_required hop now =
     entries_required (arc_val (hop_upstream hop))
       (entries_selected (hop_heap hop) (arc_val (hop_upstream hop)) now (hop_hold hop))"

lemma snd_routed:
  "snd (routed net hop now later host port class rule) =
     (case class of
        Never \<Rightarrow> DialAttempted HopDirect None (direct net host port)
      | Require \<Rightarrow>
          snd (snd (required net (hop_heap hop) later host port rule (hop_required hop now)))
      | Prefer \<Rightarrow>
          snd (snd (preferred net (hop_heap hop) later host port (hop_at hop now))))"
  using routed_select_simps [of hop now]
  by (cases "routed_select hop now")
    (auto simp: routed_def hop_at_def hop_required_def Let_def split: rule_class.splits prod.splits)

lemma entries_required_None: "entries_required es selected = None \<longleftrightarrow> ues_entries es = []"
  by (auto simp: entries_required_def entries_at_def entries_first_def nth_opt_def
      split: option.splits bind_splits if_splits)

lemma hop_required_None: "hop_required hop now = None \<longleftrightarrow> ues_entries (arc_val (hop_upstream hop)) = []"
  by (simp add: hop_required_def entries_required_None)

lemma hop_at_Some_required: "hop_at hop now = Some e \<Longrightarrow> hop_required hop now = Some e"
  by (simp add: hop_at_def hop_required_def entries_required_def)

lemma hop_at_up:
  assumes "hop_at hop now = Some e"
  shows "e \<in> set (ues_entries (arc_val (hop_upstream hop)))
    \<and> health_state (hop_heap hop) (ue_health e) = Up"
proof -
  from assms obtain i where "entries_selected (hop_heap hop) (arc_val (hop_upstream hop)) now
      (hop_hold hop) = Some i" and "nth_opt (ues_entries (arc_val (hop_upstream hop))) i = Some e"
    by (auto simp: hop_at_def entries_at_def bind_eq_Some_conv)
  then show ?thesis using entries_selected_bound by (auto simp: nth_opt_Some)
qed

lemma hop_at_None:
  "hop_at hop now = None \<longleftrightarrow> hop_verdict hop now = Down"
proof -
  let ?sel = "entries_selected (hop_heap hop) (arc_val (hop_upstream hop)) now (hop_hold hop)"
  have "nth_opt (ues_entries (arc_val (hop_upstream hop))) i \<noteq> None" if "?sel = Some i" for i
    using entries_selected_bound [OF that] by (simp add: nth_opt_None)
  then show ?thesis
    by (cases ?sel) (auto simp: hop_at_def entries_at_def hop_verdict_def)
qed


subsection \<open>The next hop as the front ends see it\<close>

text \<open>
  The \<open>NextHop\<close> trait: a dial and a verdict.  The laws are the ones a front end relies on when it
  reports a connection: an upstream is named exactly when one carried the connection, a decision
  that is not upstream-class goes out directly, a refusal is a refusal of a \<open>require\<close> rule and
  carries its \<open>UpstreamDown\<close>, and a \<open>prefer\<close> destination is always attempted.
\<close>

definition reported_hop :: "'stream dialled \<Rightarrow> effective_hop option" where
  "reported_hop d = (case d of DialRefused _ \<Rightarrow> None | DialAttempted hop _ _ \<Rightarrow> Some hop)"

definition reported_via :: "'stream dialled \<Rightarrow> upstream_addr option" where
  "reported_via d = (case d of DialRefused _ \<Rightarrow> None | DialAttempted _ via _ \<Rightarrow> via)"

definition refusal :: "'stream dialled \<Rightarrow> io_error option" where
  "refusal d = (case d of DialRefused e \<Rightarrow> Some e | DialAttempted _ _ _ \<Rightarrow> None)"

locale next_hop =
  fixes dial :: "'s \<Rightarrow> host \<Rightarrow> port \<Rightarrow> decision \<Rightarrow> 's \<times> 'stream dialled"
    and up :: "'s \<Rightarrow> health_state"
  assumes via_law: "snd (dial s host port d) = DialAttempted hop via next \<Longrightarrow>
      (via = None) = (hop \<noteq> HopUpstream)"
    and direct_law: "d = Direct \<or> d = NeverRule r \<or> d = Upstream Never r \<Longrightarrow>
      reported_hop (snd (dial s host port d)) = Some HopDirect"
    and refusal_law: "refusal (snd (dial s host port d)) = Some e \<Longrightarrow>
      \<exists>rule. d = Upstream Require rule \<and>
        carried_by e = Some \<lparr> ud_addr = NO_UPSTREAM, ud_rule = rule \<rparr>"
    and require_law: "reported_hop (snd (dial s host port (Upstream Require r))) \<in>
      {None, Some HopUpstream}"
    and prefer_down_law: "up s = Down \<Longrightarrow>
      reported_hop (snd (dial s host port (Upstream Prefer r))) = Some HopFallbackDirect"
begin

lemma only_prefer_falls_back:
  "reported_hop (snd (dial s host port d)) = Some HopFallbackDirect \<Longrightarrow> \<exists>r. d = Upstream Prefer r"
proof (cases d)
  case (Upstream c r)
  assume "reported_hop (snd (dial s host port d)) = Some HopFallbackDirect"
  with Upstream require_law [of s host port r] direct_law [of d r s host port] show ?thesis
    by (cases c) auto
qed (use direct_law [of d _ s host port] in auto)

lemma prefer_attempted: "refusal (snd (dial s host port (Upstream Prefer r))) = None"
  using refusal_law [of s host port "Upstream Prefer r"]
  by (cases "refusal (snd (dial s host port (Upstream Prefer r)))") auto

lemma named_upstream:
  "reported_via (snd (dial s host port d)) = Some u \<Longrightarrow>
     reported_hop (snd (dial s host port d)) = Some HopUpstream"
  using via_law [of s host port d]
  by (cases "snd (dial s host port d)") (auto simp: reported_via_def reported_hop_def)

lemma named_upstream_rule:
  assumes "reported_via (snd (dial s host port d)) = Some u"
  shows "\<exists>c r. d = Upstream c r \<and> c \<noteq> Never"
proof (cases d)
  case (Upstream c r)
  with named_upstream [OF assms] direct_law [of d r s host port] show ?thesis by auto
qed (use named_upstream [OF assms] direct_law [of d _ s host port] in auto)

end

definition dial_at ::
  "'stream network \<Rightarrow> time \<Rightarrow> time \<Rightarrow> hop \<Rightarrow> host \<Rightarrow> port \<Rightarrow> decision \<Rightarrow> hop \<times> 'stream dialled" where
  "dial_at net now later hop host port decision = hop_dial net hop now later host port decision"

lemma snd_required:
  "snd (snd (required net heap now host port rule dialled)) =
     (case dialled of
        None \<Rightarrow> DialRefused (io_of_upstream_down \<lparr> ud_addr = NO_UPSTREAM, ud_rule = rule \<rparr>)
      | Some d \<Rightarrow>
          DialAttempted HopUpstream (Some (carried d))
            (case through net host port (socket (ue_upstream d)) BudgetRequire of
               Inr s \<Rightarrow> Ok s
             | Inl (DfDestination f) \<Rightarrow> Err f
             | Inl (DfUnsent f) \<Rightarrow> Err f
             | Inl (DfUpstream f) \<Rightarrow>
                 Err (io_of_upstream_down \<lparr> ud_addr = socket (ue_upstream d), ud_rule = rule \<rparr>)))"
  by (simp add: required_def Let_def split: option.splits prod.splits)

lemma snd_preferred:
  "snd (snd (preferred net heap now host port selected)) =
     (case selected of
        None \<Rightarrow> fallen_back net host port
      | Some d \<Rightarrow>
          (case through net host port (socket (ue_upstream d)) BudgetPrefer of
             Inr s \<Rightarrow> DialAttempted HopUpstream (Some (carried d)) (Ok s)
           | Inl f \<Rightarrow> fallen_back net host port))"
  by (simp add: preferred_def Let_def split: option.splits prod.splits)

lemmas dial_outcome =
  hop_dial_def snd_routed snd_required snd_preferred fallen_back_def

interpretation hop: next_hop "dial_at net now later" "\<lambda>hop. hop_verdict hop now"
proof
  fix s :: hop and host port d hop via "next" r e
  show "(via = None) = (hop \<noteq> HopUpstream)"
    if "snd (dial_at net now later s host port d) = DialAttempted hop via next"
    using that by (auto simp: dial_at_def dial_outcome
        split: decision.splits rule_class.splits option.splits sum.splits)
  show "reported_hop (snd (dial_at net now later s host port d)) = Some HopDirect"
    if "d = Direct \<or> d = NeverRule r \<or> d = Upstream Never r"
    using that by (auto simp: dial_at_def dial_outcome reported_hop_def)
  show "\<exists>rule. d = Upstream Require rule \<and>
      carried_by e = Some \<lparr> ud_addr = NO_UPSTREAM, ud_rule = rule \<rparr>"
    if "refusal (snd (dial_at net now later s host port d)) = Some e"
    using that by (auto simp: dial_at_def dial_outcome refusal_def
        split: decision.splits rule_class.splits option.splits sum.splits)
  show "reported_hop (snd (dial_at net now later s host port (Upstream Require r))) \<in>
      {None, Some HopUpstream}"
    by (auto simp: dial_at_def dial_outcome reported_hop_def split: option.splits)
  show "reported_hop (snd (dial_at net now later s host port (Upstream Prefer r))) =
      Some HopFallbackDirect" if "hop_verdict s now = Down"
    using that hop_at_None [of s now] by (simp add: dial_at_def dial_outcome reported_hop_def)
qed


text \<open>Neither a \<open>require\<close> dial nor a dial through an upstream looks at a direct connect.\<close>

lemma through_no_connect [simp]:
  "through (net\<lparr> net_connect := c \<rparr>) host port upstream budget = through net host port upstream budget"
  by (simp add: through_def split: option.splits sum.splits)

lemma required_no_connect [simp]:
  "required (net\<lparr> net_connect := c \<rparr>) heap now host port rule d =
     required net heap now host port rule d"
  by (cases d) (simp_all add: required_def)

subsection \<open>What a dial writes\<close>

lemma fst_judge:
  "fst (judge heap d answer now) =
     (case dial_verdict answer of None \<Rightarrow> heap | Some state \<Rightarrow> heap_put heap (ue_health d) state now)"
  by (simp add: judge_def observed_dial_def health_set_def split: option.splits)

lemma fst_required:
  "fst (required net heap now host port rule dialled) =
     (case dialled of
        None \<Rightarrow> heap
      | Some d \<Rightarrow> fst (judge heap d (through net host port (socket (ue_upstream d)) BudgetRequire) now))"
  by (simp add: required_def Let_def split: option.splits prod.splits)

lemma fst_preferred:
  "fst (preferred net heap now host port selected) =
     (case selected of
        None \<Rightarrow> heap
      | Some d \<Rightarrow> fst (judge heap d (through net host port (socket (ue_upstream d)) BudgetPrefer) now))"
  by (simp add: preferred_def Let_def split: option.splits prod.splits)

text \<open>The entry a decision is dialled through, and the answer the upstream gave.\<close>

definition dialled_entry :: "hop \<Rightarrow> time \<Rightarrow> decision \<Rightarrow> upstream_entry option" where
  "dialled_entry hop now decision =
     (case decision of
        Upstream Require rule \<Rightarrow> hop_required hop now
      | Upstream Prefer rule \<Rightarrow> hop_at hop now
      | _ \<Rightarrow> None)"

definition dial_budget :: "decision \<Rightarrow> upstream_budget" where
  "dial_budget decision = (case decision of Upstream Require rule \<Rightarrow> BudgetRequire | _ \<Rightarrow> BudgetPrefer)"

definition entry_answer ::
  "'stream network \<Rightarrow> host \<Rightarrow> port \<Rightarrow> decision \<Rightarrow> upstream_entry \<Rightarrow> (dial_failure, 'stream) res" where
  "entry_answer net host port decision d =
     through net host port (socket (ue_upstream d)) (dial_budget decision)"

lemma hop_heap_routed:
  "hop_heap (fst (routed net hop now later host port class rule)) =
     (case class of
        Never \<Rightarrow> hop_heap hop
      | Require \<Rightarrow> fst (required net (hop_heap hop) later host port rule (hop_required hop now))
      | Prefer \<Rightarrow> fst (preferred net (hop_heap hop) later host port (hop_at hop now)))"
  using routed_select_simps [of hop now]
  by (cases "routed_select hop now")
    (auto simp: routed_def hop_at_def hop_required_def hop_write_def Let_def
      split: rule_class.splits prod.splits)

lemma hop_kept_routed:
  "hop_upstream (fst (routed net hop now later host port class rule)) = hop_upstream hop
   \<and> hop_hold (fst (routed net hop now later host port class rule)) = hop_hold hop"
  using routed_select_simps [of hop now]
  by (cases "routed_select hop now")
    (auto simp: routed_def hop_write_def Let_def split: rule_class.splits prod.splits)

lemma hop_kept_dial:
  "hop_upstream (fst (hop_dial net hop now later host port d)) = hop_upstream hop"
  "hop_hold (fst (hop_dial net hop now later host port d)) = hop_hold hop"
  by (auto simp: hop_dial_def hop_kept_routed split: decision.splits)

lemma hop_heap_dial:
  "hop_heap (fst (hop_dial net hop now later host port decision)) =
     (case dialled_entry hop now decision of
        None \<Rightarrow> hop_heap hop
      | Some d \<Rightarrow>
          (case dial_verdict (entry_answer net host port decision d) of
             None \<Rightarrow> hop_heap hop
           | Some state \<Rightarrow> heap_put (hop_heap hop) (ue_health d) state later))"
  by (auto simp: hop_dial_def hop_heap_routed fst_required fst_preferred fst_judge dialled_entry_def
      entry_answer_def dial_budget_def split: decision.splits rule_class.splits option.splits)

lemma dialled_entry_in:
  assumes "dialled_entry hop now decision = Some d"
  shows "d \<in> set (ues_entries (arc_val (hop_upstream hop)))"
proof -
  let ?es = "arc_val (hop_upstream hop)"
  from assms have "hop_required hop now = Some d"
    by (auto simp: dialled_entry_def hop_at_Some_required split: decision.splits rule_class.splits)
  then show ?thesis
    by (auto simp: hop_required_def entries_required_def entries_at_def entries_first_def nth_opt_Some
        bind_eq_Some_conv split: option.splits)
qed

subsection \<open>Properties\<close>

text \<open>C6: a \<open>require\<close> destination is never reached around its upstream.  It is refused before the
  network exactly when no upstream is configured, and the refusal names \<open>NO_UPSTREAM\<close> and the rule;
  otherwise it goes through the selected entry, or through the first one while none is selected,
  within the \<open>require\<close> budget: an upstream that cannot carry it fails it with \<open>UpstreamDown\<close> under
  the rule, an answer about the destination is passed on as it came.  No direct connect is ever made
  for it: the outcome is the same whatever a direct connect would have come back with.\<close>

theorem require_outcome:
  "snd (hop_dial net hop now later host port (Upstream Require rule)) =
     (case hop_required hop now of
        None \<Rightarrow> DialRefused (io_of_upstream_down \<lparr> ud_addr = NO_UPSTREAM, ud_rule = rule \<rparr>)
      | Some d \<Rightarrow>
          DialAttempted HopUpstream (Some (written (ue_upstream d)))
            (case through net host port (socket (ue_upstream d)) BudgetRequire of
               Inr stream \<Rightarrow> Ok stream
             | Inl (DfDestination f) \<Rightarrow> Err f
             | Inl (DfUnsent f) \<Rightarrow> Err f
             | Inl (DfUpstream f) \<Rightarrow>
                 Err (io_of_upstream_down \<lparr> ud_addr = socket (ue_upstream d), ud_rule = rule \<rparr>)))
   \<and> (hop_required hop now = None \<longleftrightarrow> ues_entries (arc_val (hop_upstream hop)) = [])
   \<and> hop_dial net hop now later host port (Upstream Require rule) =
       hop_dial (net\<lparr> net_connect := connect \<rparr>) hop now later host port (Upstream Require rule)"
proof -
  have "hop_dial net hop now later host port (Upstream Require rule) =
      hop_dial (net\<lparr> net_connect := connect \<rparr>) hop now later host port (Upstream Require rule)"
    by (simp add: hop_dial_def routed_def)
  then show ?thesis
    using hop_required_None [of hop now]
    by (auto simp: hop_dial_def snd_routed snd_required carried_def split: option.split)
qed

text \<open>C7: a \<open>prefer\<close> destination always has its direct route.  Through the selected entry it goes
  within the short budget, and only a connection made there is reported as carried by it; every other
  end of that dial, and every dial made while nothing is selected, is a direct connect reported as a
  fallback with no carrying upstream.  While nothing is selected no upstream is asked at all and no
  verdict moves; an entry that is dialled is one the daemon holds to be up.\<close>

theorem prefer_outcome:
  "snd (hop_dial net hop now later host port (Upstream Prefer rule)) =
     (case hop_at hop now of
        None \<Rightarrow> DialAttempted HopFallbackDirect None (net_connect net host port)
      | Some d \<Rightarrow>
          (case through net host port (socket (ue_upstream d)) BudgetPrefer of
             Inr stream \<Rightarrow> DialAttempted HopUpstream (Some (written (ue_upstream d))) (Ok stream)
           | Inl f \<Rightarrow> DialAttempted HopFallbackDirect None (net_connect net host port)))
   \<and> (case hop_at hop now of
        None \<Rightarrow>
          hop_verdict hop now = Down
          \<and> hop_heap (fst (hop_dial net hop now later host port (Upstream Prefer rule))) = hop_heap hop
          \<and> hop_dial net hop now later host port (Upstream Prefer rule) =
              hop_dial (net\<lparr> net_socks := socks \<rparr>) hop now later host port (Upstream Prefer rule)
      | Some d \<Rightarrow> health_state (hop_heap hop) (ue_health d) = Up)"
proof (cases "hop_at hop now")
  case None
  then have "entries_at (fst (snd (routed_select hop now))) (snd (snd (routed_select hop now))) = None"
    by (simp add: hop_at_def routed_select_simps)
  then have "hop_dial net hop now later host port (Upstream Prefer rule) =
      hop_dial (net\<lparr> net_socks := socks \<rparr>) hop now later host port (Upstream Prefer rule)"
    by (auto simp: hop_dial_def routed_def preferred_def fallen_back_def direct_def split: prod.splits)
  with None hop_at_None [of hop now] show ?thesis
    by (simp add: dial_outcome direct_def hop_heap_routed fst_preferred)
next
  case (Some d)
  with hop_at_up [OF Some] show ?thesis
    by (auto simp: dial_outcome direct_def carried_def split: sum.splits)
qed

text \<open>C15: the verdicts a dial moves.  A dial judges the entry it was made against and no other: a
  connection or a reply about the destination puts that entry up, a dial the upstream itself failed
  puts it down, a dial that never left the process writes nothing; an entry already in that state
  keeps the instant it entered it.\<close>

theorem dial_judges_its_entry:
  assumes wf: "wf_entries (hop_heap hop) (ues_entries (arc_val (hop_upstream hop)))"
    and dialled: "dialled_entry hop now decision = Some d"
    and e: "e \<in> set (ues_entries (arc_val (hop_upstream hop)))"
  shows "verdict (hop_heap (fst (hop_dial net hop now later host port decision))) (ue_health e) =
    (if socket (ue_upstream e) = socket (ue_upstream d)
     then case entry_answer net host port decision d of
            Inl (DfUnsent f) \<Rightarrow> verdict (hop_heap hop) (ue_health d)
          | Inl (DfUpstream f) \<Rightarrow> observe_health (verdict (hop_heap hop) (ue_health d)) Down later
          | Inl (DfDestination f) \<Rightarrow> observe_health (verdict (hop_heap hop) (ue_health d)) Up later
          | Inr stream \<Rightarrow> observe_health (verdict (hop_heap hop) (ue_health d)) Up later
     else verdict (hop_heap hop) (ue_health e))"
proof -
  note d = dialled_entry_in [OF dialled]
  from wf d have valid: "valid_handle (hop_heap hop) (ue_health d)"
    by (auto simp: wf_entries_def list_all_iff valid_handle_def)
  show ?thesis
  proof (cases "socket (ue_upstream e) = socket (ue_upstream d)")
    case True
    with wf d e have "e = d" by (auto simp: wf_entries_def distinct_map inj_on_def)
    with valid dialled show ?thesis
      by (auto simp: hop_heap_dial dial_verdict_def heap.get_put split: sum.splits dial_failure.splits)
  next
    case False
    with wf d e have "ue_health e \<noteq> ue_health d" by (auto simp: wf_entries_def distinct_map inj_on_def)
    with dialled False show ?thesis
      by (simp add: hop_heap_dial heap.get_put_other split: option.splits)
  qed
qed

text \<open>C28: a \<open>require\<close> dial revives its upstream.  While every upstream is down, a \<open>require\<close> dial that
  its upstream answers makes the first entry of the list the one selected for every connection after
  it, at any later instant and under any return hold.\<close>

theorem require_revives:
  assumes wf: "wf_entries (hop_heap hop) (ues_entries (arc_val (hop_upstream hop)))"
    and down: "hop_verdict hop now = Down"
    and first: "ues_entries (arc_val (hop_upstream hop)) = d # rest"
    and answered: "dial_verdict (through net host port (socket (ue_upstream d)) BudgetRequire) = Some Up"
  shows "entries_selected
    (hop_heap (fst (hop_dial net hop now later host port (Upstream Require rule))))
    (arc_val (hop_upstream hop)) t hold = Some 0"
proof -
  let ?es = "arc_val (hop_upstream hop)" and ?h = "hop_heap hop"
  from down have sel: "entries_selected ?h ?es now (hop_hold hop) = None"
    by (auto simp: hop_verdict_def split: option.splits)
  then have alldown: "\<forall>e \<in> set (ues_entries ?es). \<not> is_up (verdict ?h (ue_health e))"
    by (simp add: entries_selected_def select_None_iff verdicts_of_def)
  from sel first have "hop_required hop now = Some d"
    by (simp add: hop_required_def entries_required_def entries_at_def entries_first_def nth_opt_def)
  then have heap: "hop_heap (fst (hop_dial net hop now later host port (Upstream Require rule))) =
      heap_put ?h (ue_health d) Up later"
    using answered by (simp add: hop_heap_dial dialled_entry_def entry_answer_def dial_budget_def)
  let ?vs = "verdicts_of (heap_put ?h (ue_health d) Up later) ?es"
  have only: "is_up (?vs ! i) \<longleftrightarrow> i = 0" if "i < length ?vs" for i
  proof (cases i)
    case 0
    with wf first show ?thesis
      by (simp add: verdicts_of_def is_up_def heap.get_put valid_handle_def wf_entries_def
          observe_health_def)
  next
    case (Suc j)
    with that first have j: "j < length rest" by simp
    then have "rest ! j \<in> set rest" by simp
    then have "ue_health (rest ! j) \<in> ue_health ` set rest" by simp
    moreover from wf first have "ue_health d \<notin> ue_health ` set rest"
      by (simp add: wf_entries_def)
    ultimately have "ue_health (rest ! j) \<noteq> ue_health d" by metis
    with Suc j first alldown show ?thesis
      by (simp add: verdicts_of_def heap.get_put_other)
  qed
  have len: "0 < length ?vs" using first by (simp add: verdicts_of_def)
  obtain i where i: "select ?vs t hold = Some i"
    using only [OF len] len by (cases "select ?vs t hold") (auto simp: select_None_iff)
  with chosen_up [of ?vs t hold i] only have "i = 0" by (auto simp: select_Some_iff)
  with i show ?thesis by (simp add: heap entries_selected_def)
qed


text \<open>
  An example: a network whose upstreams all carry the connection, and a hop with a primary and a
  fallback, both down.
\<close>

definition example_network :: "string network" where
  "example_network =
     \<lparr> net_connect = (\<lambda>host port. Err (io_other ''unreachable'')),
       net_socks = (\<lambda>budget upstream host port. Some (Ok ''stream'')),
       net_probe = (\<lambda>budget upstream. Some (Err ConnectionNotAllowedByRuleset)),
       net_socks_text = (\<lambda>_. ''socks'') \<rparr>"

definition example_down :: heap where
  "example_down =
     [\<lparr> j_upstream = ''p'', j_health = \<lparr> h_state = Down, h_changed_at = 1 \<rparr> \<rparr>,
      \<lparr> j_upstream = ''f'', j_health = \<lparr> h_state = Down, h_changed_at = 2 \<rparr> \<rparr>]"

definition example_hop :: hop where
  "example_hop =
     \<lparr> hop_heap = example_down, hop_upstream = \<lparr> arc_ptr = 1, arc_val = example_list \<rparr>,
       hop_hold = RETURN_HOLD, hop_observed = observed_default 0, hop_log = [] \<rparr>"

lemma example_hop_wf:
  "wf_entries (hop_heap example_hop) (ues_entries (arc_val (hop_upstream example_hop)))"
  by (simp add: example_hop_def example_down_def example_list_def example_upstream_def wf_entries_def)

lemma example_hop_sel: "entries_selected example_down example_list t hold = None"
  by (simp add: entries_selected_def select_None_iff verdicts_of_def example_down_def
      example_list_def verdict_def is_up_def)

lemma example_hop_required:
  "hop_required example_hop 5 =
     Some \<lparr> ue_upstream = example_upstream 10, ue_health = 0 \<rparr>"
  apply (simp add: hop_required_def example_hop_def example_hop_sel entries_required_def
      entries_at_def entries_first_def nth_opt_def)
  apply (simp add: example_list_def)
  done

theorem dial_judges_its_entry_witness:
  "verdict (hop_heap (fst (hop_dial example_network example_hop 5 6 ''h'' 80
       (Upstream Require 3)))) 0 = \<lparr> h_state = Up, h_changed_at = 6 \<rparr>
   \<and> verdict (hop_heap (fst (hop_dial example_network example_hop 5 6 ''h'' 80
       (Upstream Require 3)))) 1 = \<lparr> h_state = Down, h_changed_at = 2 \<rparr>"
proof -
  let ?d = "\<lparr> ue_upstream = example_upstream 10, ue_health = 0 \<rparr>"
  let ?e = "\<lparr> ue_upstream = example_upstream 11, ue_health = 1 \<rparr>"
  have dialled: "dialled_entry example_hop 5 (Upstream Require 3) = Some ?d"
    by (simp add: dialled_entry_def example_hop_required)
  have answer: "entry_answer example_network ''h'' 80 (Upstream Require 3) ?d = Inr ''stream''"
    by (simp add: entry_answer_def through_def example_network_def)
  have d: "?d \<in> set (ues_entries (arc_val (hop_upstream example_hop)))"
    and e: "?e \<in> set (ues_entries (arc_val (hop_upstream example_hop)))"
    by (simp_all add: example_hop_def example_list_def)
  show ?thesis
    using dial_judges_its_entry [OF example_hop_wf dialled d, of example_network 6 "''h''" 80]
      dial_judges_its_entry [OF example_hop_wf dialled e, of example_network 6 "''h''" 80]
    unfolding answer
    by (simp add: example_upstream_def observe_health_def verdict_def example_hop_def
        example_down_def)
qed

theorem require_revives_witness:
  "entries_selected
    (hop_heap (fst (hop_dial example_network example_hop 5 6 ''h'' 80 (Upstream Require 3))))
    (arc_val (hop_upstream example_hop)) 7 RETURN_HOLD = Some 0"
proof (rule require_revives [OF example_hop_wf])
  show "hop_verdict example_hop 5 = Down"
    by (simp add: hop_verdict_def example_hop_def example_hop_sel)
  show "ues_entries (arc_val (hop_upstream example_hop)) =
      \<lparr> ue_upstream = example_upstream 10, ue_health = 0 \<rparr>
      # [\<lparr> ue_upstream = example_upstream 11, ue_health = 1 \<rparr>]"
    by (simp add: example_hop_def example_list_def)
  show "dial_verdict (through example_network ''h'' 80
      (socket (ue_upstream \<lparr> ue_upstream = example_upstream 10, ue_health = 0 \<rparr>)) BudgetRequire)
      = Some Up"
    by (simp add: through_def example_network_def dial_verdict_def)
qed

end
