(* ===== verification/SystemProxy.thy ===== *)
theory SystemProxy
  imports Proxy
begin

section \<open>The macOS system proxy: \<open>cli/system_proxy.rs\<close>\<close>

text \<open>
  The invocations of \<open>networksetup\<close> that point a network service at the front ends or turn its
  settings off, and the reader of its reports.  The program itself is the parameter \<open>run\<close>: given
  a flag, the arguments and the settings it keeps, it leaves new settings and an exit status with
  what it printed, or cannot be run.  How an exit status reads as text is the library's, so a
  status carries its text.
\<close>

record exit_status =
  es_code :: "int option"
  es_text :: string

definition es_success :: "exit_status \<Rightarrow> bool" where
  "es_success status \<longleftrightarrow> es_code status = Some 0"

record tool_output =
  out_status :: exit_status
  out_stdout :: string

type_synonym network_service = string
type_synonym 'm networksetup = "string \<Rightarrow> string list \<Rightarrow> 'm \<Rightarrow> 'm \<times> (io_error, tool_output) res"

definition DEFAULT_SERVICE :: network_service where "DEFAULT_SERVICE = ''Wi-Fi''"

definition BYPASS :: "string list" where
  "BYPASS = [''localhost'', ''127.0.0.1'', ''*.local'', ''169.254/16'']"

definition BYPASS_FLAG :: string where "BYPASS_FLAG = ''-setproxybypassdomains''"

text \<open>\<open>NetworkService::from_str\<close>.\<close>

definition parse_service :: "string \<Rightarrow> network_service option" where
  "parse_service service = (if service = [] then None else Some service)"

datatype proxy_kind = KindHttp | KindHttps | KindSocks

fun read_flag :: "proxy_kind \<Rightarrow> string" where
  "read_flag KindHttp = ''-getwebproxy''"
| "read_flag KindHttps = ''-getsecurewebproxy''"
| "read_flag KindSocks = ''-getsocksfirewallproxy''"

fun write_flag :: "proxy_kind \<Rightarrow> string" where
  "write_flag KindHttp = ''-setwebproxy''"
| "write_flag KindHttps = ''-setsecurewebproxy''"
| "write_flag KindSocks = ''-setsocksfirewallproxy''"

fun state_flag :: "proxy_kind \<Rightarrow> string" where
  "state_flag KindHttp = ''-setwebproxystate''"
| "state_flag KindHttps = ''-setsecurewebproxystate''"
| "state_flag KindSocks = ''-setsocksfirewallproxystate''"

datatype privilege = Root | Unprivileged

definition privilege_current :: "nat \<Rightarrow> privilege" where
  "privilege_current euid = (if euid = 0 then Root else Unprivileged)"

subsection \<open>Writing the settings\<close>

record invocation =
  in_flag :: string
  in_arguments :: "string list"

definition invocation_argv :: "invocation \<Rightarrow> string list" where
  "invocation_argv i = in_flag i # in_arguments i"

definition new_invocation :: "string \<Rightarrow> network_service \<Rightarrow> string list \<Rightarrow> invocation" where
  "new_invocation flag service rest = \<lparr> in_flag = flag, in_arguments = service # rest \<rparr>"

definition enabling :: "listen \<Rightarrow> network_service \<Rightarrow> invocation list" where
  "enabling addrs service =
     map (\<lambda>(kind, addr).
            new_invocation (write_flag kind) service [show_ip (sock_ip addr), show_u16 (sock_port addr)])
       [(KindHttp, l_http addrs), (KindHttps, l_http addrs), (KindSocks, l_socks addrs)]
     @ [new_invocation BYPASS_FLAG service BYPASS]"

definition disabling :: "network_service \<Rightarrow> invocation list" where
  "disabling service =
     map (\<lambda>kind. new_invocation (state_flag kind) service [''off'']) [KindHttp, KindHttps, KindSocks]"

datatype proxy_failure =
    ProxyNotRun io_error
  | ProxyRefused string exit_status
  | ProxyUnreadable string

fun show_proxy_failure :: "proxy_failure \<Rightarrow> string" where
  "show_proxy_failure (ProxyNotRun failure) = ''cannot run networksetup: '' @ ie_text failure"
| "show_proxy_failure (ProxyRefused flag status) =
     ''networksetup '' @ flag @ '' exited with '' @ es_text status"
| "show_proxy_failure (ProxyUnreadable flag) =
     ''networksetup '' @ flag @ '' answered with something that is not utf-8''"

text \<open>\<open>apply\<close>, which stops at the first invocation that does not succeed.\<close>

fun apply_invocations ::
  "'m networksetup \<Rightarrow> invocation list \<Rightarrow> 'm \<Rightarrow> 'm \<times> (proxy_failure, unit) res" where
  "apply_invocations run [] m = (m, Ok ())"
| "apply_invocations run (i # invocations) m =
     (case run (in_flag i) (in_arguments i) m of
        (m, Inl failure) \<Rightarrow> (m, Err (ProxyNotRun failure))
      | (m, Inr printed) \<Rightarrow>
          (if \<not> es_success (out_status printed)
           then (m, Err (ProxyRefused (in_flag i) (out_status printed)))
           else apply_invocations run invocations m))"

subsection \<open>Reading the settings\<close>

record proxy_endpoint =
  pe_host :: string
  pe_port :: u16

definition show_endpoint :: "proxy_endpoint \<Rightarrow> string" where
  "show_endpoint e = pe_host e @ '':'' @ show_u16 (pe_port e)"

record system_proxy =
  sp_http :: "proxy_endpoint option"
  sp_https :: "proxy_endpoint option"
  sp_socks :: "proxy_endpoint option"

definition system_proxy_default :: system_proxy where
  "system_proxy_default = \<lparr> sp_http = None, sp_https = None, sp_socks = None \<rparr>"

definition system_proxy_show_view :: "system_proxy \<Rightarrow> system_proxy_view" where
  "system_proxy_show_view p =
     \<lparr> spv_http = map_option show_endpoint (sp_http p),
       spv_https = map_option show_endpoint (sp_https p),
       spv_socks = map_option show_endpoint (sp_socks p) \<rparr>"

text \<open>\<open>str::lines\<close>: a final newline ends the last line, and a carriage return before one goes too.\<close>

definition drop_cr :: "string \<Rightarrow> string" where
  "drop_cr l = (case strip_suffix [CR] l of None \<Rightarrow> l | Some r \<Rightarrow> r)"

fun lines_from :: "string \<Rightarrow> string \<Rightarrow> string list" where
  "lines_from seen [] = (if seen = [] then [] else [rev seen])"
| "lines_from seen (c # cs) =
     (if c = LF then drop_cr (rev seen) # lines_from [] cs else lines_from (c # seen) cs)"

definition str_lines :: "string \<Rightarrow> string list" where
  "str_lines s = lines_from [] s"

text \<open>One turn of the loop of \<open>parse\<close>, on what was read so far.\<close>

definition read_field :: "bool \<times> string \<times> u16 \<Rightarrow> string \<Rightarrow> bool \<times> string \<times> u16" where
  "read_field found line =
     (let (enabled, host, port) = found in
      case split_once (CHR '':'') line of
        None \<Rightarrow> found
      | Some (field, val) \<Rightarrow>
          (let field = trim field; val = trim val in
           if field = ''Enabled'' then (val = ''Yes'', host, port)
           else if field = ''Server'' then (enabled, val, port)
           else if field = ''Port''
           then (enabled, host, case parse_u16 val of None \<Rightarrow> 0 | Some p \<Rightarrow> p)
           else found))"

definition parse_report :: "string \<Rightarrow> proxy_endpoint option" where
  "parse_report reported =
     (let (enabled, host, port) = foldl read_field (False, [], 0) (str_lines reported) in
      if \<not> enabled \<or> host = [] \<or> port = 0 then None
      else Some \<lparr> pe_host = host, pe_port = port \<rparr>)"

definition read_kind ::
  "'m networksetup \<Rightarrow> proxy_kind \<Rightarrow> network_service \<Rightarrow> 'm \<Rightarrow> 'm \<times> (proxy_failure, string) res" where
  "read_kind run kind service m =
     (let flag = read_flag kind in
      case run flag [service] m of
        (m, Inl failure) \<Rightarrow> (m, Err (ProxyNotRun failure))
      | (m, Inr printed) \<Rightarrow>
          (m, if \<not> es_success (out_status printed) then Err (ProxyRefused flag (out_status printed))
              else if utf8 (out_stdout printed) then Ok (out_stdout printed)
              else Err (ProxyUnreadable flag)))"

definition networksetup_read ::
  "'m networksetup \<Rightarrow> network_service \<Rightarrow> 'm \<Rightarrow> 'm \<times> (proxy_failure, system_proxy) res" where
  "networksetup_read run service m =
     (case read_kind run KindHttp service m of
        (m, Inl failure) \<Rightarrow> (m, Err failure)
      | (m, Inr http) \<Rightarrow>
          (case read_kind run KindHttps service m of
             (m, Inl failure) \<Rightarrow> (m, Err failure)
           | (m, Inr https) \<Rightarrow>
               (case read_kind run KindSocks service m of
                  (m, Inl failure) \<Rightarrow> (m, Err failure)
                | (m, Inr socks) \<Rightarrow>
                    (m, Ok \<lparr> sp_http = parse_report http, sp_https = parse_report https,
                             sp_socks = parse_report socks \<rparr>))))"

text \<open>The reader of a machine without \<open>networksetup\<close>.\<close>

definition no_system_proxy :: "network_service \<Rightarrow> (proxy_failure, system_proxy) res" where
  "no_system_proxy service = Ok system_proxy_default"

subsection \<open>Reading back what was written\<close>

lemma lines_from_app: "LF \<notin> set l \<Longrightarrow> lines_from seen (l @ LF # r) = drop_cr (rev seen @ l) # lines_from [] r"
  by (induction l arbitrary: seen) auto

lemma str_lines_cons: "LF \<notin> set l \<Longrightarrow> str_lines (l @ LF # r) = drop_cr l # str_lines r"
  using lines_from_app [of l "[]" r] by (simp add: str_lines_def)

lemma drop_cr_id: "CR \<notin> set l \<Longrightarrow> drop_cr l = l"
  by (auto simp: drop_cr_def strip_suffix_def suffix_def)

text \<open>
  The report \<open>networksetup\<close> prints for a setting that is on, as its manual shows it.
\<close>

definition report_of :: "string \<Rightarrow> string \<Rightarrow> string" where
  "report_of host port =
     ''Enabled: Yes'' @ [LF] @ ''Server: '' @ host @ [LF] @ ''Port: '' @ port @ [LF]
     @ ''Authenticated Proxy Enabled: 0'' @ [LF]"

lemma addr_char_plain:
  "addr_char c \<Longrightarrow> \<not> is_whitespace c \<and> c \<noteq> LF \<and> c \<noteq> CR \<and> c \<noteq> CHR ''[''"
  by (auto simp: addr_char_def hex_digit_def is_whitespace_def Let_def split: if_splits)

lemma show_nat_addr: "\<forall>c \<in> set (show_nat n). addr_char c"
  using show_nat_dec [of n] by (auto intro: dec_addr_char)

lemma show_ipv4_addr: "\<forall>c \<in> set (show_ipv4 a). addr_char c"
  using show_nat_addr by (cases a) (auto simp: show_u8_def addr_char_def)

lemma hex_char_addr: "n < 16 \<Longrightarrow> addr_char (hex_char n)"
proof -
  have "\<forall>n \<in> set [0..<16]. addr_char (hex_char n)" by code_simp
  then show "n < 16 \<Longrightarrow> addr_char (hex_char n)" by simp
qed

lemma show_hex_addr: "show_hex n \<noteq> [] \<and> (\<forall>c \<in> set (show_hex n). addr_char c)"
proof (induction n rule: show_hex.induct)
  case (1 n)
  then show ?case
    using show_hex.simps [of n] hex_char_addr [of n] hex_char_addr [of "n mod 16"]
    by (cases "n < 16") auto
qed

lemma show_groups_addr: "\<forall>c \<in> set (show_groups gs). addr_char c"
  using show_hex_addr by (induction gs rule: show_groups.induct) (auto simp: addr_char_def)

lemma show_groups_ne: "gs \<noteq> [] \<Longrightarrow> show_groups gs \<noteq> []"
  using show_hex_addr by (induction gs rule: show_groups.induct) auto

lemma show_ip_addr: "show_ip a \<noteq> [] \<and> (\<forall>c \<in> set (show_ip a). addr_char c)"
proof (cases a)
  case (V4 a4)
  then show ?thesis using show_ipv4_addr [of a4] by (cases a4) (simp add: show_u8_def)
next
  case (V6 a6)
  have "segments a6 \<noteq> []" by (cases a6) simp
  then show ?thesis
    using V6 show_ipv4_addr show_groups_addr
    by (auto simp: show_ipv6_def show_groups_ne split: option.splits prod.splits if_splits
        intro: show_groups_addr [THEN bspec]) (simp_all add: addr_char_def hex_digit_def)
qed

lemma trim_space: "\<forall>c \<in> set s. \<not> is_whitespace c \<Longrightarrow> trim (CHR '' '' # s) = s"
  using trim_id [of s] by (simp add: trim_def trim_start_def is_whitespace_def [of "CHR '' ''"])

text \<open>A host and port written to a setting read back as the endpoint they name.\<close>

lemma parse_report_of:
  assumes "host \<noteq> []" and "\<forall>c \<in> set host. addr_char c" and "port \<noteq> 0"
  shows "parse_report (report_of host (show_u16 port)) = Some \<lparr> pe_host = host, pe_port = port \<rparr>"
proof -
  have port_addr: "\<forall>c \<in> set (show_u16 port). addr_char c"
    by (simp add: show_u16_def show_nat_addr)
  have line: "str_lines (l @ LF # r) = l # str_lines r" if "LF \<notin> set l" "CR \<notin> set l" for l r
    using that by (simp add: str_lines_cons drop_cr_id)
  have plain: "LF \<notin> set l \<and> CR \<notin> set l" if "\<forall>c \<in> set l. addr_char c" for l
    using that addr_char_plain by blast
  have "str_lines (report_of host (show_u16 port)) =
      [''Enabled: Yes'', ''Server: '' @ host, ''Port: '' @ show_u16 port,
       ''Authenticated Proxy Enabled: 0'']"
  proof -
    let ?auth = "''Authenticated Proxy Enabled: 0''"
    have "report_of host (show_u16 port) =
        ''Enabled: Yes'' @ LF # ((''Server: '' @ host) @ LF # ((''Port: '' @ show_u16 port) @ LF
          # (?auth @ LF # [])))"
      by (simp add: report_of_def)
    moreover have "str_lines (''Enabled: Yes'' @ LF # r) = ''Enabled: Yes'' # str_lines r" for r
      by (rule line) simp_all
    moreover have "str_lines ((''Server: '' @ host) @ LF # r) = (''Server: '' @ host) # str_lines r" for r
      by (rule line) (use plain [OF assms(2)] in simp_all)
    moreover have "str_lines ((''Port: '' @ show_u16 port) @ LF # r)
        = (''Port: '' @ show_u16 port) # str_lines r" for r
      by (rule line) (use plain [OF port_addr] in simp_all)
    moreover have "str_lines (?auth @ LF # []) = [?auth]" by code_simp
    ultimately show ?thesis by (simp only:)
  qed
  moreover have trimmed: "trim (CHR '' '' # s) = s" if "\<forall>c \<in> set s. addr_char c" for s
    using that addr_char_plain by (intro trim_space) blast
  moreover have field: "trim ''Server'' = ''Server''" "trim ''Port'' = ''Port''" by code_simp+
  moreover have "read_field (e, h, p) ''Enabled: Yes'' = (True, h, p)" for e h p by code_simp
  moreover have "read_field (e, h, p) (''Server: '' @ host) = (e, host, p)" for e h p
    using trimmed [OF assms(2)] by (simp add: read_field_def field)
  moreover have "read_field (e, h, p) (''Port: '' @ show_u16 port) = (e, h, port)" for e h p
    using trimmed [OF port_addr] by (simp add: read_field_def field)
  moreover have "read_field (e, h, p) ''Authenticated Proxy Enabled: 0'' = (e, h, p)" for e h p
    by code_simp
  ultimately show ?thesis using assms by (simp add: parse_report_def)
qed

text \<open>A list of invocations is applied up to the first that does not succeed.\<close>

lemma apply_invocations_append:
  "apply_invocations run (is @ js) m =
     (case apply_invocations run is m of
        (m, Inl failure) \<Rightarrow> (m, Err failure)
      | (m, Inr _) \<Rightarrow> apply_invocations run js m)"
  by (induction run "is" m rule: apply_invocations.induct) (auto split: prod.splits sum.splits)

end
