(* ===== verification/Views.thy ===== *)
theory Views
  imports Dialer SystemProxy
begin

section \<open>What the daemon reports about itself: \<open>cli/explain.rs\<close> and \<open>cli/status.rs\<close>\<close>

text \<open>
  The rule list, the answer of \<open>nhop test\<close> and the status document, all computed from the
  published ruleset and upstream list without opening a connection.
\<close>

subsection \<open>Rules and decisions\<close>

definition NO_UPSTREAM_NAME :: string where "NO_UPSTREAM_NAME = ''none''"

definition indexed :: "rule_id \<Rightarrow> nat" where
  "indexed rule = clamp32 rule"

definition rule_views :: "'net ruleset \<Rightarrow> rule_view list" where
  "rule_views rules =
     map (\<lambda>r. \<lparr> rv_index = indexed (rule_id r), rv_class = rule_class r, rv_kind = rule_kind r,
                 rv_value = rule_value r \<rparr>) rules"

definition dialled_text :: "host \<Rightarrow> port \<Rightarrow> string" where
  "dialled_text host port =
     (if List.member host (CHR '':'') then ''['' @ host @ '']:'' @ show_u16 port
      else host @ '':'' @ show_u16 port)"

definition named_upstream :: "upstream_addr option \<Rightarrow> string" where
  "named_upstream upstream = (case upstream of None \<Rightarrow> NO_UPSTREAM_NAME | Some addr \<Rightarrow> addr)"

definition decision_view ::
  "('net, 'a) ipnet_scheme \<Rightarrow> 'net ruleset \<Rightarrow> upstream_addr option \<Rightarrow> host \<Rightarrow> port \<Rightarrow> decision_view" where
  "decision_view ipnet rules upstream host port =
     (case decide ipnet rules host port of
        Direct \<Rightarrow>
          \<lparr> dv_decision = KDirect, dv_rule_index = None, dv_class = None,
            dv_next_hop = dialled_text host port \<rparr>
      | NeverRule rule \<Rightarrow>
          \<lparr> dv_decision = KNever, dv_rule_index = Some (indexed rule), dv_class = Some Never,
            dv_next_hop = dialled_text host port \<rparr>
      | Upstream class rule \<Rightarrow>
          (case class of
             Never \<Rightarrow>
               \<lparr> dv_decision = KNever, dv_rule_index = Some (indexed rule), dv_class = Some class,
                 dv_next_hop = dialled_text host port \<rparr>
           | _ \<Rightarrow>
               \<lparr> dv_decision = KUpstream, dv_rule_index = Some (indexed rule),
                 dv_class = Some class, dv_next_hop = named_upstream upstream \<rparr>))"

subsection \<open>Status\<close>

text \<open>\<open>BindState\<close> of \<open>daemon/state.rs\<close>.\<close>

datatype bind_state = IsBound | IsUnbound

fun is_bound :: "bind_state \<Rightarrow> bool" where
  "is_bound IsBound = True"
| "is_bound IsUnbound = False"

record daemon_status =
  ds_uptime_secs :: nat
  ds_listen :: listen
  ds_bound :: bind_state
  ds_forwards :: forwards
  ds_upstream :: upstream_addr
  ds_health :: health
  ds_upstreams :: "upstream_view list"
  ds_init_path :: "path option"
  ds_last_load :: "last_load_view option"
  ds_rules :: rule_counts_view

definition status_show_view :: "daemon_status \<Rightarrow> system_proxy \<Rightarrow> status_view" where
  "status_show_view s proxy =
     \<lparr> sv_uptime_secs = ds_uptime_secs s,
       sv_http_listen = l_http (ds_listen s), sv_http_bound = is_bound (ds_bound s),
       sv_socks_listen = l_socks (ds_listen s), sv_socks_bound = is_bound (ds_bound s),
       sv_forwards = forwards_views (ds_forwards s),
       sv_upstream = ds_upstream s, sv_health = h_state (ds_health s),
       sv_health_changed_at = h_changed_at (ds_health s), sv_upstreams = ds_upstreams s,
       sv_init_path = ds_init_path s, sv_last_load = ds_last_load s, sv_rules = ds_rules s,
       sv_system_proxy = system_proxy_show_view proxy \<rparr>"

fun upstream_views_from ::
  "heap \<Rightarrow> nat option \<Rightarrow> nat \<Rightarrow> upstream_entry list \<Rightarrow> upstream_view list" where
  "upstream_views_from heap selected index [] = []"
| "upstream_views_from heap selected index (entry # entries) =
     (let verdict = verdict heap (ue_health entry) in
      \<lparr> uv_addr = written (ue_upstream entry), uv_health = h_state verdict,
        uv_health_changed_at = h_changed_at verdict, uv_selected = (selected = Some index) \<rparr>
      # upstream_views_from heap selected (Suc index) entries)"

definition upstream_views :: "heap \<Rightarrow> upstream_entries \<Rightarrow> nat option \<Rightarrow> upstream_view list" where
  "upstream_views heap entries selected = upstream_views_from heap selected 0 (ues_entries entries)"

lemma upstream_views_from_nth:
  "i < length entries \<Longrightarrow> upstream_views_from heap selected k entries ! i =
     \<lparr> uv_addr = written (ue_upstream (entries ! i)),
       uv_health = h_state (verdict heap (ue_health (entries ! i))),
       uv_health_changed_at = h_changed_at (verdict heap (ue_health (entries ! i))),
       uv_selected = (selected = Some (k + i)) \<rparr>"
  by (induction heap selected k entries arbitrary: i rule: upstream_views_from.induct)
    (auto simp: nth_Cons Let_def split: nat.split)

lemma upstream_views_from_length [simp]:
  "length (upstream_views_from heap selected k entries) = length entries"
  by (induction heap selected k entries rule: upstream_views_from.induct) (auto simp: Let_def)

subsection \<open>The daemon's answers\<close>

text \<open>\<open>DaemonState::decision\<close>: the upstream named is the one a \<open>require\<close> dial made now goes through.\<close>

definition test_decision ::
  "('net, 'a) ipnet_scheme \<Rightarrow> 'net ruleset \<Rightarrow> heap \<Rightarrow> upstream_entries arc \<Rightarrow> duration \<Rightarrow> time
     \<Rightarrow> host \<Rightarrow> port \<Rightarrow> decision_view" where
  "test_decision ipnet rules heap live hold now host port =
     (let entries = arc_val (live_upstream_snapshot live);
          selected = entries_selected heap entries now hold;
          upstream = map_option (\<lambda>e. written (ue_upstream e)) (entries_required entries selected)
      in decision_view ipnet rules upstream host port)"

text \<open>The sole pair a status reports on its own: the first entry.\<close>

definition status_first :: "heap \<Rightarrow> upstream_entries \<Rightarrow> health \<Rightarrow> upstream_addr \<times> health" where
  "status_first heap entries unconfigured =
     (case entries_first entries of
        None \<Rightarrow> ([], unconfigured)
      | Some entry \<Rightarrow> (written (ue_upstream entry), verdict heap (ue_health entry)))"

lemma test_upstream:
  "map_option (\<lambda>e. written (ue_upstream e)) (hop_required hop now) =
     (let entries = arc_val (hop_upstream hop) in
      map_option (\<lambda>e. written (ue_upstream e))
        (entries_required entries (entries_selected (hop_heap hop) entries now (hop_hold hop))))"
  by (simp add: hop_required_def Let_def)

lemma test_decision_hop:
  "test_decision ipnet rules (hop_heap hop) (hop_upstream hop) (hop_hold hop) now host port =
     decision_view ipnet rules (map_option (\<lambda>e. written (ue_upstream e)) (hop_required hop now)) host port"
  by (simp add: test_decision_def live_upstream_snapshot_def test_upstream Let_def)

lemma reported_via_required:
  "reported_via (snd (snd (required net heap now host port rule (Some e)))) = Some (written (ue_upstream e))"
  by (simp add: required_def reported_via_def carried_def Let_def split: prod.split)

lemma reported_via_preferred:
  "reported_via (snd (snd (preferred net heap now host port selected))) \<in>
     {None, map_option (\<lambda>e. written (ue_upstream e)) selected}"
  by (auto simp: preferred_def reported_via_def carried_def fallen_back_def Let_def
      split: option.splits prod.splits sum.splits)

subsection \<open>Properties\<close>

text \<open>C22: \<open>nhop test\<close> tells the truth about a dial made at the same instant.  Whatever the rules
  decide, an upstream that carries the connection is the one the answer names; for a \<open>require\<close> rule
  the answer names the upstream the dial goes through, or \<open>none\<close> exactly when no upstream is
  configured and the dial is refused; a \<open>prefer\<close> rule is never refused; and a destination
  answered as direct or never is dialled
  directly.\<close>

theorem test_agrees_with_dial:
  fixes ipnet :: "('net, 'a) ipnet_scheme"
  shows "let d = decide ipnet rules host port;
           view = test_decision ipnet rules (hop_heap hop) (hop_upstream hop) (hop_hold hop) now host port;
           outcome = snd (hop_dial net hop now later host port d)
       in reported_via outcome \<in> {None, Some (dv_next_hop view)}
        \<and> (if dv_decision view \<noteq> KUpstream then reported_hop outcome = Some HopDirect
           else if dv_class view = Some Prefer then refusal outcome = None
           else if ues_entries (arc_val (hop_upstream hop)) = []
           then dv_next_hop view = ''none'' \<and> refusal outcome \<noteq> None
           else reported_via outcome = Some (dv_next_hop view))"
proof (cases "decide ipnet rules host port")
  case (Upstream c r)
  show ?thesis
  proof (cases c)
    case Require
    show ?thesis
    proof (cases "hop_required hop now")
      case None
      then have "ues_entries (arc_val (hop_upstream hop)) = []" using hop_required_None by blast
      with None Upstream Require show ?thesis
        by (simp add: test_decision_hop decision_view_def hop_dial_def snd_routed required_def
            reported_via_def refusal_def named_upstream_def NO_UPSTREAM_NAME_def Let_def)
    next
      case (Some e)
      then have "ues_entries (arc_val (hop_upstream hop)) \<noteq> []" using hop_required_None [of hop now] by simp
      with Some Upstream Require show ?thesis
        by (simp add: test_decision_hop decision_view_def hop_dial_def snd_routed
            reported_via_required named_upstream_def Let_def)
    qed
  next
    case Prefer
    have "map_option (\<lambda>e. written (ue_upstream e)) (hop_at hop now) \<in>
        {None, map_option (\<lambda>e. written (ue_upstream e)) (hop_required hop now)}"
      using hop_at_Some_required [of hop now] by (cases "hop_at hop now") auto
    moreover have "refusal (snd (snd (preferred net (hop_heap hop) later host port e))) = None" for e
      by (auto simp: preferred_def refusal_def fallen_back_def Let_def
          split: option.splits prod.splits sum.splits)
    ultimately show ?thesis
      using Prefer Upstream reported_via_preferred [of net "hop_heap hop" later host port "hop_at hop now"]
      by (cases "hop_required hop now")
        (auto simp: test_decision_hop decision_view_def hop_dial_def snd_routed named_upstream_def Let_def)
  next
    case Never
    then show ?thesis
      using Upstream by (simp add: test_decision_hop decision_view_def hop_dial_def snd_routed
          reported_via_def reported_hop_def Let_def)
  qed
qed (simp_all add: test_decision_hop decision_view_def hop_dial_def reported_via_def reported_hop_def
    Let_def)

end
