(* ===== verification/Doctor.thy ===== *)
theory Doctor
  imports Views
begin

unbundle bit_operations_syntax

section \<open>The diagnostic checks: \<open>cli/doctor.rs\<close>\<close>

text \<open>
  The seven checks \<open>nhop doctor\<close> reports, what each one observes, the fixed order of the report and
  the exit code.  The file system is the parameter \<open>fs\<close> (the metadata of a path and the path's
  parent), a TCP connect to an upstream is the parameter \<open>tcp\<close> (nothing within the budget, a
  connection or a failure) and the text of an instant is the parameter \<open>rfc3339\<close>, which a library
  renders.
\<close>

subsection \<open>Exit codes\<close>

text \<open>\<open>Exit\<close> of \<open>cli/mod.rs\<close>.\<close>

datatype exit = Success | Failed | Missing | ExitUpstreamDown | ExitInvalidArgs

fun exit_code :: "exit \<Rightarrow> nat" where
  "exit_code Success = 0"
| "exit_code Failed = 1"
| "exit_code Missing = 2"
| "exit_code ExitUpstreamDown = 3"
| "exit_code ExitInvalidArgs = 4"

subsection \<open>The report\<close>

datatype check =
    DaemonReachable | PortsBound | SystemProxy | UpstreamReachable | InitFile | LastLoad
  | LogWritable

definition CHECKS :: "check list" where
  "CHECKS = [DaemonReachable, PortsBound, SystemProxy, UpstreamReachable, InitFile, LastLoad,
             LogWritable]"

fun check_name :: "check \<Rightarrow> string" where
  "check_name DaemonReachable = ''daemon_reachable''"
| "check_name PortsBound = ''ports_bound''"
| "check_name SystemProxy = ''system_proxy''"
| "check_name UpstreamReachable = ''upstream_reachable''"
| "check_name InitFile = ''init_file''"
| "check_name LastLoad = ''last_load''"
| "check_name LogWritable = ''log_writable''"

datatype outcome = Passed | FailedCheck

fun outcome_ok :: "outcome \<Rightarrow> bool" where
  "outcome_ok Passed = True"
| "outcome_ok FailedCheck = False"

record finding =
  fd_check :: check
  fd_outcome :: outcome
  fd_detail :: string

definition passed :: "check \<Rightarrow> string \<Rightarrow> finding" where
  "passed c detail = \<lparr> fd_check = c, fd_outcome = Passed, fd_detail = detail \<rparr>"

definition failed :: "check \<Rightarrow> string \<Rightarrow> finding" where
  "failed c detail = \<lparr> fd_check = c, fd_outcome = FailedCheck, fd_detail = detail \<rparr>"

definition NOT_CHECKED :: string where "NOT_CHECKED = ''not checked, the daemon did not answer''"

fun found_in :: "check \<Rightarrow> finding list \<Rightarrow> finding option" where
  "found_in c [] = None"
| "found_in c (finding # findings) =
     (if fd_check finding = c then Some finding else found_in c findings)"

definition check_show_view :: "check \<Rightarrow> finding list \<Rightarrow> check_view" where
  "check_show_view c findings =
     (case found_in c findings of
        None \<Rightarrow> \<lparr> cv_name = check_name c, cv_ok = False, cv_detail = NOT_CHECKED \<rparr>
      | Some finding \<Rightarrow>
          \<lparr> cv_name = check_name c, cv_ok = outcome_ok (fd_outcome finding),
            cv_detail = fd_detail finding \<rparr>)"

definition doctor_report :: "finding list \<Rightarrow> check_view list" where
  "doctor_report findings = map (\<lambda>c. check_show_view c findings) CHECKS"

fun count_failed :: "check_view list \<Rightarrow> nat \<times> nat" where
  "count_failed [] = (0, 0)"
| "count_failed (v # views) =
     (let (failed, beyond) = count_failed views in
      if cv_ok v then (failed, beyond)
      else (Suc failed,
            if cv_name v \<noteq> check_name UpstreamReachable then Suc beyond else beyond))"

definition exit_of :: "check_view list \<Rightarrow> exit" where
  "exit_of checks =
     (let (failed, beyond_the_upstream) = count_failed checks in
      if failed = 0 then Success
      else if beyond_the_upstream = 0 then ExitUpstreamDown
      else Failed)"

subsection \<open>The checks of the daemon\<close>

definition daemon_reachable :: "path \<Rightarrow> finding" where
  "daemon_reachable socket_file =
     passed DaemonReachable (''the daemon answered on '' @ socket_file)"

definition unreachable :: "string \<Rightarrow> finding" where
  "unreachable failure = failed DaemonReachable (failure @ '', run `nhop start`'')"

definition forwarded_text :: "forwards \<Rightarrow> string" where
  "forwarded_text forwards =
     concat (map (\<lambda>f. '', forward on '' @ show_socket (f_listen f) @ '' to ''
                      @ t_host (f_target f) @ '':'' @ show_u16 (t_port (f_target f))) forwards)"

definition ports_bound :: "listen \<Rightarrow> forwards \<Rightarrow> bind_state \<Rightarrow> finding" where
  "ports_bound addrs forwards bound =
     (case bound of
        IsBound \<Rightarrow>
          passed PortsBound
            (''http on '' @ show_socket (l_http addrs) @ '', socks5 on ''
             @ show_socket (l_socks addrs) @ forwarded_text forwards)
      | IsUnbound \<Rightarrow>
          failed PortsBound
            (''nothing is listening on '' @ show_socket (l_http addrs) @ '' or ''
             @ show_socket (l_socks addrs) @ '', restart the daemon''))"

fun join_with :: "string \<Rightarrow> string list \<Rightarrow> string" where
  "join_with sep [] = []"
| "join_with sep [s] = s"
| "join_with sep (s # ss) = s @ sep @ join_with sep ss"

text \<open>One turn of the loop over the three settings: what is wrong with one of them, if anything.\<close>

definition wrong_setting :: "string \<Rightarrow> proxy_endpoint option \<Rightarrow> socket_addr \<Rightarrow> string option" where
  "wrong_setting name configured wanted =
     (case configured of
        None \<Rightarrow> Some (name @ '' is off'')
      | Some configured \<Rightarrow>
          (let configured = show_endpoint configured in
           if configured = show_socket wanted then None
           else Some (name @ '' points at '' @ configured @ '', not at '' @ show_socket wanted)))"

definition check_system_proxy ::
  "(proxy_failure, system_proxy) res \<Rightarrow> listen \<Rightarrow> network_service \<Rightarrow> finding" where
  "check_system_proxy reading addrs service =
     (case reading of
        Inl failure \<Rightarrow>
          failed SystemProxy
            (''cannot read the settings of '' @ service @ '': '' @ show_proxy_failure failure)
      | Inr proxy \<Rightarrow>
          (let http = l_http addrs; socks = l_socks addrs;
               wrong = List.map_filter id
                 [wrong_setting ''http'' (sp_http proxy) http,
                  wrong_setting ''https'' (sp_https proxy) http,
                  wrong_setting ''socks'' (sp_socks proxy) socks]
           in if wrong = [] then
                passed SystemProxy
                  (service @ '' sends http and https to '' @ show_socket http @ '' and socks to ''
                   @ show_socket socks)
              else
                failed SystemProxy
                  (service @ '': '' @ join_with '', '' wrong @ '', run `sudo nhop proxy on`'')))"

subsection \<open>The check of the upstreams\<close>

datatype reach = Answered | Silent | Refused io_error

type_synonym tcp = "duration \<Rightarrow> socket_addr \<Rightarrow> (io_error, unit) res option"

definition reach_upstream :: "tcp \<Rightarrow> socket_addr \<Rightarrow> reach" where
  "reach_upstream tcp upstream =
     (case tcp PREFER_CONNECT_TIMEOUT upstream of
        None \<Rightarrow> Silent
      | Some (Inr stream) \<Rightarrow> Answered
      | Some (Inl failure) \<Rightarrow> Refused failure)"

fun verdict_name :: "health_state \<Rightarrow> string" where
  "verdict_name Up = ''up''"
| "verdict_name Down = ''down''"

definition local_network :: "io_error \<Rightarrow> string" where
  "local_network failure =
     (case ie_kind failure of
        HostUnreachable \<Rightarrow>
          '' - macOS reports a denied Local Network permission as a routing error, so grant nhop '' @
          ''Local Network access in System Settings > Privacy & Security and check that the '' @
          ''binary is signed''
      | _ \<Rightarrow> [])"

definition refusal_text :: "string \<Rightarrow> socket_addr \<Rightarrow> io_error \<Rightarrow> string" where
  "refusal_text name upstream failure =
     ''cannot reach '' @ name @ '' on '' @ show_socket upstream @ '': '' @ ie_text failure
     @ local_network failure"

definition alone :: "heap \<Rightarrow> upstream_entry \<Rightarrow> reach \<Rightarrow> finding" where
  "alone heap entry reach =
     (let name = written (ue_upstream entry); upstream = socket (ue_upstream entry);
          state = verdict_name (health_state heap (ue_health entry))
      in case reach of
           Answered \<Rightarrow>
             passed UpstreamReachable
               (name @ '' answered on '' @ show_socket upstream @ '', the verdict is '' @ state)
         | Silent \<Rightarrow>
             failed UpstreamReachable
               (name @ '' did not answer within '' @ show_nat (as_secs PREFER_CONNECT_TIMEOUT)
                @ ''s, the verdict is '' @ state)
         | Refused failure \<Rightarrow> failed UpstreamReachable (refusal_text name upstream failure))"

definition listed :: "heap \<Rightarrow> upstream_entry \<Rightarrow> reach \<Rightarrow> string" where
  "listed heap entry reach =
     (let name = written (ue_upstream entry);
          state = verdict_name (health_state heap (ue_health entry))
      in case reach of
           Answered \<Rightarrow> name @ '' reachable, the verdict is '' @ state
         | Silent \<Rightarrow>
             name @ '' unreachable, no answer within '' @ show_nat (as_secs PREFER_CONNECT_TIMEOUT)
             @ ''s, the verdict is '' @ state
         | Refused failure \<Rightarrow>
             name @ '' unreachable, '' @ ie_text failure @ local_network failure
             @ '', the verdict is '' @ state)"

text \<open>The verdicts are read when the last dial is over, in the heap of that moment.\<close>

definition upstream_reachable :: "tcp \<Rightarrow> heap \<Rightarrow> upstream_entries \<Rightarrow> finding" where
  "upstream_reachable tcp heap entries =
     (let reached = map (\<lambda>e. (e, reach_upstream tcp (socket (ue_upstream e)))) (ues_entries entries)
      in case reached of
           [] \<Rightarrow>
             failed UpstreamReachable
               ''no upstream is configured, name one with `nhop upstream socks5://<ip>:<port>`''
         | [(entry, reach)] \<Rightarrow> alone heap entry reach
         | _ \<Rightarrow>
             \<lparr> fd_check = UpstreamReachable,
               fd_outcome =
                 (if list_ex (\<lambda>(e, reach). reach = Answered) reached then Passed else FailedCheck),
               fd_detail = join_with ''; '' (map (\<lambda>(e, reach). listed heap e reach) reached) \<rparr>)"

subsection \<open>The checks of the files\<close>

record file_meta =
  fm_is_file :: bool
  fm_is_dir :: bool
  fm_mode :: u32

record fs =
  fs_metadata :: "path \<Rightarrow> file_meta option"
  fs_parent :: "path \<Rightarrow> path option"

definition OWNER_WRITE :: u32 where "OWNER_WRITE = 128"
definition ANY_EXECUTE :: u32 where "ANY_EXECUTE = 73"

definition check_init_file :: "fs \<Rightarrow> path \<Rightarrow> finding" where
  "check_init_file fs path =
     (case fs_metadata fs path of
        None \<Rightarrow>
          failed InitFile
            (''no init script at '' @ path @ '', every connection is direct until one exists'')
      | Some found \<Rightarrow>
          if \<not> fm_is_file found then failed InitFile (path @ '' is not a file'')
          else if fm_mode found AND ANY_EXECUTE = 0
          then failed InitFile (path @ '' is not executable, run `chmod +x '' @ path @ ''`'')
          else passed InitFile (path @ '' is executable''))"

definition on_command :: "string option \<Rightarrow> string" where
  "on_command failed_on = (case failed_on of None \<Rightarrow> [] | Some name \<Rightarrow> '' on '' @ name)"

definition check_last_load :: "(time \<Rightarrow> string) \<Rightarrow> last_load_view option \<Rightarrow> finding" where
  "check_last_load rfc3339 last_load =
     (case last_load of
        None \<Rightarrow>
          failed LastLoad
            (''no init script has been loaded, the ruleset is empty and every connection is '' @
             ''direct'')
      | Some l \<Rightarrow>
          (let at = rfc3339 (ll_at l) in
           case ll_outcome l of
             LoadOk \<Rightarrow> passed LastLoad (''the run at '' @ at @ '' committed'')
           | LoadFailed \<Rightarrow>
               failed LastLoad
                 (''the run at '' @ at @ '' failed'' @ on_command (ll_command l)
                  @ '', fix it and run `nhop reload`'')
           | LoadTimedOut \<Rightarrow>
               failed LastLoad
                 (''the run at '' @ at @ '' outlived the load timeout and was killed'')))"

definition check_log_writable :: "fs \<Rightarrow> path \<Rightarrow> finding" where
  "check_log_writable fs log_file =
     (case fs_parent fs log_file of
        None \<Rightarrow> failed LogWritable (log_file @ '' names no directory to write into'')
      | Some path \<Rightarrow>
          (case fs_metadata fs path of
             None \<Rightarrow> failed LogWritable (''no state directory at '' @ path)
           | Some found \<Rightarrow>
               if \<not> fm_is_dir found then failed LogWritable (path @ '' is not a directory'')
               else if fm_mode found AND OWNER_WRITE = 0
               then failed LogWritable
                      (path @ '' is not writable, run `chmod u+rwx '' @ path @ ''`'')
               else passed LogWritable (log_file @ '' is writable'')))"

subsection \<open>What a report says\<close>

definition observed_ok :: "finding list \<Rightarrow> check \<Rightarrow> bool" where
  "observed_ok findings c =
     (case found_in c findings of None \<Rightarrow> False | Some f \<Rightarrow> fd_outcome f = Passed)"

lemma outcome_ok_iff [simp]: "outcome_ok o1 \<longleftrightarrow> o1 = Passed"
  by (cases o1) auto

lemma check_show_view_simps [simp]:
  "cv_name (check_show_view c findings) = check_name c"
  "cv_ok (check_show_view c findings) = observed_ok findings c"
  by (simp_all add: check_show_view_def observed_ok_def split: option.split)

lemma check_name_inject [simp]: "check_name a = check_name b \<longleftrightarrow> a = b"
  by (cases a; cases b) simp_all

lemma count_failed_eq:
  "count_failed (map (\<lambda>c. check_show_view c findings) cs) =
     (length (filter (\<lambda>c. \<not> observed_ok findings c) cs),
      length (filter (\<lambda>c. \<not> observed_ok findings c \<and> c \<noteq> UpstreamReachable) cs))"
  by (induction cs)
    (use check_name_inject [where b = UpstreamReachable, unfolded check_name.simps] in
      \<open>auto split: prod.splits\<close>)

lemma upstream_reachable_passes:
  "fd_outcome (upstream_reachable tcp heap entries) = Passed \<longleftrightarrow>
     list_ex (\<lambda>e. reach_upstream tcp (socket (ue_upstream e)) = Answered) (ues_entries entries)"
  by (auto simp: upstream_reachable_def alone_def failed_def passed_def Let_def list_ex_iff
      split: list.split reach.split)

text \<open>Whatever was observed and in whatever order, the report is the seven checks in their fixed
  order, a check passes exactly when the first finding about it passed - a check nothing observed
  fails - and the exit code is success exactly when every check passes, the code for a down upstream
  exactly when the upstream check is the only one that does not, and plain failure otherwise.\<close>

theorem doctor_report_outcome:
  "map cv_name (doctor_report findings) = map check_name CHECKS
   \<and> map cv_ok (doctor_report findings) = map (observed_ok findings) CHECKS
   \<and> exit_of (doctor_report findings) =
      (if list_all (observed_ok findings) CHECKS then Success
       else if list_all (\<lambda>c. c = UpstreamReachable \<or> observed_ok findings c) CHECKS
       then ExitUpstreamDown
       else Failed)"
proof (intro conjI)
  show "map cv_name (doctor_report findings) = map check_name CHECKS"
    by (simp add: doctor_report_def comp_def)
  show "map cv_ok (doctor_report findings) = map (observed_ok findings) CHECKS"
    by (simp add: doctor_report_def comp_def)
  show "exit_of (doctor_report findings) =
      (if list_all (observed_ok findings) CHECKS then Success
       else if list_all (\<lambda>c. c = UpstreamReachable \<or> observed_ok findings c) CHECKS
       then ExitUpstreamDown
       else Failed)"
    unfolding exit_of_def doctor_report_def count_failed_eq Let_def prod.case
    by (auto simp: filter_empty_conv list_all_iff)
qed

subsection \<open>The system proxy nhop writes and the one it accepts\<close>

fun is_v4 :: "socket_addr \<Rightarrow> bool" where
  "is_v4 (SA4 a p) = True"
| "is_v4 (SA6 a p z) = False"

text \<open>The endpoint read back after the \<open>k\<close>-th invocation of \<open>nhop proxy on\<close>.\<close>

definition read_back :: "listen \<Rightarrow> network_service \<Rightarrow> nat \<Rightarrow> proxy_endpoint option" where
  "read_back addrs service k =
     (let arguments = in_arguments (enabling addrs service ! k)
      in parse_report (report_of (arguments ! 1) (arguments ! 2)))"

definition written_proxy :: "listen \<Rightarrow> network_service \<Rightarrow> system_proxy" where
  "written_proxy addrs service =
     \<lparr> sp_http = read_back addrs service 0, sp_https = read_back addrs service 1,
       sp_socks = read_back addrs service 2 \<rparr>"

lemma read_back_eq:
  assumes "sock_port (l_http addrs) \<noteq> 0" and "sock_port (l_socks addrs) \<noteq> 0" and "k < 3"
  shows "read_back addrs service k =
    (let addr = (if k = 2 then l_socks addrs else l_http addrs) in
     Some \<lparr> pe_host = show_ip (sock_ip addr), pe_port = sock_port addr \<rparr>)"
proof -
  from assms(3) consider "k = 0" | "k = 1" | "k = 2" by linarith
  then show ?thesis
    using assms(1,2) show_ip_addr
    by cases (simp_all add: read_back_def enabling_def new_invocation_def parse_report_of Let_def)
qed

lemma endpoint_matches:
  "show_endpoint \<lparr> pe_host = show_ip (sock_ip addr), pe_port = sock_port addr \<rparr> = show_socket addr
     \<longleftrightarrow> is_v4 addr"
proof (cases addr)
  case (SA4 a p)
  then show ?thesis by (simp add: show_endpoint_def)
next
  case (SA6 a p z)
  obtain c cs where ip: "show_ip (V6 a) = c # cs" and c: "addr_char c"
    using show_ip_addr [of "V6 a"] by (cases "show_ip (V6 a)") auto
  from c have "c \<noteq> CHR ''[''" using addr_char_plain by blast
  with SA6 ip show ?thesis by (auto simp: show_endpoint_def)
qed

lemma wrong_setting_written:
  "wrong_setting name (Some \<lparr> pe_host = show_ip (sock_ip addr), pe_port = sock_port addr \<rparr>) addr = None
     \<longleftrightarrow> is_v4 addr"
  by (simp add: wrong_setting_def endpoint_matches Let_def)



end
