(* ===== verification/InitScript.thy ===== *)
theory InitScript
  imports SystemProxy
begin

section \<open>Running the init script: \<open>daemon/init_script.rs\<close>\<close>

text \<open>
  How a run of the init script is set up and how its end is classified.  Spawning a process and
  waiting for it are the operating system's, so what came back is an argument: whether the process
  could be spawned, and what waiting for it brought within the load timeout.
\<close>

datatype script_outcome =
    Succeeded
  | Exited exit_status
  | ScriptTimedOut
  | NotRun io_error

definition LOAD_ID_ENV :: string where "LOAD_ID_ENV = ''NHOP_LOAD_ID''"
definition SEARCH_PATH_ENV :: string where "SEARCH_PATH_ENV = ''PATH''"

text \<open>The search path the script sees: the directory of the running executable goes first.\<close>

definition search_path :: "string option \<Rightarrow> path option \<Rightarrow> string" where
  "search_path inherited executable_dir =
     (let inherited = (case inherited of None \<Rightarrow> [] | Some search \<Rightarrow> search) in
      case executable_dir of
        None \<Rightarrow> inherited
      | Some directory \<Rightarrow>
          directory @ (if inherited = [] then [] else '':'' @ inherited))"

definition executable_dir :: "(path \<Rightarrow> path option) \<Rightarrow> path option \<Rightarrow> path option" where
  "executable_dir parent current_exe = Option.bind current_exe parent"

record script_program =
  sc_program :: path
  sc_current_dir :: path
  sc_env :: "(string \<times> string) list"

definition script_program_of ::
  "string option \<Rightarrow> path option \<Rightarrow> path \<Rightarrow> path \<Rightarrow> load_id \<Rightarrow> script_program" where
  "script_program_of inherited exe_dir script config_dir load =
     \<lparr> sc_program = script, sc_current_dir = config_dir,
       sc_env = [(LOAD_ID_ENV, show_load_id load), (SEARCH_PATH_ENV, search_path inherited exe_dir)] \<rparr>"

text \<open>
  The classification of \<open>run\<close>: \<open>spawned\<close> is the failure to spawn if there was one, \<open>waited\<close> is
  absent when the child outlives the timeout, and is then killed.
\<close>

definition script_ended ::
  "(io_error, unit) res \<Rightarrow> (io_error, exit_status) res option \<Rightarrow> script_outcome" where
  "script_ended spawned waited =
     (case spawned of
        Inl failure \<Rightarrow> NotRun failure
      | Inr _ \<Rightarrow>
          (case waited of
             None \<Rightarrow> ScriptTimedOut
           | Some (Inl failure) \<Rightarrow> NotRun failure
           | Some (Inr status) \<Rightarrow> if es_success status then Succeeded else Exited status))"

lemma script_ended_Succeeded:
  "script_ended spawned waited = Succeeded \<longleftrightarrow>
     spawned = Inr () \<and> (\<exists>status. waited = Some (Inr status) \<and> es_code status = Some 0)"
  by (auto simp: script_ended_def es_success_def split: sum.splits option.splits)

text \<open>A script that calls the command line reads the identifier of its own run back.\<close>

lemma script_reads_its_load:
  "load \<le> u64_max \<Longrightarrow>
     Option.bind (map_of (sc_env (script_program_of inherited exe script dir load)) LOAD_ID_ENV)
       parse_load_id = Some load"
  by (simp add: script_program_of_def parse_load_id_show)

end
