(* ===== verification/Patrol.thy ===== *)
theory Patrol
  imports Dialer "HOL-Library.Multiset"
begin

section \<open>The patrol: \<open>patrol\<close>, \<open>round\<close> and \<open>advance\<close> of \<open>upstream/mod.rs\<close>\<close>

text \<open>
  The background task that probes every published upstream.  A round spawns one probe per entry and
  folds the answers in as they come back, in any order; the order is the list of completions the
  round is given.  A probe task that ended without an answer (\<open>JoinError\<close>) is a completion with
  nothing in it.
\<close>

definition LOAD_TIMEOUT :: duration where "LOAD_TIMEOUT = 30000000000"
definition PROBE_INTERVAL :: duration where "PROBE_INTERVAL = 5000000000"
definition PROBE_CONFIRM_DELAY :: duration where "PROBE_CONFIRM_DELAY = 1000000000"
definition NO_UPSTREAM_TICK :: duration where "NO_UPSTREAM_TICK = 250000000"

text \<open>The additions of durations saturate far beyond any value reached here.\<close>

definition DURATION_MAX :: duration where
  "DURATION_MAX = u64_max * 1000000000 + 999999999"

definition duration_add :: "duration \<Rightarrow> duration \<Rightarrow> duration" where
  "duration_add a b = min (a + b) DURATION_MAX"

definition NO_UPSTREAM_EAGER :: duration where
  "NO_UPSTREAM_EAGER = duration_add LOAD_TIMEOUT PROBE_INTERVAL"

subsection \<open>One probe\<close>

definition probe :: "'stream network \<Rightarrow> socket_addr \<Rightarrow> health_state" where
  "probe net upstream =
     (case net_probe net PROBE_TIMEOUT upstream of
        None \<Rightarrow> Down
      | Some (Inr reached) \<Rightarrow> Up
      | Some (Inl failure) \<Rightarrow>
          (case failed_dial (net_socks_text net) failure of
             DfDestination answered \<Rightarrow> Up
           | DfUnsent local \<Rightarrow> Down
           | DfUpstream f \<Rightarrow> Down))"

subsection \<open>One observation\<close>

record pending =
  p_target :: health_state
  p_health :: handle

fun banked_of :: "pending list \<Rightarrow> handle \<Rightarrow> health_state option" where
  "banked_of [] h = None"
| "banked_of (p # pending) h =
     (if same_handle (p_health p) h then Some (p_target p) else banked_of pending h)"

definition advance ::
  "heap \<Rightarrow> health_state option \<Rightarrow> health_state \<Rightarrow> handle \<Rightarrow> time
     \<Rightarrow> heap \<times> log_line list \<times> health_state option" where
  "advance heap banked seen h at =
     (let settled = health_state heap h in
      case (settled, seen) of
        (Up, Up) \<Rightarrow> (heap, [], None)
      | (Down, Down) \<Rightarrow> (heap, [], None)
      | _ \<Rightarrow>
          if banked = Some seen
          then (let (heap, lines) = set_at heap h seen Probe at in (heap, lines, None))
          else (heap, [], Some seen))"

subsection \<open>One round\<close>

type_synonym completion = "(upstream_entry \<times> health_state) option"

fun round_fold ::
  "heap \<Rightarrow> pending list \<Rightarrow> time \<Rightarrow> pending list \<Rightarrow> completion list
     \<Rightarrow> heap \<times> log_line list \<times> pending list" where
  "round_fold heap pending started next [] = (heap, [], next)"
| "round_fold heap pending started next (None # completions) =
     round_fold heap pending started next completions"
| "round_fold heap pending started next (Some (entry, seen) # completions) =
     (let h = ue_health entry;
          banked = banked_of pending h;
          (heap, lines, left) = advance heap banked seen h started;
          next = (case left of
                    None \<Rightarrow> next
                  | Some target \<Rightarrow> next @ [\<lparr> p_target = target, p_health = h \<rparr>]);
          (heap, more, next) = round_fold heap pending started next completions
      in (heap, lines @ more, next))"

definition round ::
  "heap \<Rightarrow> pending list \<Rightarrow> time \<Rightarrow> completion list \<Rightarrow> heap \<times> log_line list \<times> pending list" where
  "round heap pending started completions = round_fold heap pending started [] completions"

text \<open>The completions of the entries of a list when every probe is answered by the network.\<close>

definition probed :: "'stream network \<Rightarrow> upstream_entry list \<Rightarrow> completion list" where
  "probed net entries = map (\<lambda>e. Some (e, probe net (socket (ue_upstream e)))) entries"

subsection \<open>The loop\<close>

record patrolling =
  pa_pending :: "pending list"
  pa_looking :: duration

definition patrolling_start :: patrolling where
  "patrolling_start = \<lparr> pa_pending = [], pa_looking = 0 \<rparr>"

text \<open>One turn that finds no entry: the task and how long it sleeps.\<close>

definition patrol_idle :: "patrolling \<Rightarrow> duration \<Rightarrow> patrolling \<times> duration" where
  "patrol_idle p interval =
     (let tick = (if pa_looking p < NO_UPSTREAM_EAGER then min NO_UPSTREAM_TICK interval else interval)
      in (\<lparr> pa_pending = [], pa_looking = duration_add (pa_looking p) tick \<rparr>, tick))"

definition patrol_waited :: "pending list \<Rightarrow> duration \<Rightarrow> duration \<Rightarrow> duration" where
  "patrol_waited pending interval confirm_delay =
     (if pending = [] then interval else confirm_delay)"

text \<open>
  One turn of the loop when nothing else runs: the list does not change while the probes are out.
  The concurrent runs are those of the step relation in theory \<open>World\<close>.
\<close>

definition patrol_turn ::
  "'stream network \<Rightarrow> hop \<Rightarrow> patrolling \<Rightarrow> time \<Rightarrow> time \<Rightarrow> duration \<Rightarrow> duration
     \<Rightarrow> hop \<times> patrolling \<times> duration" where
  "patrol_turn net hop p started ended interval confirm_delay =
     (let entries = live_upstream_snapshot (hop_upstream hop) in
      case entries_first (arc_val entries) of
        None \<Rightarrow> (let (p, waited) = patrol_idle p interval in (hop, p, waited))
      | Some first \<Rightarrow>
          (let (heap, lines, pending) =
                 round (hop_heap hop) (pa_pending p) started (probed net (ues_entries (arc_val entries)));
               hop = hop_write hop heap lines;
               entries = live_upstream_snapshot (hop_upstream hop);
               selected = entries_selected (hop_heap hop) (arc_val entries) ended (hop_hold hop);
               (observed, switches) = observe (hop_heap hop) (hop_observed hop) entries selected;
               hop = hop\<lparr> hop_observed := observed, hop_log := hop_log hop @ switches \<rparr>
           in (hop, \<lparr> pa_pending = pending, pa_looking = 0 \<rparr>,
               patrol_waited pending interval confirm_delay)))"

subsection \<open>What a round does to one handle\<close>

text \<open>What one answer makes of a verdict, and what it leaves pending.\<close>

definition advanced :: "health \<Rightarrow> health_state option \<Rightarrow> health_state \<Rightarrow> time \<Rightarrow> health" where
  "advanced v banked seen at =
     (if h_state v \<noteq> seen \<and> banked = Some seen then \<lparr> h_state = seen, h_changed_at = at \<rparr> else v)"

definition left_pending :: "health \<Rightarrow> health_state option \<Rightarrow> health_state \<Rightarrow> bool" where
  "left_pending v banked seen \<longleftrightarrow> h_state v \<noteq> seen \<and> banked \<noteq> Some seen"

lemma advance_eq:
  "advance heap banked seen h at =
     (if health_state heap h = seen then (heap, [], None)
      else if banked = Some seen
      then (heap_put heap h seen at,
            [VerdictLine (j_upstream (heap ! h)) (health_state heap h) seen Probe], None)
      else (heap, [], Some seen))"
  using set_at_fst [of heap h seen Probe at] set_at_lines [of heap h seen Probe at]
  by (cases "set_at heap h seen Probe at")
    (auto simp: advance_def Let_def split: health_state.splits)

lemma advance_verdict:
  assumes "valid_handle heap h"
  shows "verdict (fst (advance heap banked seen h at)) k =
    (if k = h then advanced (verdict heap h) banked seen at else verdict heap k)"
  using assms
  by (auto simp: advance_eq advanced_def heap.turned heap.get_put_other health_state_def)

lemma advance_left:
  "snd (snd (advance heap banked seen h at)) =
     (if left_pending (verdict heap h) banked seen then Some seen else None)"
  by (auto simp: advance_eq left_pending_def health_state_def)

lemma advance_length [simp]: "length (fst (advance heap banked seen h at)) = length heap"
  by (simp add: advance_eq)

text \<open>The handles a round hears about.\<close>

fun heard :: "completion list \<Rightarrow> (handle \<times> health_state) list" where
  "heard [] = []"
| "heard (None # cs) = heard cs"
| "heard (Some (e, seen) # cs) = (ue_health e, seen) # heard cs"

definition left_by :: "pending list \<Rightarrow> handle \<Rightarrow> health_state option \<Rightarrow> pending list" where
  "left_by next h left =
     (case left of None \<Rightarrow> next | Some target \<Rightarrow> next @ [\<lparr> p_target = target, p_health = h \<rparr>])"

lemma round_fold_step:
  fixes e :: upstream_entry and heap pending seen started
  defines "h \<equiv> ue_health e"
  defines "adv \<equiv> advance heap (banked_of pending h) seen h started"
  shows "fst (round_fold heap pending started next (Some (e, seen) # cs)) =
      fst (round_fold (fst adv) pending started (left_by next h (snd (snd adv))) cs)"
    and "snd (snd (round_fold heap pending started next (Some (e, seen) # cs))) =
      snd (snd (round_fold (fst adv) pending started (left_by next h (snd (snd adv))) cs))"
  by (simp_all add: h_def adv_def left_by_def Let_def split: prod.splits)

lemma completion_induct [case_names Nil None Some]:
  assumes "P []" and "\<And>cs. P cs \<Longrightarrow> P (None # cs)"
    and "\<And>e seen cs. P cs \<Longrightarrow> P (Some (e, seen) # cs)"
  shows "P (cs :: completion list)"
  using assms by (induction cs rule: heard.induct) auto

lemma round_fold_length [simp]:
  "length (fst (round_fold heap pending started next cs)) = length heap"
  by (induction cs arbitrary: heap "next" rule: completion_induct)
    (simp_all add: round_fold_step del: round_fold.simps(3))

lemma round_fold_verdict:
  "distinct (map fst (heard cs)) \<Longrightarrow> \<forall>h \<in> fst ` set (heard cs). valid_handle heap h \<Longrightarrow>
   verdict (fst (round_fold heap pending started next cs)) k =
     (case map_of (heard cs) k of
        None \<Rightarrow> verdict heap k
      | Some seen \<Rightarrow> advanced (verdict heap k) (banked_of pending k) seen started)"
proof (induction cs arbitrary: heap "next" rule: completion_induct)
  case (Some e seen cs)
  let ?h = "ue_health e" and ?adv = "advance heap (banked_of pending (ue_health e)) seen (ue_health e) started"
  from Some.prems have valid: "valid_handle heap ?h" by simp
  have v': "verdict (fst ?adv) j =
      (if j = ?h then advanced (verdict heap ?h) (banked_of pending ?h) seen started
       else verdict heap j)" for j
    by (rule advance_verdict [OF valid])
  have "distinct (map fst (heard cs))" "\<forall>h \<in> fst ` set (heard cs). valid_handle (fst ?adv) h"
    using Some.prems by (auto simp: valid_handle_def)
  note IH = Some.IH [OF this]
  show ?case
  proof (cases "k = ?h")
    case True
    with Some.prems(1) have "map_of (heard cs) k = None" by (simp add: map_of_eq_None_iff)
    with True IH show ?thesis by (simp add: round_fold_step v' del: round_fold.simps(3))
  next
    case False
    with IH show ?thesis
      by (simp add: round_fold_step v' del: round_fold.simps(3) split: option.split)
  qed
qed simp_all

text \<open>The sequences a round leaves, in the order the answers came.\<close>

lemma round_fold_left:
  "distinct (map fst (heard cs)) \<Longrightarrow> \<forall>h \<in> fst ` set (heard cs). valid_handle heap h \<Longrightarrow>
   snd (snd (round_fold heap pending started next cs)) =
     next @ map (\<lambda>(h, seen). \<lparr> p_target = seen, p_health = h \<rparr>)
       (filter (\<lambda>(h, seen). left_pending (verdict heap h) (banked_of pending h) seen) (heard cs))"
proof (induction cs arbitrary: heap "next" rule: completion_induct)
  case (Some e seen cs)
  let ?h = "ue_health e" and ?adv = "advance heap (banked_of pending (ue_health e)) seen (ue_health e) started"
  from Some.prems have valid: "valid_handle heap ?h" by simp
  have v': "verdict (fst ?adv) j = verdict heap j" if "j \<noteq> ?h" for j
    using advance_verdict [OF valid, of "banked_of pending ?h" seen started j] that by simp
  have "distinct (map fst (heard cs))" "\<forall>h \<in> fst ` set (heard cs). valid_handle (fst ?adv) h"
    using Some.prems by (auto simp: valid_handle_def)
  note IH = Some.IH [OF this]
  have "?h \<notin> fst ` set (heard cs)" using Some.prems(1) by simp
  then have "verdict (fst ?adv) a = verdict heap a" if "(a, b) \<in> set (heard cs)" for a b
    using that v' [of a] by (metis fst_conv imageI)
  then have same: "filter (\<lambda>(h, seen). left_pending (verdict (fst ?adv) h) (banked_of pending h) seen)
      (heard cs) = filter (\<lambda>(h, seen). left_pending (verdict heap h) (banked_of pending h) seen) (heard cs)"
    by (intro filter_cong) auto
  show ?case
    using IH by (simp add: round_fold_step same left_by_def advance_left del: round_fold.simps(3))
qed simp_all

text \<open>The handles of a list, in its order, are those of a round over it.\<close>

lemma heard_probed:
  "heard (probed net es) = map (\<lambda>e. (ue_health e, probe net (socket (ue_upstream e)))) es"
  by (induction es) (simp_all add: probed_def)

lemma heard_append: "heard (cs @ ds) = heard cs @ heard ds"
  by (induction cs rule: completion_induct) simp_all

lemma mset_heard: "mset cs = mset ds \<Longrightarrow> mset (heard cs) = mset (heard ds)"
proof (induction cs arbitrary: ds)
  case (Cons c cs)
  from Cons.prems have "c \<in> set ds" by (metis list.set_intros(1) mset_eq_setD)
  then obtain us vs where ds: "ds = us @ c # vs" by (auto simp: in_set_conv_decomp)
  with Cons.prems have "mset cs = mset (us @ vs)" by simp
  note IH = Cons.IH [OF this]
  have one: "mset (heard (c # zs)) = mset (heard [c]) + mset (heard zs)" for zs
    using heard_append [of "[c]" zs] by simp
  from IH one [of cs] one [of vs] show ?case by (simp add: ds heard_append)
qed simp

lemma banked_of_None: "banked_of pending h = None \<longleftrightarrow> h \<notin> p_health ` set pending"
  by (induction pending) (auto simp: same_handle_def)

lemma banked_of_filter:
  "distinct (map fst hs) \<Longrightarrow>
   banked_of (map (\<lambda>(h, seen). \<lparr> p_target = seen, p_health = h \<rparr>)
      (filter (\<lambda>(h, seen). P h seen) hs)) h =
     (case map_of hs h of None \<Rightarrow> None | Some seen \<Rightarrow> if P h seen then Some seen else None)"
proof (induction hs)
  case (Cons x hs)
  obtain k s where x: "x = (k, s)" by (cases x)
  show ?case
  proof (cases "k = h")
    case True
    with Cons.prems x have "map_of hs h = None" by (simp add: map_of_eq_None_iff)
    with Cons x True show ?thesis by (simp add: same_handle_def)
  next
    case False
    with Cons x show ?thesis by (simp add: same_handle_def)
  qed
qed simp

text \<open>The verdict lines a round writes, in the order the answers came.\<close>

lemma advance_lines:
  "fst (snd (advance heap banked seen h at)) =
     (if h_state (verdict heap h) \<noteq> seen \<and> banked = Some seen
      then [VerdictLine (j_upstream (heap ! h)) (h_state (verdict heap h)) seen Probe] else [])"
  by (auto simp: advance_eq health_state_def)

lemma advance_upstream:
  "k < length heap \<Longrightarrow>
     j_upstream (fst (advance heap banked seen h at) ! k) = j_upstream (heap ! k)"
  by (simp add: advance_eq j_upstream_put)

lemma round_fold_upstream:
  "k < length heap \<Longrightarrow>
     j_upstream (fst (round_fold heap pending started next cs) ! k) = j_upstream (heap ! k)"
  by (induction cs arbitrary: heap "next" rule: completion_induct)
    (simp_all add: round_fold_step advance_upstream del: round_fold.simps(3))

definition round_line :: "heap \<Rightarrow> pending list \<Rightarrow> handle \<times> health_state \<Rightarrow> log_line list" where
  "round_line heap pending = (\<lambda>(h, seen).
     if h_state (verdict heap h) \<noteq> seen \<and> banked_of pending h = Some seen
     then [VerdictLine (j_upstream (heap ! h)) (h_state (verdict heap h)) seen Probe] else [])"

lemma round_fold_lines:
  "distinct (map fst (heard cs)) \<Longrightarrow> \<forall>h \<in> fst ` set (heard cs). valid_handle heap h \<Longrightarrow>
   fst (snd (round_fold heap pending started next cs)) =
     concat (map (round_line heap pending) (heard cs))"
proof (induction cs arbitrary: heap "next" rule: completion_induct)
  case (Some e seen cs)
  let ?h = "ue_health e" and ?adv = "advance heap (banked_of pending (ue_health e)) seen (ue_health e) started"
  from Some.prems have valid: "valid_handle heap ?h" by simp
  have "distinct (map fst (heard cs))" "\<forall>h \<in> fst ` set (heard cs). valid_handle (fst ?adv) h"
    using Some.prems by (auto simp: valid_handle_def)
  note IH = Some.IH [OF this]
  have "round_line (fst ?adv) pending x = round_line heap pending x" if x: "x \<in> set (heard cs)" for x
  proof -
    obtain k s where ks: "x = (k, s)" by (cases x)
    from x ks Some.prems have "k \<noteq> ?h" "k < length heap"
      by (auto simp: valid_handle_def rev_image_eqI)
    then show ?thesis
      using advance_verdict [OF valid, of "banked_of pending ?h" seen started k]
      by (simp add: ks round_line_def advance_upstream)
  qed
  then have same: "map (round_line (fst ?adv) pending) (heard cs) = map (round_line heap pending) (heard cs)"
    by simp
  have "fst (snd (round_fold heap pending started next (Some (e, seen) # cs))) =
      fst (snd ?adv) @ fst (snd (round_fold (fst ?adv) pending started
        (left_by next ?h (snd (snd ?adv))) cs))"
    by (simp add: left_by_def Let_def split: prod.splits)
  also have "\<dots> = concat (map (round_line heap pending) (heard (Some (e, seen) # cs)))"
    unfolding IH same by (simp add: advance_lines) (simp add: round_line_def)
  finally show ?case .
qed simp_all

lemma heap_eqI:
  assumes "length heap = length heap'" and "\<And>h. verdict heap h = verdict heap' h"
    and "\<And>h. h < length heap \<Longrightarrow> j_upstream (heap ! h) = j_upstream (heap' ! h)"
  shows "(heap :: heap) = heap'"
  using assms by (intro nth_equalityI) (auto simp: verdict_def intro: judged.equality)

subsection \<open>Properties\<close>

text \<open>C17: one round of the patrol.  An entry's verdict moves exactly when its probe contradicts the
  verdict in force and the round before left a pending observation aiming where this one points; it
  then settles at the instant the round started.  A first contradiction moves nothing and is left
  pending, an answer that agrees with the verdict discards whatever was pending, and only entries of
  this round are left pending, so one stray probe never moves a verdict.\<close>

theorem round_outcome:
  assumes "round heap pending started completions = (heap', lines, next)"
    and "distinct (map fst (heard completions))"
    and "\<forall>h \<in> fst ` set (heard completions). valid_handle heap h"
  shows "(\<forall>h. verdict heap' h =
      (case map_of (heard completions) h of
         None \<Rightarrow> verdict heap h
       | Some seen \<Rightarrow>
           if h_state (verdict heap h) \<noteq> seen \<and> banked_of pending h = Some seen
           then \<lparr> h_state = seen, h_changed_at = started \<rparr> else verdict heap h))
    \<and> (\<forall>h. banked_of next h =
      (case map_of (heard completions) h of
         None \<Rightarrow> None
       | Some seen \<Rightarrow>
           if h_state (verdict heap h) \<noteq> seen \<and> banked_of pending h \<noteq> Some seen
           then Some seen else None))"
proof -
  from assms(1) have heap': "heap' = fst (round_fold heap pending started [] completions)"
    and "next": "next = snd (snd (round_fold heap pending started [] completions))"
    by (simp_all add: round_def)
  show ?thesis
    using round_fold_verdict [OF assms(2,3), of pending started "[]"]
    by (simp add: heap' "next" round_fold_left [OF assms(2,3)] banked_of_filter [OF assms(2)]
        advanced_def left_pending_def split: option.split)
qed


text \<open>A primary up since 10 and a fallback up since 0, answering a second probe in a row with nothing.\<close>

definition example_round :: "completion list" where
  "example_round =
     [Some (\<lparr> ue_upstream = example_upstream 11, ue_health = 1 \<rparr>, Down),
      Some (\<lparr> ue_upstream = example_upstream 10, ue_health = 0 \<rparr>, Down)]"

definition example_pending :: "pending list" where
  "example_pending = [\<lparr> p_target = Down, p_health = 1 \<rparr>]"

lemma example_round_valid:
  "distinct (map fst (heard example_round))"
  "\<forall>h \<in> fst ` set (heard example_round). valid_handle example_heap h"
  by (simp_all add: example_round_def valid_handle_def example_heap_def)

theorem round_outcome_witness:
  "verdict (fst (round example_heap example_pending 40 example_round)) 1 =
     \<lparr> h_state = Down, h_changed_at = 40 \<rparr>
   \<and> verdict (fst (round example_heap example_pending 40 example_round)) 0 =
     \<lparr> h_state = Up, h_changed_at = 10 \<rparr>
   \<and> banked_of (snd (snd (round example_heap example_pending 40 example_round))) 0 = Some Down"
proof -
  obtain heap' lines pend where run:
    "round example_heap example_pending 40 example_round = (heap', lines, pend)"
    by (cases "round example_heap example_pending 40 example_round")
  note out = round_outcome [OF run example_round_valid]
  have up: "verdict example_heap 0 = \<lparr> h_state = Up, h_changed_at = 10 \<rparr>"
    "verdict example_heap 1 = \<lparr> h_state = Up, h_changed_at = 0 \<rparr>"
    by (simp_all add: verdict_def example_heap_def)
  have heard: "map_of (heard example_round) 0 = Some Down" "map_of (heard example_round) 1 = Some Down"
    "banked_of example_pending 0 = None" "banked_of example_pending 1 = Some Down"
    by (simp_all add: example_round_def example_pending_def same_handle_def)
  from spec [OF conjunct1 [OF out], of 0] spec [OF conjunct1 [OF out], of 1]
    spec [OF conjunct2 [OF out], of 0]
  show ?thesis unfolding run heard up by simp
qed

text \<open>The order the probes of a round come back in does not matter.  Two orders of the same
  answers leave the same verdicts at the same instants, write the same lines and leave the same
  sequences pending, up to their order.\<close>

theorem round_order_irrelevant:
  assumes same: "mset completions' = mset completions"
    and distinct: "distinct (map fst (heard completions))"
    and valid: "\<forall>h \<in> fst ` set (heard completions). valid_handle heap h"
    and run: "round heap pending started completions = (heap1, lines, next)"
    and run': "round heap pending started completions' = (heap2, lines', next')"
  shows "heap2 = heap1 \<and> mset lines' = mset lines \<and> mset next' = mset next
    \<and> banked_of next' = banked_of next"
proof -
  let ?hs = "heard completions" and ?hs' = "heard completions'"
  have hs: "mset ?hs' = mset ?hs" by (rule mset_heard [OF same])
  then have set: "set ?hs' = set ?hs" by (rule mset_eq_setD)
  from hs have "mset (map fst ?hs') = mset (map fst ?hs)" by (simp add: mset_map)
  with distinct have distinct': "distinct (map fst ?hs')" by (metis mset_eq_imp_distinct_iff)
  from valid set have valid': "\<forall>h \<in> fst ` set ?hs'. valid_handle heap h" by simp
  have map: "map_of ?hs' = map_of ?hs"
    using distinct distinct' set by (simp add: map_of_inject_set)
  note eqs = run [unfolded round_def] run' [unfolded round_def]
  have heap: "heap2 = heap1"
    using eqs round_fold_verdict [OF distinct valid, of pending started "[]"]
      round_fold_verdict [OF distinct' valid', of pending started "[]"]
      round_fold_upstream [of _ heap pending started "[]" completions]
      round_fold_upstream [of _ heap pending started "[]" completions']
      round_fold_length [of heap pending started "[]" completions]
      round_fold_length [of heap pending started "[]" completions']
    by (intro heap_eqI) (auto simp: map)
  have lines: "lines = concat (map (round_line heap pending) ?hs)"
    "lines' = concat (map (round_line heap pending) ?hs')"
    using eqs round_fold_lines [OF distinct valid, of pending started "[]"]
      round_fold_lines [OF distinct' valid', of pending started "[]"] by simp_all
  have concat: "mset (concat (map f xs)) = (\<Sum>x \<in># mset xs. mset (f x))"
    for f :: "handle \<times> health_state \<Rightarrow> log_line list" and xs
    by (induction xs) simp_all
  have left: "next = map (\<lambda>(h, seen). \<lparr> p_target = seen, p_health = h \<rparr>)
       (filter (\<lambda>(h, seen). left_pending (verdict heap h) (banked_of pending h) seen) ?hs)"
    "next' = map (\<lambda>(h, seen). \<lparr> p_target = seen, p_health = h \<rparr>)
       (filter (\<lambda>(h, seen). left_pending (verdict heap h) (banked_of pending h) seen) ?hs')"
    using eqs round_fold_left [OF distinct valid, of pending started "[]"]
      round_fold_left [OF distinct' valid', of pending started "[]"] by simp_all
  show ?thesis
    using heap hs map
    by (simp add: lines left concat mset_map mset_filter banked_of_filter [OF distinct]
        banked_of_filter [OF distinct'] fun_eq_iff)
qed


theorem round_order_irrelevant_witness:
  "fst (round example_heap example_pending 40 (rev example_round)) =
     fst (round example_heap example_pending 40 example_round)"
proof -
  obtain heap1 lines pend where run:
    "round example_heap example_pending 40 example_round = (heap1, lines, pend)"
    by (cases "round example_heap example_pending 40 example_round")
  obtain heap2 lines' pend' where run':
    "round example_heap example_pending 40 (rev example_round) = (heap2, lines', pend')"
    by (cases "round example_heap example_pending 40 (rev example_round)")
  have "mset (rev example_round) = mset example_round" by simp
  from round_order_irrelevant [OF this example_round_valid run run'] show ?thesis
    by (simp add: run run')
qed

fun idle_turns :: "nat \<Rightarrow> patrolling \<Rightarrow> duration \<Rightarrow> patrolling" where
  "idle_turns 0 p interval = p"
| "idle_turns (Suc n) p interval = fst (patrol_idle (idle_turns n p interval) interval)"

lemma idle_looking:
  assumes "NO_UPSTREAM_TICK \<le> interval"
  shows "if n \<le> 140 then pa_looking (idle_turns n patrolling_start interval) = n * NO_UPSTREAM_TICK
    else NO_UPSTREAM_EAGER \<le> pa_looking (idle_turns n patrolling_start interval)"
proof (induction n)
  case 0
  show ?case by (simp add: patrolling_start_def)
next
  case (Suc n)
  note durations = NO_UPSTREAM_EAGER_def LOAD_TIMEOUT_def PROBE_INTERVAL_def NO_UPSTREAM_TICK_def
    duration_add_def DURATION_MAX_def u64_max_def
  define q where "q = idle_turns n patrolling_start interval"
  have q: "idle_turns (Suc n) patrolling_start interval = fst (patrol_idle q interval)"
    by (simp add: q_def)
  from Suc have IH: "if n \<le> 140 then pa_looking q = n * NO_UPSTREAM_TICK
      else NO_UPSTREAM_EAGER \<le> pa_looking q" by (simp add: q_def)
  consider "n < 140" | "n = 140" | "140 < n" by linarith
  then show ?case
    using IH assms unfolding q by cases (simp_all add: patrol_idle_def durations)
qed

text \<open>C29: an empty list does not keep the patrol awake.  A patrol that finds no upstream turn after turn
  looks every \<open>NO_UPSTREAM_TICK\<close> for its first 140 turns, which is 35 seconds and covers the
  longest a first load may take, and every \<open>interval\<close> ever after; nothing is left pending.\<close>

theorem idle_patrol_slows_down:
  assumes "NO_UPSTREAM_TICK \<le> interval"
  shows "snd (patrol_idle (idle_turns n patrolling_start interval) interval) =
      (if n < 140 then NO_UPSTREAM_TICK else interval)
    \<and> pa_pending (idle_turns n patrolling_start interval) = []
    \<and> LOAD_TIMEOUT + PROBE_INTERVAL = 140 * NO_UPSTREAM_TICK"
proof -
  note durations = NO_UPSTREAM_EAGER_def LOAD_TIMEOUT_def PROBE_INTERVAL_def NO_UPSTREAM_TICK_def
    duration_add_def DURATION_MAX_def u64_max_def
  have "pa_pending (idle_turns n patrolling_start interval) = []"
    by (cases n) (simp_all add: patrolling_start_def patrol_idle_def Let_def)
  moreover have "snd (patrol_idle (idle_turns n patrolling_start interval) interval) =
      (if n < 140 then NO_UPSTREAM_TICK else interval)"
    using idle_looking [OF assms, of n] assms
    by (cases "n < 140"; cases "n = 140") (auto simp: patrol_idle_def durations)
  ultimately show ?thesis by (simp add: durations)
qed

theorem idle_patrol_slows_down_witness:
  "snd (patrol_idle (idle_turns 200 patrolling_start PROBE_INTERVAL) PROBE_INTERVAL) = PROBE_INTERVAL"
  using idle_patrol_slows_down [of PROBE_INTERVAL 200]
  by (simp add: NO_UPSTREAM_TICK_def PROBE_INTERVAL_def)

end
