(* ===== verification/Daemon.thy ===== *)
theory Daemon
  imports Staging Frontends Doctor InitScript Patrol
begin

section \<open>The state task: \<open>daemon/state.rs\<close>\<close>

text \<open>
  The task that owns every piece of mutable daemon state.  A command or the end of the init script
  is one step: it returns the new state and what the task sets going - an answer, or work handed to
  another task.  What the task is given from outside is the environment \<open>env\<close>: the network
  library, the operating system's sockets, the file system, the text of an instant and the
  locations of the files.  The instants a step reads are its \<open>clock\<close>.
\<close>

subsection \<open>File locations\<close>

text \<open>\<open>Paths\<close> of \<open>nhop-ipc/src/paths.rs\<close>; \<open>join\<close> of a plain file name.\<close>

record paths =
  ps_config_dir :: path
  ps_state_dir :: path

definition path_join :: "path \<Rightarrow> string \<Rightarrow> path" where
  "path_join dir name = (if dir = [] \<or> suffix ''/'' dir then dir @ name else dir @ ''/'' @ name)"

definition paths_from_home :: "path \<Rightarrow> paths" where
  "paths_from_home home =
     \<lparr> ps_config_dir = path_join (path_join home ''.config'') ''nhop'',
       ps_state_dir = path_join (path_join (path_join home ''.local'') ''state'') ''nhop'' \<rparr>"

definition init_file :: "paths \<Rightarrow> path" where
  "init_file ps = path_join (ps_config_dir ps) ''init''"

definition socket_file :: "paths \<Rightarrow> path" where
  "socket_file ps = path_join (ps_state_dir ps) ''nhop.sock''"

definition pid_file :: "paths \<Rightarrow> path" where
  "pid_file ps = path_join (ps_state_dir ps) ''nhop.pid''"

definition log_file :: "paths \<Rightarrow> path" where
  "log_file ps = path_join (ps_state_dir ps) ''nhop.log''"

subsection \<open>The state\<close>

record 'net env =
  en_ipnet :: "'net ipnet"
  en_os :: os
  en_fs :: fs
  en_rfc3339 :: "time \<Rightarrow> string"
  en_paths :: paths

record clock =
  ck_now :: time
  ck_elapsed :: duration

text \<open>A run in flight; its reply channel is the number of the request it answers.\<close>

record 'net in_flight =
  if_id :: load_id
  if_staged :: "'net staging"
  if_reply :: nat

text \<open>
  \<open>dm_rules\<close>, \<open>dm_upstream\<close> and the heap of verdicts are the live cells the front ends and the
  dialer share; \<open>dm_ptr\<close> and \<open>dm_binds\<close> count the allocations and the attempts to bind; the first two allocations
  are the empty list the cell starts with and the one the selection is first compared against.
\<close>

record 'net daemon =
  dm_rules :: "'net ruleset"
  dm_heap :: heap
  dm_upstream :: "upstream_entries arc"
  dm_ptr :: nat
  dm_frontends :: frontends
  dm_binds :: nat
  dm_http_listen :: socket_addr
  dm_socks_listen :: socket_addr
  dm_forwards :: forwards
  dm_unconfigured :: health
  dm_init_path :: "path option"
  dm_last_load :: "last_load_view option"
  dm_load_ids :: nat
  dm_load :: "'net in_flight option"
  dm_load_timeout :: duration
  dm_hold :: duration
  dm_service :: network_service

datatype effect =
    Answer nat response
  | ReportStatus nat daemon_status network_service
  | RunDoctor nat "finding list" listen network_service upstream_entries
  | RunScript path path load_id duration

definition DEFAULT_HTTP_LISTEN :: socket_addr where
  "DEFAULT_HTTP_LISTEN = SA4 (IPv4 127 0 0 1) 7890"

definition DEFAULT_SOCKS_LISTEN :: socket_addr where
  "DEFAULT_SOCKS_LISTEN = SA4 (IPv4 127 0 0 1) 7891"

definition DEFAULT_LISTEN :: listen where
  "DEFAULT_LISTEN = \<lparr> l_http = DEFAULT_HTTP_LISTEN, l_socks = DEFAULT_SOCKS_LISTEN \<rparr>"

definition daemon_new ::
  "frontends \<Rightarrow> nat \<Rightarrow> listen \<Rightarrow> duration \<Rightarrow> duration \<Rightarrow> time \<Rightarrow> 'net daemon" where
  "daemon_new frontends binds addrs load_timeout hold now =
     \<lparr> dm_rules = [], dm_heap = [],
       dm_upstream = \<lparr> arc_ptr = 0, arc_val = upstream_entries_default \<rparr>, dm_ptr = 2,
       dm_frontends = frontends, dm_binds = binds,
       dm_http_listen = l_http addrs, dm_socks_listen = l_socks addrs, dm_forwards = [],
       dm_unconfigured = health_default now, dm_init_path = None, dm_last_load = None,
       dm_load_ids = 0, dm_load = None, dm_load_timeout = load_timeout, dm_hold = hold,
       dm_service = DEFAULT_SERVICE \<rparr>"

subsection \<open>Answers\<close>

definition in_progress :: "string \<Rightarrow> response" where
  "in_progress message = RespErr LoadInProgress message"

definition invalid :: "invalid_rule \<Rightarrow> response" where
  "invalid failure = RespErr (invalid_rule_err_kind failure) (ir_message failure)"

definition unreadable :: "unusable_upstreams \<Rightarrow> response" where
  "unreadable failure = RespErr InvalidArgs (show_unusable_upstreams failure)"

definition unbindable :: "io_error \<Rightarrow> response" where
  "unbindable failure = RespErr Internal (''cannot move the front ends: '' @ ie_text failure)"

definition unopenable :: "io_error \<Rightarrow> response" where
  "unopenable failure = RespErr Internal (''cannot open the forward: '' @ ie_text failure)"

definition duplicate :: "duplicate_forward \<Rightarrow> response" where
  "duplicate failure = RespErr InvalidArgs (show_duplicate_forward failure)"

definition streamed :: response where
  "streamed = RespErr Internal
     ''subscribe is served by the connection it arrives on, not by the state task''"

definition vanished :: response where
  "vanished = RespErr Internal ''the init run ended while this command was in flight''"

definition named_failure :: "failed_command option \<Rightarrow> string option" where
  "named_failure on = map_option failed_command_name on"

subsection \<open>Where a command applies\<close>

definition current_load :: "'net daemon \<Rightarrow> load_id option" where
  "current_load st = map_option if_id (dm_load st)"

datatype destination = Staged | Live | RefusedWith response

definition refused :: "string \<Rightarrow> destination" where
  "refused message = RefusedWith (in_progress message)"

definition target_of :: "'net daemon \<Rightarrow> load_id option \<Rightarrow> destination" where
  "target_of st load =
     (case current_load st of
        None \<Rightarrow>
          (case load of
             None \<Rightarrow> Live
           | Some stale \<Rightarrow>
               refused (''init run '' @ show_load_id stale @ '' is no longer in progress''))
      | Some current \<Rightarrow>
          (case load of
             Some other \<Rightarrow>
               if other = current then Staged
               else refused (''init run '' @ show_load_id current
                      @ '' is in progress, this command carries '' @ show_load_id other)
           | None \<Rightarrow> refused (''init run '' @ show_load_id current @ '' is in progress'')))"

definition staged ::
  "'net daemon \<Rightarrow> ('net staging \<Rightarrow> 'net staging \<times> response) \<Rightarrow> 'net daemon \<times> response" where
  "staged st apply_to =
     (case dm_load st of
        None \<Rightarrow> (st, vanished)
      | Some f \<Rightarrow>
          (let (staging, response) = apply_to (if_staged f)
           in (st\<lparr> dm_load := Some (f\<lparr> if_staged := staging \<rparr>) \<rparr>, response)))"

text \<open>\<open>Ok(())\<close> answers \<open>Ok\<close>, a failure answers as the command names it.\<close>

definition answering :: "('e \<Rightarrow> response) \<Rightarrow> 's \<times> ('e, unit) res \<Rightarrow> 's \<times> response" where
  "answering refuse outcome =
     (case outcome of (s, Inr _) \<Rightarrow> (s, RespOk) | (s, Inl failure) \<Rightarrow> (s, refuse failure))"

subsection \<open>The live side\<close>

definition publish_rules :: "'net daemon \<Rightarrow> 'net ruleset \<Rightarrow> 'net daemon" where
  "publish_rules st rules = st\<lparr> dm_rules := rules \<rparr>"

definition adopt_upstream :: "clock \<Rightarrow> 'net daemon \<Rightarrow> upstream list option \<Rightarrow> 'net daemon" where
  "adopt_upstream ck st upstreams =
     (case upstreams of
        None \<Rightarrow> st
      | Some us \<Rightarrow>
          (let (heap, live) =
                 live_upstream_publish (dm_heap st) (dm_upstream st) (\<lambda>_. ck_now ck) (dm_ptr st) us
           in st\<lparr> dm_heap := heap, dm_upstream := live, dm_ptr := Suc (dm_ptr st) \<rparr>))"

definition publish ::
  "clock \<Rightarrow> 'net daemon \<Rightarrow> 'net ruleset \<Rightarrow> upstream list option \<Rightarrow> 'net daemon" where
  "publish ck st rules upstream = adopt_upstream ck (publish_rules st rules) upstream"

definition rebind :: "'net env \<Rightarrow> 'net daemon \<Rightarrow> listen \<Rightarrow> 'net daemon \<times> (io_error, unit) res" where
  "rebind env st addrs =
     (let (n, frontends, moved) =
            frontends_rebind (en_os env) (dm_binds st) (dm_frontends st) addrs;
          st = st\<lparr> dm_binds := n, dm_frontends := frontends \<rparr>
      in case moved of
           Inl failure \<Rightarrow> (st, Err failure)
         | Inr now \<Rightarrow>
             (st\<lparr> dm_http_listen := l_http now, dm_socks_listen := l_socks now \<rparr>, Ok ()))"

definition rebind_forwards ::
  "'net env \<Rightarrow> 'net daemon \<Rightarrow> forwards \<Rightarrow> 'net daemon \<times> (io_error, unit) res" where
  "rebind_forwards env st forwards =
     (let (n, frontends, moved) =
            frontends_rebind_forwards (en_os env) (dm_binds st) (dm_frontends st) forwards;
          st = st\<lparr> dm_binds := n, dm_frontends := frontends \<rparr>
      in case moved of
           Inl failure \<Rightarrow> (st, Err failure)
         | Inr now \<Rightarrow> (st\<lparr> dm_forwards := now \<rparr>, Ok ()))"

subsection \<open>The mutating commands\<close>

definition add_rule ::
  "'net env \<Rightarrow> 'net daemon \<Rightarrow> rule_class \<Rightarrow> rule_kind \<Rightarrow> rule_value \<Rightarrow> load_id option
     \<Rightarrow> 'net daemon \<times> response" where
  "add_rule env st class kind val load =
     (case target_of st load of
        RefusedWith answer \<Rightarrow> (st, answer)
      | Staged \<Rightarrow>
          staged st (\<lambda>s. answering invalid (staging_push_rule (en_ipnet env) s class kind val))
      | Live \<Rightarrow>
          (case ruleset_push (en_ipnet env) (dm_rules st) class kind val of
             (rules, Inr _) \<Rightarrow> (publish_rules st rules, RespOk)
           | (rules, Inl failure) \<Rightarrow> (st, invalid failure)))"

definition clear_rules :: "'net daemon \<Rightarrow> load_id option \<Rightarrow> 'net daemon \<times> response" where
  "clear_rules st load =
     (case target_of st load of
        RefusedWith answer \<Rightarrow> (st, answer)
      | Staged \<Rightarrow> staged st (\<lambda>s. (staging_clear_rules s, RespOk))
      | Live \<Rightarrow> (publish_rules st [], RespOk))"

definition set_upstream ::
  "clock \<Rightarrow> 'net daemon \<Rightarrow> upstream_addr \<Rightarrow> upstream_addr list \<Rightarrow> load_id option
     \<Rightarrow> 'net daemon \<times> response" where
  "set_upstream ck st addr fallbacks load =
     (case target_of st load of
        RefusedWith answer \<Rightarrow> (st, answer)
      | Staged \<Rightarrow> staged st (\<lambda>s. answering unreadable (staging_set_upstream s addr fallbacks))
      | Live \<Rightarrow>
          (case upstreams_parse addr fallbacks of
             Inl failure \<Rightarrow> (st, unreadable failure)
           | Inr upstreams \<Rightarrow> (adopt_upstream ck st (Some upstreams), RespOk)))"

definition set_listen :: "'net env \<Rightarrow> 'net daemon \<Rightarrow> listen \<Rightarrow> load_id option \<Rightarrow> 'net daemon \<times> response" where
  "set_listen env st addrs load =
     (case target_of st load of
        RefusedWith answer \<Rightarrow> (st, answer)
      | Staged \<Rightarrow> staged st (\<lambda>s. (staging_set_listen s addrs, RespOk))
      | Live \<Rightarrow> answering unbindable (rebind env st addrs))"

definition add_forward :: "'net env \<Rightarrow> 'net daemon \<Rightarrow> forward \<Rightarrow> load_id option \<Rightarrow> 'net daemon \<times> response" where
  "add_forward env st forward load =
     (case target_of st load of
        RefusedWith answer \<Rightarrow> (st, answer)
      | Staged \<Rightarrow> staged st (\<lambda>s. answering duplicate (staging_push_forward s forward))
      | Live \<Rightarrow>
          (case forwards_push (dm_forwards st) forward of
             (forwards, Inl failure) \<Rightarrow> (st, duplicate failure)
           | (forwards, Inr _) \<Rightarrow> answering unopenable (rebind_forwards env st forwards)))"

definition turn_off :: "'net daemon \<Rightarrow> 'net daemon \<times> response" where
  "turn_off st =
     (case current_load st of
        None \<Rightarrow> (publish_rules st [], RespOk)
      | Some current \<Rightarrow> (st, in_progress (''init run '' @ show_load_id current @ '' is in progress'')))"

subsection \<open>Reading commands\<close>

definition bind_state_of :: "'net daemon \<Rightarrow> bind_state" where
  "bind_state_of st = (case dm_frontends st of Unbound \<Rightarrow> IsUnbound | Bound b \<Rightarrow> IsBound)"

definition listen_of :: "'net daemon \<Rightarrow> listen" where
  "listen_of st = \<lparr> l_http = dm_http_listen st, l_socks = dm_socks_listen st \<rparr>"

definition daemon_status_of :: "clock \<Rightarrow> 'net daemon \<Rightarrow> daemon_status" where
  "daemon_status_of ck st =
     (let entries = arc_val (live_upstream_snapshot (dm_upstream st));
          (upstream, health) = status_first (dm_heap st) entries (dm_unconfigured st);
          selected = entries_selected (dm_heap st) entries (ck_now ck) (dm_hold st)
      in \<lparr> ds_uptime_secs = as_secs (ck_elapsed ck), ds_listen = listen_of st,
           ds_bound = bind_state_of st, ds_forwards = dm_forwards st,
           ds_upstream = upstream, ds_health = health,
           ds_upstreams = upstream_views (dm_heap st) entries selected,
           ds_init_path = dm_init_path st, ds_last_load = dm_last_load st,
           ds_rules =
             \<lparr> rc_require = clamp32 (ruleset_count (dm_rules st) Require),
               rc_prefer = clamp32 (ruleset_count (dm_rules st) Prefer),
               rc_never = clamp32 (ruleset_count (dm_rules st) Never) \<rparr> \<rparr>)"

definition report :: "clock \<Rightarrow> 'net daemon \<Rightarrow> nat \<Rightarrow> effect" where
  "report ck st reply = ReportStatus reply (daemon_status_of ck st) (dm_service st)"

text \<open>The task a report is handed to: settings that cannot be read are reported as off.\<close>

definition report_answer :: "daemon_status \<Rightarrow> (proxy_failure, system_proxy) res \<Rightarrow> response" where
  "report_answer status reading =
     RespStatus (status_show_view status
       (case reading of Inr proxy \<Rightarrow> proxy | Inl failure \<Rightarrow> system_proxy_default))"

definition doctor :: "'net env \<Rightarrow> 'net daemon \<Rightarrow> nat \<Rightarrow> effect" where
  "doctor env st reply =
     RunDoctor reply
       [daemon_reachable (socket_file (en_paths env)),
        ports_bound (listen_of st) (dm_forwards st) (bind_state_of st),
        check_init_file (en_fs env) (init_file (en_paths env)),
        check_last_load (en_rfc3339 env) (dm_last_load st),
        check_log_writable (en_fs env) (log_file (en_paths env))]
       (listen_of st) (dm_service st) (arc_val (live_upstream_snapshot (dm_upstream st)))"

definition doctor_answer ::
  "finding list \<Rightarrow> listen \<Rightarrow> network_service \<Rightarrow> (proxy_failure, system_proxy) res
     \<Rightarrow> tcp \<Rightarrow> heap \<Rightarrow> upstream_entries \<Rightarrow> response" where
  "doctor_answer findings addrs service reading tcp heap entries =
     RespDoctor (doctor_report
       (findings @ [check_system_proxy reading addrs service, upstream_reachable tcp heap entries]))"

definition decision_of :: "'net env \<Rightarrow> clock \<Rightarrow> 'net daemon \<Rightarrow> host \<Rightarrow> port \<Rightarrow> decision_view" where
  "decision_of env ck st host port =
     test_decision (en_ipnet env) (dm_rules st) (dm_heap st) (dm_upstream st) (dm_hold st)
       (ck_now ck) host port"

subsection \<open>Loads\<close>

definition is_file :: "fs \<Rightarrow> path \<Rightarrow> bool" where
  "is_file fs path = (case fs_metadata fs path of None \<Rightarrow> False | Some found \<Rightarrow> fm_is_file found)"

definition reload :: "'net env \<Rightarrow> 'net daemon \<Rightarrow> path option \<Rightarrow> nat \<Rightarrow> 'net daemon \<times> effect list" where
  "reload env st path reply =
     (case current_load st of
        Some current \<Rightarrow>
          (st, [Answer reply (in_progress (''init run '' @ show_load_id current @ '' is in progress''))])
      | None \<Rightarrow>
          (let path = (case path of
                         Some path \<Rightarrow> path
                       | None \<Rightarrow> (case dm_init_path st of
                                    Some remembered \<Rightarrow> remembered
                                  | None \<Rightarrow> init_file (en_paths env)))
           in if \<not> is_file (en_fs env) path
              then (st, [Answer reply (RespErr NotFound (''no init script at '' @ path))])
              else
                let (ids, fresh) = load_ids_issue (dm_load_ids st) in
                (st\<lparr> dm_load_ids := ids, dm_init_path := Some path,
                     dm_load := Some \<lparr> if_id = fresh, if_staged = staging_default, if_reply = reply \<rparr> \<rparr>,
                 [RunScript path (ps_config_dir (en_paths env)) fresh (dm_load_timeout st)])))"

datatype cannot_bind = CannotBindFrontEnds io_error | CannotBindForward io_error

fun cannot_bind_command :: "cannot_bind \<Rightarrow> failed_command" where
  "cannot_bind_command (CannotBindFrontEnds failure) = FailedSetListen"
| "cannot_bind_command (CannotBindForward failure) = FailedAddForward"

fun cannot_bind_message :: "cannot_bind \<Rightarrow> string" where
  "cannot_bind_message (CannotBindFrontEnds failure) =
     ''the init script could not move the front ends: '' @ ie_text failure"
| "cannot_bind_message (CannotBindForward failure) =
     ''the init script could not open a forward: '' @ ie_text failure"

definition commit ::
  "'net env \<Rightarrow> clock \<Rightarrow> 'net daemon \<Rightarrow> 'net staging \<Rightarrow> 'net daemon \<times> (cannot_bind, unit) res" where
  "commit env ck st staging =
     (let c = staging_commit staging in
      case (case cm_listen c of None \<Rightarrow> (st, Ok ()) | Some addrs \<Rightarrow> rebind env st addrs) of
        (st, Inl failure) \<Rightarrow> (st, Err (CannotBindFrontEnds failure))
      | (st, Inr _) \<Rightarrow>
          (case rebind_forwards env st (cm_forwards c) of
             (st, Inl failure) \<Rightarrow> (st, Err (CannotBindForward failure))
           | (st, Inr _) \<Rightarrow> (publish ck st (cm_rules c) (cm_upstream c), Ok ())))"

record settled =
  st_outcome :: load_outcome
  st_command :: "string option"
  st_message :: "string option"

definition show_int :: "int \<Rightarrow> string" where
  "show_int i = (if i < 0 then ''-'' @ show_nat (nat (- i)) else show_nat (nat i))"

definition settle_load ::
  "'net env \<Rightarrow> clock \<Rightarrow> 'net daemon \<Rightarrow> 'net staging \<Rightarrow> script_outcome \<Rightarrow> 'net daemon \<times> settled" where
  "settle_load env ck st staging outcome =
     (case outcome of
        Succeeded \<Rightarrow>
          (case staging_failure staging of
             None \<Rightarrow>
               (case commit env ck st staging of
                  (st, Inr _) \<Rightarrow>
                    (st, \<lparr> st_outcome = LoadOk, st_command = None, st_message = None \<rparr>)
                | (st, Inl failure) \<Rightarrow>
                    (st, \<lparr> st_outcome = LoadFailed,
                           st_command = Some (failed_command_name (cannot_bind_command failure)),
                           st_message = Some (cannot_bind_message failure) \<rparr>))
           | Some rejected \<Rightarrow>
               (st, \<lparr> st_outcome = LoadFailed,
                      st_command = Some (failed_command_name rejected),
                      st_message =
                        Some (''the init script was rejected on '' @ failed_command_name rejected) \<rparr>))
      | Exited status \<Rightarrow>
          (let ended = (case es_code status of
                          Some code \<Rightarrow> ''exited with status '' @ show_int code
                        | None \<Rightarrow> ''was killed by a signal'')
           in (st, \<lparr> st_outcome = LoadFailed,
                     st_command = named_failure (staging_failure staging),
                     st_message =
                       Some (''the init script '' @ ended @ '', its rules were discarded'') \<rparr>))
      | ScriptTimedOut \<Rightarrow>
          (st, \<lparr> st_outcome = LoadTimedOut, st_command = None,
                 st_message =
                   Some (''the init script did not finish within ''
                     @ show_nat (as_secs (dm_load_timeout st)) @ ''s and was killed'') \<rparr>)
      | NotRun failure \<Rightarrow>
          (st, \<lparr> st_outcome = LoadFailed, st_command = None,
                 st_message = Some (''the init script could not be run: '' @ ie_text failure) \<rparr>))"

definition finish ::
  "'net env \<Rightarrow> clock \<Rightarrow> 'net daemon \<Rightarrow> script_outcome \<Rightarrow> 'net daemon \<times> effect list" where
  "finish env ck st outcome =
     (case dm_load st of
        None \<Rightarrow> (st, [])
      | Some f \<Rightarrow>
          (let (st, s) = settle_load env ck (st\<lparr> dm_load := None \<rparr>) (if_staged f) outcome;
               st = st\<lparr> dm_last_load :=
                        Some \<lparr> ll_at = ck_now ck, ll_outcome = st_outcome s,
                               ll_command = st_command s \<rparr> \<rparr>
           in (st,
               [case st_message s of
                  None \<Rightarrow> report ck st (if_reply f)
                | Some message \<Rightarrow> Answer (if_reply f) (RespErr Internal message)])))"

subsection \<open>One command\<close>

definition replied :: "nat \<Rightarrow> 'net daemon \<times> response \<Rightarrow> 'net daemon \<times> effect list" where
  "replied reply outcome = (case outcome of (st, response) \<Rightarrow> (st, [Answer reply response]))"

fun handle ::
  "'net env \<Rightarrow> clock \<Rightarrow> 'net daemon \<Rightarrow> command \<Rightarrow> nat \<Rightarrow> 'net daemon \<times> effect list" where
  "handle env ck st Status reply = (st, [report ck st reply])"
| "handle env ck st Rules reply = (st, [Answer reply (RespRules (rule_views (dm_rules st)))])"
| "handle env ck st (AddRule class kind val load) reply =
     replied reply (add_rule env st class kind val load)"
| "handle env ck st (ClearRules load) reply = replied reply (clear_rules st load)"
| "handle env ck st (SetUpstream addr load) reply = replied reply (set_upstream ck st addr [] load)"
| "handle env ck st (SetUpstreams addr fallbacks load) reply =
     replied reply (set_upstream ck st addr fallbacks load)"
| "handle env ck st (SetListen http socks load) reply =
     replied reply (set_listen env st \<lparr> l_http = http, l_socks = socks \<rparr> load)"
| "handle env ck st (AddForward addr host port load) reply =
     replied reply
       (add_forward env st
          \<lparr> f_listen = addr, f_target = \<lparr> t_host = host, t_port = port \<rparr> \<rparr> load)"
| "handle env ck st (Reload path) reply = reload env st path reply"
| "handle env ck st CmdOn reply = reload env st None reply"
| "handle env ck st CmdOff reply = replied reply (turn_off st)"
| "handle env ck st (Test host port) reply =
     (st, [Answer reply (RespDecision (decision_of env ck st host port))])"
| "handle env ck st Doctor reply = (st, [doctor env st reply])"
| "handle env ck st Subscribe reply = (st, [Answer reply streamed])"

subsection \<open>The event loop\<close>

text \<open>\<open>serve\<close>: one request or the end of the script at a time, whichever comes first.\<close>

datatype task_event = TakeRequest clock command nat | TakeCompletion clock script_outcome

fun task_step :: "'net env \<Rightarrow> 'net daemon \<Rightarrow> task_event \<Rightarrow> 'net daemon \<times> effect list" where
  "task_step env st (TakeRequest ck cmd reply) = handle env ck st cmd reply"
| "task_step env st (TakeCompletion ck outcome) = finish env ck st outcome"

definition run_task :: "'net env \<Rightarrow> 'net daemon \<Rightarrow> task_event list \<Rightarrow> 'net daemon" where
  "run_task env st evs = foldl (\<lambda>st ev. fst (task_step env st ev)) st evs"

lemma run_task_simps [simp]:
  "run_task env st [] = st"
  "run_task env st (ev # evs) = run_task env (fst (task_step env st ev)) evs"
  "run_task env st (evs @ evs') = run_task env (run_task env st evs) evs'"
  by (simp_all add: run_task_def)

end
