(* ===== verification/Loads.thy ===== *)
theory Loads
  imports Daemon
begin

section \<open>Loads are transactions\<close>

text \<open>
  What the state task promises about a run of the init script: while it is in flight its commands
  are staged and nothing else changes, commands of no run or another run are refused, and its end
  either replaces the rules and the upstreams by exactly what the run declared or leaves them.
\<close>

subsection \<open>The specification of a run\<close>

text \<open>What one command of a run does to the staging, whatever else the daemon holds.\<close>

fun stage_command :: "'net ipnet \<Rightarrow> 'net staging \<Rightarrow> command \<Rightarrow> 'net staging" where
  "stage_command ipnet s (AddRule class kind val load) = fst (staging_push_rule ipnet s class kind val)"
| "stage_command ipnet s (ClearRules load) = staging_clear_rules s"
| "stage_command ipnet s (SetUpstream addr load) = fst (staging_set_upstream s addr [])"
| "stage_command ipnet s (SetUpstreams addr fallbacks load) =
     fst (staging_set_upstream s addr fallbacks)"
| "stage_command ipnet s (SetListen http socks load) =
     staging_set_listen s \<lparr> l_http = http, l_socks = socks \<rparr>"
| "stage_command ipnet s (AddForward addr host port load) =
     fst (staging_push_forward s
       \<lparr> f_listen = addr, f_target = \<lparr> t_host = host, t_port = port \<rparr> \<rparr>)"
| "stage_command ipnet s _ = s"

type_synonym request = "clock \<times> command \<times> nat"

definition run_requests :: "'net env \<Rightarrow> 'net daemon \<Rightarrow> request list \<Rightarrow> 'net daemon" where
  "run_requests env st reqs = run_task env st (map (\<lambda>(ck, cmd, reply). TakeRequest ck cmd reply) reqs)"

text \<open>The commands of a run among the requests that arrive while it is in flight.\<close>

definition declared :: "load_id \<Rightarrow> request list \<Rightarrow> command list" where
  "declared current reqs =
     filter (\<lambda>cmd. load_of_command cmd = Some current) (map (\<lambda>(ck, cmd, reply). cmd) reqs)"

definition staged_by :: "'net env \<Rightarrow> 'net in_flight \<Rightarrow> request list \<Rightarrow> 'net staging" where
  "staged_by env f reqs =
     foldl (stage_command (en_ipnet env)) (if_staged f) (declared (if_id f) reqs)"

text \<open>Everything traffic sees.\<close>

definition live_part where
  "live_part st =
     (dm_rules st, dm_heap st, dm_upstream st, dm_frontends st, listen_of st, dm_forwards st)"

subsection \<open>A run in flight\<close>

lemma fst_answering [simp]: "fst (answering refuse outcome) = fst outcome"
  by (simp add: answering_def split: prod.split sum.split)

lemma replied_simps [simp]:
  "fst (replied reply outcome) = fst outcome"
  "snd (replied reply outcome) = [Answer reply (snd outcome)]"
  by (simp_all add: replied_def split: prod.split)

lemma staged_in_flight:
  "dm_load st = Some f \<Longrightarrow>
     staged st g = (st\<lparr> dm_load := Some (f\<lparr> if_staged := fst (g (if_staged f)) \<rparr>) \<rparr>, snd (g (if_staged f)))"
  by (simp add: staged_def split: prod.split)

lemma target_in_flight:
  assumes "dm_load st = Some f"
  shows "load = Some (if_id f) \<Longrightarrow> target_of st load = Staged"
    and "load \<noteq> Some (if_id f) \<Longrightarrow> \<exists>m. target_of st load = RefusedWith (RespErr LoadInProgress m)"
  using assms
  by (auto simp: target_of_def current_load_def refused_def in_progress_def split: option.split)

lemma handle_in_flight:
  assumes "dm_load st = Some f"
  shows "fst (handle env ck st cmd reply) =
    (if load_of_command cmd = Some (if_id f)
     then st\<lparr> dm_load := Some (f\<lparr> if_staged := stage_command (en_ipnet env) (if_staged f) cmd \<rparr>) \<rparr>
     else st)"
proof (cases "mutating cmd")
  case False
  then show ?thesis
    using assms
    by (cases cmd) (simp_all add: reload_def turn_off_def current_load_def)
next
  case True
  show ?thesis
  proof (cases "load_of_command cmd = Some (if_id f)")
    case own: True
    then have "target_of st (load_of_command cmd) = Staged"
      by (rule target_in_flight(1) [OF assms])
    with own True show ?thesis
      by (cases cmd) (simp_all add: add_rule_def clear_rules_def set_upstream_def set_listen_def
          add_forward_def staged_in_flight [OF assms])
  next
    case other: False
    then obtain m where "target_of st (load_of_command cmd) = RefusedWith (RespErr LoadInProgress m)"
      using target_in_flight(2) [OF assms] by blast
    with other True show ?thesis
      by (cases cmd) (simp_all add: add_rule_def clear_rules_def set_upstream_def set_listen_def
          add_forward_def)
  qed
qed

lemma run_requests_in_flight:
  "dm_load st = Some f \<Longrightarrow>
     run_requests env st reqs = st\<lparr> dm_load := Some (f\<lparr> if_staged := staged_by env f reqs \<rparr>) \<rparr>"
proof (induction reqs arbitrary: st f)
  case Nil
  then show ?case by (simp add: run_requests_def staged_by_def declared_def)
next
  case (Cons req reqs)
  obtain ck cmd reply where req: "req = (ck, cmd, reply)" by (cases req)
  define g where "g = (if load_of_command cmd = Some (if_id f)
    then f\<lparr> if_staged := stage_command (en_ipnet env) (if_staged f) cmd \<rparr> else f)"
  have first: "fst (handle env ck st cmd reply) = st\<lparr> dm_load := Some g \<rparr>"
    using handle_in_flight [OF Cons.prems, of env ck cmd reply] Cons.prems by (simp add: g_def)
  have "run_requests env (st\<lparr> dm_load := Some g \<rparr>) reqs =
      st\<lparr> dm_load := Some (g\<lparr> if_staged := staged_by env g reqs \<rparr>) \<rparr>"
    using Cons.IH [of "st\<lparr> dm_load := Some g \<rparr>" g] by simp
  moreover have "g\<lparr> if_staged := staged_by env g reqs \<rparr>
      = f\<lparr> if_staged := staged_by env f (req # reqs) \<rparr>"
    by (simp add: g_def staged_by_def declared_def req)
  ultimately show ?case by (simp add: run_requests_def req first)
qed

subsection \<open>The end of a run\<close>

lemma live_part_load [simp]: "live_part (st\<lparr> dm_load := l \<rparr>) = live_part st"
  "live_part (st\<lparr> dm_last_load := ll \<rparr>) = live_part st"
  by (simp_all add: live_part_def listen_of_def)

lemma rebind_keeps:
  "rebind env st addrs = (st', moved) \<Longrightarrow>
     dm_rules st' = dm_rules st \<and> dm_heap st' = dm_heap st \<and> dm_upstream st' = dm_upstream st
     \<and> dm_ptr st' = dm_ptr st \<and> dm_load st' = dm_load st \<and> dm_load_ids st' = dm_load_ids st"
  by (auto simp: rebind_def Let_def split: prod.splits sum.splits)

lemma rebind_forwards_keeps:
  "rebind_forwards env st fs = (st', moved) \<Longrightarrow>
     dm_rules st' = dm_rules st \<and> dm_heap st' = dm_heap st \<and> dm_upstream st' = dm_upstream st
     \<and> dm_ptr st' = dm_ptr st \<and> dm_load st' = dm_load st \<and> dm_load_ids st' = dm_load_ids st
     \<and> listen_of st' = listen_of st"
  by (auto simp: rebind_forwards_def listen_of_def Let_def split: prod.splits sum.splits)

lemma adopt_upstream_keeps [simp]:
  "dm_rules (adopt_upstream ck st us) = dm_rules st" "dm_load (adopt_upstream ck st us) = dm_load st"
  "dm_load_ids (adopt_upstream ck st us) = dm_load_ids st"
  "dm_frontends (adopt_upstream ck st us) = dm_frontends st"
  "dm_forwards (adopt_upstream ck st us) = dm_forwards st"
  "listen_of (adopt_upstream ck st us) = listen_of st"
  by (auto simp: adopt_upstream_def listen_of_def Let_def split: option.split prod.split)

lemma adopt_nothing [simp]: "adopt_upstream ck st None = st"
  by (simp add: adopt_upstream_def)

lemma publish_rules_simps [simp]:
  "dm_rules (publish_rules st rules) = rules" "dm_heap (publish_rules st rules) = dm_heap st"
  "dm_upstream (publish_rules st rules) = dm_upstream st"
  "dm_load (publish_rules st rules) = dm_load st"
  "dm_load_ids (publish_rules st rules) = dm_load_ids st"
  "dm_frontends (publish_rules st rules) = dm_frontends st"
  "dm_forwards (publish_rules st rules) = dm_forwards st"
  "listen_of (publish_rules st rules) = listen_of st"
  by (simp_all add: publish_rules_def listen_of_def)

lemma adopted_upstreams:
  "map ue_upstream (ues_entries (arc_val (dm_upstream (adopt_upstream ck st (Some us))))) = us"
proof -
  obtain heap entries where run: "adopted (dm_heap st) (arc_val (dm_upstream st)) (\<lambda>_. ck_now ck) us
      = (heap, entries)" by fastforce
  show ?thesis
    using adopt_from_upstreams [OF adopted_run(1) [OF run]] run
    by (simp add: adopt_upstream_def live_upstream_publish_def)
qed

text \<open>What a commit publishes, or what it leaves when a listener cannot be opened.\<close>

lemma commit_outcome:
  assumes "commit env ck st staging = (st', outcome)"
  shows "dm_load st' = dm_load st \<and> dm_load_ids st' = dm_load_ids st \<and>
    (case outcome of
       Inr _ \<Rightarrow>
         dm_rules st' = sg_rules staging \<and>
         (case sg_upstream staging of
            None \<Rightarrow> dm_heap st' = dm_heap st \<and> dm_upstream st' = dm_upstream st
          | Some us \<Rightarrow> map ue_upstream (ues_entries (arc_val (dm_upstream st'))) = us)
     | Inl _ \<Rightarrow>
         dm_rules st' = dm_rules st \<and> dm_heap st' = dm_heap st \<and> dm_upstream st' = dm_upstream st)"
proof -
  define moved where "moved = (case sg_listen staging of None \<Rightarrow> (st, Ok ()) | Some addrs \<Rightarrow> rebind env st addrs)"
  obtain st1 r1 where m: "moved = (st1, r1)" by (cases moved)
  have keeps: "dm_rules st1 = dm_rules st \<and> dm_heap st1 = dm_heap st \<and> dm_upstream st1 = dm_upstream st
      \<and> dm_load st1 = dm_load st \<and> dm_load_ids st1 = dm_load_ids st"
    using m rebind_keeps [of env st] by (auto simp: moved_def split: option.splits)
  obtain st2 r2 where fw: "rebind_forwards env st1 (sg_forwards staging) = (st2, r2)" by fastforce
  note keeps2 = rebind_forwards_keeps [OF fw]
  show ?thesis
    using assms m fw keeps keeps2 adopted_upstreams [of ck "publish_rules st2 (sg_rules staging)"]
    unfolding commit_def staging_commit_def moved_def
    by (cases r1; cases r2; cases "sg_upstream staging")
      (auto simp: publish_def)
qed


text \<open>What the end of a run does to traffic, by how the script ended and what it staged.\<close>

lemma settle_outcome:
  assumes "settle_load env ck st staging outcome = (st', s)"
  shows "dm_load st' = dm_load st \<and>
    (if st_outcome s = LoadOk
     then outcome = Succeeded \<and> sg_failed staging = None \<and> st_message s = None
       \<and> commit env ck st staging = (st', Ok ())
     else st_message s \<noteq> None \<and> dm_rules st' = dm_rules st \<and> dm_heap st' = dm_heap st
       \<and> dm_upstream st' = dm_upstream st
       \<and> (outcome = Succeeded \<and> sg_failed staging = None \<or> live_part st' = live_part st))"
proof (cases "outcome = Succeeded \<and> sg_failed staging = None")
  case True
  obtain st1 r where c: "commit env ck st staging = (st1, r)" by fastforce
  with commit_outcome [OF c] assms True show ?thesis
    by (cases r) (auto simp: settle_load_def staging_failure_def)
next
  case False
  with assms show ?thesis
    by (cases outcome) (auto simp: settle_load_def staging_failure_def Let_def split: option.splits)
qed

lemma finish_outcome:
  assumes "dm_load st = Some f" and "finish env ck st outcome = (st', effects)"
  obtains st1 s where "settle_load env ck (st\<lparr> dm_load := None \<rparr>) (if_staged f) outcome = (st1, s)"
    and "st' = st1\<lparr> dm_last_load :=
      Some \<lparr> ll_at = ck_now ck, ll_outcome = st_outcome s, ll_command = st_command s \<rparr> \<rparr>"
    and "effects = [case st_message s of None \<Rightarrow> report ck st' (if_reply f)
                    | Some m \<Rightarrow> Answer (if_reply f) (RespErr Internal m)]"
  using assms by (auto simp: finish_def Let_def split: prod.splits)

text \<open>
  The specification of a load: from the state \<open>st\<close> before the run and what its commands declared,
  what may hold once it has ended.
\<close>

definition load_ended ::
  "'net daemon \<Rightarrow> 'net staging \<Rightarrow> script_outcome \<Rightarrow> clock \<Rightarrow> nat \<Rightarrow> 'net daemon \<Rightarrow> effect list \<Rightarrow> bool"
where
  "load_ended st staging outcome ck reply st' effects \<longleftrightarrow>
     dm_load st' = None \<and>
     (case dm_last_load st' of
        None \<Rightarrow> False
      | Some l \<Rightarrow>
          if ll_outcome l = LoadOk
          then outcome = Succeeded \<and> sg_failed staging = None
            \<and> effects = [report ck st' reply]
            \<and> dm_rules st' = sg_rules staging
            \<and> (case sg_upstream staging of
                 None \<Rightarrow> dm_heap st' = dm_heap st \<and> dm_upstream st' = dm_upstream st
               | Some us \<Rightarrow> map ue_upstream (ues_entries (arc_val (dm_upstream st'))) = us)
          else list_ex (\<lambda>e. case e of Answer r (RespErr k m) \<Rightarrow> r = reply \<and> k = Internal | _ \<Rightarrow> False) effects
            \<and> dm_rules st' = dm_rules st \<and> dm_heap st' = dm_heap st
            \<and> dm_upstream st' = dm_upstream st
            \<and> (outcome = Succeeded \<and> sg_failed staging = None \<or> live_part st' = live_part st))"

lemma finish_traffic:
  assumes "dm_load st = Some f" and "finish env ck st outcome = (st', effects)"
  shows "load_ended st (if_staged f) outcome ck (if_reply f) st' effects"
proof -
  from assms obtain st1 s where settled:
      "settle_load env ck (st\<lparr> dm_load := None \<rparr>) (if_staged f) outcome = (st1, s)"
    and st': "st' = st1\<lparr> dm_last_load :=
        Some \<lparr> ll_at = ck_now ck, ll_outcome = st_outcome s, ll_command = st_command s \<rparr> \<rparr>"
    and eff: "effects = [case st_message s of None \<Rightarrow> report ck st' (if_reply f)
                    | Some m \<Rightarrow> Answer (if_reply f) (RespErr Internal m)]"
    by (rule finish_outcome)
  note out = settle_outcome [OF settled]
  show ?thesis
  proof (cases "st_outcome s = LoadOk")
    case True
    with out have c: "commit env ck (st\<lparr> dm_load := None \<rparr>) (if_staged f) = (st1, Ok ())" by simp
    from commit_outcome [OF c] out True show ?thesis
      unfolding load_ended_def by (cases "sg_upstream (if_staged f)") (simp_all add: st' eff)
  next
    case False
    with out show ?thesis unfolding load_ended_def by (auto simp: st' eff)
  qed
qed

lemma load_ended_from:
  "live_part st = live_part st0 \<Longrightarrow>
     load_ended st staging outcome ck reply st' effects = load_ended st0 staging outcome ck reply st' effects"
proof -
  assume same: "live_part st = live_part st0"
  then have "dm_rules st = dm_rules st0" "dm_heap st = dm_heap st0" "dm_upstream st = dm_upstream st0"
    by (simp_all add: live_part_def)
  with same show "load_ended st staging outcome ck reply st' effects
      = load_ended st0 staging outcome ck reply st' effects"
    by (simp only: load_ended_def)
qed

subsection \<open>The invariant of the state task\<close>

definition frontends_agree :: "'net daemon \<Rightarrow> bool" where
  "frontends_agree st \<longleftrightarrow>
     (case dm_frontends st of
        Unbound \<Rightarrow> True
      | Bound b \<Rightarrow> listen_of st = bound_listen b \<and> dm_forwards st = bound_forwards b)"

definition wf_load :: "'net env \<Rightarrow> 'net daemon \<Rightarrow> bool" where
  "wf_load env st \<longleftrightarrow>
     (case dm_load st of
        None \<Rightarrow> True
      | Some f \<Rightarrow> if_id f = dm_load_ids st \<and> wf_staging (en_ipnet env) (if_staged f))"

definition wf_daemon :: "'net env \<Rightarrow> 'net daemon \<Rightarrow> bool" where
  "wf_daemon env st \<longleftrightarrow>
     wf_ruleset (en_ipnet env) (dm_rules st)
     \<and> wf_entries (dm_heap st) (ues_entries (arc_val (dm_upstream st)))
     \<and> wf_forwards (dm_forwards st) \<and> frontends_agree st \<and> wf_load env st"

lemma wf_publish_rules [wf_intros]:
  "wf_daemon env st \<Longrightarrow> wf_ruleset (en_ipnet env) rules \<Longrightarrow> wf_daemon env (publish_rules st rules)"
  by (simp add: wf_daemon_def frontends_agree_def wf_load_def publish_rules_def listen_of_def
      cong: frontends.case_cong option.case_cong)

lemma wf_adopt_upstream [wf_intros]:
  assumes "wf_daemon env st" and "case us of None \<Rightarrow> True | Some us \<Rightarrow> wf_upstreams us"
  shows "wf_daemon env (adopt_upstream ck st us)"
proof (cases us)
  case (Some us')
  obtain heap entries where run: "adopted (dm_heap st) (arc_val (dm_upstream st)) (\<lambda>_. ck_now ck) us'
      = (heap, entries)" by fastforce
  have "wf_entries heap (ues_entries entries)"
    using adopted_wf [OF _ _ run] assms Some by (simp add: wf_daemon_def)
  with assms(1) Some run show ?thesis
    by (simp add: wf_daemon_def frontends_agree_def wf_load_def adopt_upstream_def listen_of_def
        live_upstream_publish_def cong: frontends.case_cong option.case_cong)
qed (use assms(1) in simp)

lemma wf_rebind [wf_intros]:
  assumes "wf_daemon env st" and "sockets_named (en_os env)"
  shows "wf_daemon env (fst (rebind env st addrs))"
proof -
  obtain st' moved where run: "rebind env st addrs = (st', moved)" by fastforce
  note keeps = rebind_keeps [OF run]
  have "dm_forwards st' = dm_forwards st \<and> frontends_agree st'"
  proof (cases "dm_frontends st")
    case Unbound
    with run show ?thesis
      by (auto simp: rebind_def frontends_agree_def split: sum.splits)
  next
    case (Bound b)
    obtain n b' r where moved: "bound_rebind (en_os env) (dm_binds st) b addrs = (n, b', r)"
      by (metis prod_cases3)
    from bound_rebind_reports [OF assms(2) moved] assms(1) Bound run moved show ?thesis
      by (cases r) (auto simp: rebind_def wf_daemon_def frontends_agree_def listen_of_def
          bound_listen_def bound_forwards_def)
  qed
  with keeps assms(1) show ?thesis
    by (simp add: run wf_daemon_def wf_load_def cong: option.case_cong)
qed

lemma wf_rebind_forwards [wf_intros]:
  assumes "wf_daemon env st" and "sockets_named (en_os env)" and "wf_forwards wanted"
  shows "wf_daemon env (fst (rebind_forwards env st wanted))"
proof -
  obtain st' moved where run: "rebind_forwards env st wanted = (st', moved)" by fastforce
  note keeps = rebind_forwards_keeps [OF run]
  have "wf_forwards (dm_forwards st') \<and> frontends_agree st'"
  proof (cases "dm_frontends st")
    case Unbound
    with run assms show ?thesis
      by (auto simp: rebind_forwards_def frontends_agree_def split: sum.splits)
  next
    case (Bound b)
    obtain n b' r where moved: "bound_rebind_forwards (en_os env) (dm_binds st) b wanted = (n, b', r)"
      by (metis prod_cases3)
    from bound_rebind_forwards_reports [OF assms(2) moved] assms(1) Bound run moved
    show ?thesis
      by (cases r) (auto simp: rebind_forwards_def wf_daemon_def frontends_agree_def listen_of_def
          bound_forwards_wf)
  qed
  with keeps assms(1) show ?thesis
    by (simp add: run wf_daemon_def wf_load_def cong: option.case_cong)
qed

lemma wf_stage_command [wf_intros]:
  "wf_staging ipnet s \<Longrightarrow> wf_staging ipnet (stage_command ipnet s cmd)"
  by (cases cmd) (simp_all add: staging_push_rule_wf staging_clear_rules_wf staging_set_upstream_wf
      staging_set_listen_wf staging_push_forward_wf)

lemma wf_handle_in_flight:
  assumes "wf_daemon env st" and "dm_load st = Some f"
  shows "wf_daemon env (fst (handle env ck st cmd reply))"
  using assms(1) wf_stage_command [of "en_ipnet env" "if_staged f" cmd]
  by (auto simp: handle_in_flight [OF assms(2)] wf_daemon_def frontends_agree_def wf_load_def assms(2)
      listen_of_def cong: frontends.case_cong)

lemma reload_shape:
  "fst (reload env st path reply) = st \<or>
     (\<exists>script. fst (reload env st path reply) =
        st\<lparr> dm_load_ids := snd (load_ids_issue (dm_load_ids st)), dm_init_path := Some script,
            dm_load := Some \<lparr> if_id = snd (load_ids_issue (dm_load_ids st)),
                              if_staged = staging_default, if_reply = reply \<rparr> \<rparr>)"
proof (cases "current_load st")
  case None
  define script where "script = (case path of
      Some path \<Rightarrow> path
    | None \<Rightarrow> (case dm_init_path st of Some remembered \<Rightarrow> remembered | None \<Rightarrow> init_file (en_paths env)))"
  from None show ?thesis
    unfolding reload_def Let_def script_def [symmetric] option.case
    by (cases "is_file (en_fs env) script") (auto simp: load_ids_issue_def Let_def)
qed (simp add: reload_def)

lemma wf_reload [wf_intros]:
  assumes "wf_daemon env st"
  shows "wf_daemon env (fst (reload env st path reply))"
  using reload_shape [of env st path reply]
proof
  assume "\<exists>script. fst (reload env st path reply) =
      st\<lparr> dm_load_ids := snd (load_ids_issue (dm_load_ids st)), dm_init_path := Some script,
          dm_load := Some \<lparr> if_id = snd (load_ids_issue (dm_load_ids st)),
                            if_staged = staging_default, if_reply = reply \<rparr> \<rparr>"
  then show ?thesis
    using assms by (auto simp: wf_daemon_def frontends_agree_def wf_load_def listen_of_def
        cong: frontends.case_cong)
qed (use assms in simp)

text \<open>While nothing is in flight a command of no run applies at once, any other is refused.\<close>

lemma target_idle:
  assumes "dm_load st = None"
  shows "target_of st None = Live"
    and "\<exists>m. target_of st (Some i) = RefusedWith (RespErr LoadInProgress m)"
  using assms by (simp_all add: target_of_def current_load_def refused_def in_progress_def)

lemma handle_refused:
  assumes "target_of st (load_of_command cmd) = RefusedWith response" and "mutating cmd"
  shows "handle env ck st cmd reply = (st, [Answer reply response])"
  using assms
  by (cases cmd) (simp_all add: add_rule_def clear_rules_def set_upstream_def set_listen_def
      add_forward_def replied_def)

lemma wf_handle_live:
  assumes "wf_daemon env st" and "target_of st (load_of_command cmd) = Live" and "mutating cmd"
    and "sockets_named (en_os env)"
  shows "wf_daemon env (fst (handle env ck st cmd reply))"
proof (cases cmd)
  case (AddRule c k v l)
  obtain rules r where push: "ruleset_push (en_ipnet env) (dm_rules st) c k v = (rules, r)" by fastforce
  then have "wf_ruleset (en_ipnet env) rules"
    using assms(1) ruleset_push_wf [of "en_ipnet env" "dm_rules st" c k v] by (simp add: wf_daemon_def)
  with assms AddRule push show ?thesis
    by (cases r) (simp_all add: add_rule_def wf_publish_rules)
next
  case (AddForward a h p l)
  let ?f = "\<lparr> f_listen = a, f_target = \<lparr> t_host = h, t_port = p \<rparr> \<rparr>"
  obtain fs r where push: "forwards_push (dm_forwards st) ?f = (fs, r)" by fastforce
  then have "wf_forwards fs"
    using assms(1) forwards_push_wf [of "dm_forwards st" ?f] by (simp add: wf_daemon_def)
  with assms AddForward push show ?thesis
    by (cases r) (simp_all add: add_forward_def wf_rebind_forwards)
next
  case (SetUpstream a l)
  with assms show ?thesis
    by (cases "upstreams_parse a []")
      (simp_all add: set_upstream_def wf_adopt_upstream upstreams_parse_wf)
next
  case (SetUpstreams a fs l)
  with assms show ?thesis
    by (cases "upstreams_parse a fs")
      (simp_all add: set_upstream_def wf_adopt_upstream upstreams_parse_wf)
qed (use assms in \<open>simp_all add: clear_rules_def set_listen_def wf_publish_rules wf_rebind\<close>)

lemma wf_handle_idle:
  assumes "wf_daemon env st" and "dm_load st = None" and "sockets_named (en_os env)"
  shows "wf_daemon env (fst (handle env ck st cmd reply))"
proof (cases "mutating cmd")
  case True
  show ?thesis
  proof (cases "load_of_command cmd")
    case None
    with target_idle(1) [OF assms(2)] True assms(1,3) show ?thesis by (simp add: wf_handle_live)
  next
    case (Some i)
    with target_idle(2) [OF assms(2), of i] True assms(1) show ?thesis
      by (auto simp: handle_refused)
  qed
next
  case False
  with assms show ?thesis
    by (cases cmd) (simp_all add: wf_reload turn_off_def current_load_def wf_publish_rules)
qed

lemma wf_handle [wf_intros]:
  "wf_daemon env st \<Longrightarrow> sockets_named (en_os env) \<Longrightarrow> wf_daemon env (fst (handle env ck st cmd reply))"
  using wf_handle_in_flight wf_handle_idle by (cases "dm_load st") blast+

lemma wf_drop_load:
  "wf_daemon env st \<Longrightarrow> wf_daemon env (st\<lparr> dm_load := None \<rparr>)"
  by (simp add: wf_daemon_def frontends_agree_def wf_load_def listen_of_def
      cong: frontends.case_cong)

lemma wf_last_load:
  "wf_daemon env (st\<lparr> dm_last_load := l \<rparr>) = wf_daemon env st"
  by (simp add: wf_daemon_def frontends_agree_def wf_load_def listen_of_def
      cong: frontends.case_cong option.case_cong)

lemma wf_commit [wf_intros]:
  assumes "wf_daemon env st" and "wf_staging (en_ipnet env) staging" and "sockets_named (en_os env)"
  shows "wf_daemon env (fst (commit env ck st staging))"
proof -
  define moved where "moved = (case sg_listen staging of None \<Rightarrow> (st, Ok ()) | Some addrs \<Rightarrow> rebind env st addrs)"
  obtain st1 r1 where m: "moved = (st1, r1)" by (cases moved)
  have wf1: "wf_daemon env st1"
    using m assms wf_rebind [of env st] by (auto simp: moved_def split: option.splits) (metis fst_conv)
  obtain st2 r2 where fw: "rebind_forwards env st1 (sg_forwards staging) = (st2, r2)" by fastforce
  have wf2: "wf_daemon env st2"
    using wf_rebind_forwards [OF wf1 assms(3), of "sg_forwards staging"] fw assms(2)
    by (simp add: wf_staging_def)
  show ?thesis
    using m fw wf1 wf2 assms(2)
    unfolding commit_def staging_commit_def moved_def
    by (cases r1; cases r2)
      (auto simp: publish_def wf_staging_def intro!: wf_adopt_upstream wf_publish_rules)
qed

lemma wf_finish [wf_intros]:
  assumes "wf_daemon env st" and "sockets_named (en_os env)"
  shows "wf_daemon env (fst (finish env ck st outcome))"
proof (cases "dm_load st")
  case (Some f)
  let ?st = "st\<lparr> dm_load := None \<rparr>"
  have wf: "wf_daemon env ?st" "wf_staging (en_ipnet env) (if_staged f)"
    using assms(1) Some by (simp_all add: wf_drop_load) (simp add: wf_daemon_def wf_load_def)
  obtain st1 s where settled: "settle_load env ck ?st (if_staged f) outcome = (st1, s)" by fastforce
  have "wf_daemon env st1"
    using settled wf wf_commit [OF wf assms(2), of ck]
    by (auto simp: settle_load_def Let_def split: script_outcome.splits option.splits prod.splits sum.splits)
  with settled Some show ?thesis by (simp add: finish_def wf_last_load Let_def)
qed (use assms in \<open>simp add: finish_def\<close>)

lemma wf_task_step [wf_intros]:
  "wf_daemon env st \<Longrightarrow> sockets_named (en_os env) \<Longrightarrow> wf_daemon env (fst (task_step env st ev))"
  by (cases ev) (simp_all add: wf_handle wf_finish)

lemma wf_run_task [wf_intros]:
  "wf_daemon env st \<Longrightarrow> sockets_named (en_os env) \<Longrightarrow> wf_daemon env (run_task env st evs)"
  by (induction evs arbitrary: st) (simp_all add: wf_task_step)

subsection \<open>Identifiers of loads\<close>

lemma rebind_ids [simp]:
  "dm_load_ids (fst (rebind env st addrs)) = dm_load_ids st"
  "dm_load (fst (rebind env st addrs)) = dm_load st"
  by (simp_all add: rebind_def Let_def split: prod.split sum.split)

lemma rebind_forwards_ids [simp]:
  "dm_load_ids (fst (rebind_forwards env st fs)) = dm_load_ids st"
  "dm_load (fst (rebind_forwards env st fs)) = dm_load st"
  by (simp_all add: rebind_forwards_def Let_def split: prod.split sum.split)

lemma handle_idle_ids:
  assumes "mutating cmd" and "dm_load st = None"
  shows "dm_load_ids (fst (handle env ck st cmd reply)) = dm_load_ids st
    \<and> dm_load (fst (handle env ck st cmd reply)) = None"
proof (cases "load_of_command cmd")
  case None
  note live = target_idle(1) [OF assms(2)]
  show ?thesis
  proof (cases cmd)
    case (AddRule c k v l)
    then show ?thesis
      using live None assms(2)
      by (cases "ruleset_push (en_ipnet env) (dm_rules st) c k v"; cases "snd (ruleset_push (en_ipnet env) (dm_rules st) c k v)")
        (simp_all add: add_rule_def)
  next
    case (AddForward a h p l)
    let ?f = "\<lparr> f_listen = a, f_target = \<lparr> t_host = h, t_port = p \<rparr> \<rparr>"
    from AddForward show ?thesis
      using live None assms(2)
      by (cases "forwards_push (dm_forwards st) ?f"; cases "snd (forwards_push (dm_forwards st) ?f)")
        (simp_all add: add_forward_def)
  next
    case (SetUpstream a l)
    then show ?thesis
      using live None assms(2) by (cases "upstreams_parse a []") (simp_all add: set_upstream_def)
  next
    case (SetUpstreams a fs l)
    then show ?thesis
      using live None assms(2) by (cases "upstreams_parse a fs") (simp_all add: set_upstream_def)
  qed (use live None assms in \<open>simp_all add: clear_rules_def set_listen_def\<close>)
next
  case (Some i)
  with target_idle(2) [OF assms(2), of i] assms show ?thesis by (auto simp: handle_refused)
qed

lemma finish_ids: "dm_load_ids (fst (finish env ck st outcome)) = dm_load_ids st
    \<and> dm_load (fst (finish env ck st outcome)) = None"
proof (cases "dm_load st")
  case (Some f)
  let ?st = "st\<lparr> dm_load := None \<rparr>"
  obtain st1 s where settled: "settle_load env ck ?st (if_staged f) outcome = (st1, s)" by fastforce
  have "dm_load_ids st1 = dm_load_ids st \<and> dm_load st1 = None"
    using settled commit_outcome [of env ck ?st "if_staged f"]
    by (auto simp: settle_load_def Let_def split: script_outcome.splits option.splits prod.splits sum.splits)
  with settled Some show ?thesis by (simp add: finish_def Let_def)
qed (simp add: finish_def)

text \<open>A step issues the next identifier, or none; a run once over is never in flight again.\<close>

lemma task_step_ids:
  assumes "dm_load_ids st < u64_max"
  shows "let st' = fst (task_step env st ev) in
    dm_load_ids st' = dm_load_ids st \<and> current_load st' \<in> {None, current_load st}
    \<or> dm_load_ids st' = Suc (dm_load_ids st) \<and> current_load st' = Some (Suc (dm_load_ids st))"
proof (cases ev)
  case (TakeCompletion ck outcome)
  then show ?thesis by (simp add: finish_ids current_load_def)
next
  case (TakeRequest ck cmd reply)
  show ?thesis
  proof (cases "dm_load st")
    case (Some f)
    then show ?thesis by (simp add: TakeRequest handle_in_flight current_load_def Let_def)
  next
    case None
    show ?thesis
    proof (cases "mutating cmd")
      case True
      with handle_idle_ids [OF True None] show ?thesis by (simp add: TakeRequest current_load_def)
    next
      case False
      have "let st' = fst (reload env st path reply) in
          dm_load_ids st' = dm_load_ids st \<and> current_load st' \<in> {None, current_load st}
          \<or> dm_load_ids st' = Suc (dm_load_ids st) \<and> current_load st' = Some (Suc (dm_load_ids st))"
        for path
        using reload_shape [of env st path reply] load_ids_issue_fresh [OF assms]
        by (auto simp: current_load_def)
      with False None show ?thesis
        by (cases cmd) (simp_all add: TakeRequest turn_off_def current_load_def)
    qed
  qed
qed

lemma run_task_stale:
  assumes "dm_load_ids st + length evs \<le> u64_max" and "i \<le> dm_load_ids st"
    and "current_load st \<noteq> Some i"
  shows "i \<le> dm_load_ids (run_task env st evs) \<and> current_load (run_task env st evs) \<noteq> Some i"
  using assms
proof (induction evs arbitrary: st)
  case (Cons ev evs)
  let ?st = "fst (task_step env st ev)"
  from Cons.prems have "dm_load_ids st < u64_max" by simp
  from task_step_ids [OF this, of env ev] Cons.prems
  have "dm_load_ids ?st + length evs \<le> u64_max \<and> i \<le> dm_load_ids ?st \<and> current_load ?st \<noteq> Some i"
    by (auto simp: Let_def)
  with Cons.IH [of ?st] show ?case by simp
qed simp

subsection \<open>An example run\<close>

text \<open>A daemon with nothing listening whose init script exists, and the run it starts.\<close>

definition example_env :: "ipv4 env" where
  "example_env =
     \<lparr> en_ipnet = ipnet24, en_os = free_os,
       en_fs = \<lparr> fs_metadata = (\<lambda>p. Some \<lparr> fm_is_file = True, fm_is_dir = False, fm_mode = 493 \<rparr>),
                 fs_parent = (\<lambda>p. None) \<rparr>,
       en_rfc3339 = (\<lambda>t. []), en_paths = paths_from_home ''/home/o'' \<rparr>"

definition example_clock :: clock where
  "example_clock = \<lparr> ck_now = 5, ck_elapsed = 5 \<rparr>"

definition example_daemon :: "ipv4 daemon" where
  "example_daemon = daemon_new Unbound 0 DEFAULT_LISTEN LOAD_TIMEOUT RETURN_HOLD 0"

definition example_running :: "ipv4 daemon" where
  "example_running = fst (reload example_env example_daemon None 0)"

definition example_flight :: "ipv4 in_flight" where
  "example_flight = \<lparr> if_id = 1, if_staged = staging_default, if_reply = 0 \<rparr>"

text \<open>Three requests: a rule of the run, a rule of no run, and a rule that cannot be read.\<close>

definition example_rule :: request where
  "example_rule = (example_clock, AddRule Require Suffix ''example.com'' (Some 1), 1)"

definition example_stray :: request where
  "example_stray = (example_clock, AddRule Never Suffix ''other.com'' None, 2)"

definition example_malformed :: request where
  "example_malformed = (example_clock, AddRule Never Port ''80-90'' (Some 1), 3)"

lemma example_in_flight: "dm_load example_running = Some example_flight"
  by code_simp

subsection \<open>Properties\<close>

text \<open>C2: a load is a transaction on the rules and the upstreams.  Whatever requests arrive while a
  run is in flight, traffic is served as before it; when the run ends, it is over, and either its
  outcome is recorded as ok - the script exited zero and none of its commands was rejected - and the
  rules are exactly the ones its own commands declared, with the upstreams they named last if they
  named any, or the run is answered with an error, recorded as not ok, and the rules, the verdicts
  and the upstreams are the ones before it.  Unless such a run fails only on opening its listeners,
  the front ends and the forwards are untouched too.\<close>

theorem load_is_atomic:
  assumes "dm_load st = Some f" and "finish env ck (run_requests env st reqs) outcome = (st', effects)"
  shows "live_part (run_requests env st reqs) = live_part st
    \<and> load_ended st (staged_by env f reqs) outcome ck (if_reply f) st' effects"
proof -
  let ?st = "run_requests env st reqs"
  let ?f = "f\<lparr> if_staged := staged_by env f reqs \<rparr>"
  have run: "?st = st\<lparr> dm_load := Some ?f \<rparr>"
    by (rule run_requests_in_flight [OF assms(1)])
  then have "dm_load ?st = Some ?f" and same: "live_part ?st = live_part st" by simp_all
  from finish_traffic [OF this(1) assms(2)] have
    "load_ended ?st (staged_by env f reqs) outcome ck (if_reply f) st' effects" by simp
  with load_ended_from [OF same] same show ?thesis by simp
qed

theorem load_is_atomic_witness:
  "load_ended example_running
     (staged_by example_env example_flight [example_rule, example_stray])
     Succeeded example_clock 0
     (fst (finish example_env example_clock
        (run_requests example_env example_running [example_rule, example_stray]) Succeeded))
     (snd (finish example_env example_clock
        (run_requests example_env example_running [example_rule, example_stray]) Succeeded))
   \<and> map rule_value (sg_rules (staged_by example_env example_flight [example_rule, example_stray]))
      = [''example.com'']"
proof
  show "map rule_value (sg_rules (staged_by example_env example_flight [example_rule, example_stray]))
      = [''example.com'']" by code_simp
  have "if_reply example_flight = 0" by (simp add: example_flight_def)
  with load_is_atomic [OF example_in_flight, of example_env example_clock
      "[example_rule, example_stray]" Succeeded, OF surjective_pairing]
  show "load_ended example_running
     (staged_by example_env example_flight [example_rule, example_stray])
     Succeeded example_clock 0
     (fst (finish example_env example_clock
        (run_requests example_env example_running [example_rule, example_stray]) Succeeded))
     (snd (finish example_env example_clock
        (run_requests example_env example_running [example_rule, example_stray]) Succeeded))"
    by simp
qed

lemma rejected_command_marks:
  assumes "dm_load st = Some f" and "load_of_command cmd = Some (if_id f)"
    and "snd (handle env ck st cmd reply) = [Answer reply (RespErr kind m)]"
  shows "sg_failed (stage_command (en_ipnet env) (if_staged f) cmd) \<noteq> None"
proof -
  have "target_of st (load_of_command cmd) = Staged"
    using target_in_flight(1) [OF assms(1)] assms(2) by simp
  then show ?thesis
    using assms(2,3)
    by (cases cmd)
      (auto simp: add_rule_def clear_rules_def set_upstream_def set_listen_def add_forward_def
        staged_in_flight [OF assms(1)] answering_def staging_push_rule_eq staging_push_forward_eq
        staging_set_upstream_def Let_def split: sum.splits option.splits if_splits prod.splits)
qed

lemma stage_command_keeps_failure:
  "sg_failed s = Some c \<Longrightarrow> sg_failed (stage_command ipnet s cmd) = Some c"
  by (cases cmd)
    (auto simp: staging_push_rule_eq staging_push_forward_eq staging_set_upstream_def
      staging_clear_rules_def staging_set_listen_def Let_def split: sum.splits)

lemma fold_keeps_failure:
  "sg_failed s = Some c \<Longrightarrow> sg_failed (foldl (stage_command ipnet) s cmds) = Some c"
  by (induction cmds arbitrary: s) (simp_all add: stage_command_keeps_failure)

text \<open>C13: a command a run is refused on dooms it.  Once a command carrying the run's own identifier
  was answered with an error, the run is discarded however the script ends and whatever it declares
  afterwards - exiting zero included: traffic is untouched and the load is not recorded as ok.\<close>

theorem rejected_command_dooms_load:
  assumes "dm_load st = Some f" and "load_of_command cmd = Some (if_id f)"
    and "snd (handle env ck (run_requests env st before) cmd reply) = [Answer reply (RespErr kind m)]"
    and "finish env ck' (run_requests env st (before @ (ck, cmd, reply) # after)) outcome = (st', effects)"
  shows "live_part st' = live_part st \<and>
    map_option ll_outcome (dm_last_load st') \<in> {Some LoadFailed, Some LoadTimedOut}"
proof -
  let ?reqs = "before @ (ck, cmd, reply) # after"
  let ?mid = "f\<lparr> if_staged := staged_by env f before \<rparr>"
  have "dm_load (run_requests env st before) = Some ?mid"
    by (simp add: run_requests_in_flight [OF assms(1)])
  from rejected_command_marks [OF this _ assms(3)] assms(2) obtain c where
    "sg_failed (stage_command (en_ipnet env) (staged_by env f before) cmd) = Some c" by auto
  from fold_keeps_failure [OF this] assms(2) have "sg_failed (staged_by env f ?reqs) = Some c"
    by (simp add: staged_by_def declared_def)
  with load_is_atomic [OF assms(1,4)] show ?thesis
    by (cases "dm_last_load st'"; cases "ll_outcome (the (dm_last_load st'))")
      (auto simp: load_ended_def)
qed


theorem rejected_command_dooms_load_witness:
  "dm_rules (fst (finish example_env example_clock
     (run_requests example_env example_running ([example_rule] @ example_malformed # [])) Succeeded)) = []"
proof -
  have own: "load_of_command (AddRule Never Port ''80-90'' (Some 1)) = Some (if_id example_flight)"
    by (simp add: example_flight_def)
  have refused: "snd (handle example_env example_clock
      (run_requests example_env example_running [example_rule])
      (AddRule Never Port ''80-90'' (Some 1)) 3) =
      [Answer 3 (RespErr InvalidArgs (ir_message (invalid_rule_new Port ''80-90''
        ''a single port between 0 and 65535, ranges are not supported'')))]"
    by code_simp
  have "live_part (fst (finish example_env example_clock
      (run_requests example_env example_running ([example_rule] @ example_malformed # [])) Succeeded))
      = live_part example_running"
    using rejected_command_dooms_load [OF example_in_flight own refused, of example_clock "[]" Succeeded,
        OF surjective_pairing]
    by (simp add: example_malformed_def)
  moreover have "dm_rules example_running = []" by code_simp
  ultimately show ?thesis by (simp add: live_part_def)
qed

text \<open>C19: a command only ever reaches its own run.  A command that carries the identifier of a run
  already issued and no longer in flight changes nothing and is answered \<open>load_in_progress\<close>, however
  many commands are served and loads are started and ended in between - as long as the 64-bit
  counter of runs has not wrapped.\<close>

theorem stale_load_is_refused:
  assumes "i \<le> dm_load_ids st" and "current_load st \<noteq> Some i"
    and "dm_load_ids st + length evs \<le> u64_max" and "load_of_command cmd = Some i"
  shows "fst (handle env ck (run_task env st evs) cmd reply) = run_task env st evs
    \<and> (case snd (handle env ck (run_task env st evs) cmd reply) of
         [Answer r (RespErr kind m)] \<Rightarrow> r = reply \<and> kind = LoadInProgress
       | _ \<Rightarrow> False)"
proof -
  let ?st = "run_task env st evs"
  have "current_load ?st \<noteq> Some i" using run_task_stale [OF assms(3,1,2)] by blast
  then obtain m where "target_of ?st (load_of_command cmd) = RefusedWith (RespErr LoadInProgress m)"
    unfolding assms(4) using target_in_flight(2) [of ?st _ "Some i"] target_idle(2) [of ?st i]
    by (cases "dm_load ?st") (auto simp: current_load_def)
  moreover have "mutating cmd" using assms(4) by (cases cmd) simp_all
  ultimately show ?thesis by (simp add: handle_refused)
qed

text \<open>The run of the example is over, and a late command of it arrives.\<close>

theorem stale_load_is_refused_witness:
  "dm_rules (fst (handle example_env example_clock
      (run_task example_env (fst (finish example_env example_clock example_running Succeeded))
         [TakeRequest example_clock Status 4])
      (AddRule Require Suffix ''example.com'' (Some 1)) 5)) = []"
proof -
  let ?over = "fst (finish example_env example_clock example_running Succeeded)"
  let ?now = "run_task example_env ?over [TakeRequest example_clock Status 4]"
  have "1 \<le> dm_load_ids ?over" "current_load ?over \<noteq> Some 1"
    "dm_load_ids ?over + length [TakeRequest example_clock Status 4] \<le> u64_max"
    by code_simp+
  from stale_load_is_refused [OF this, of "AddRule Require Suffix ''example.com'' (Some 1)"
      example_env example_clock 5]
  have "fst (handle example_env example_clock ?now (AddRule Require Suffix ''example.com'' (Some 1)) 5) = ?now"
    by simp
  moreover have "dm_rules ?now = []" by code_simp
  ultimately show ?thesis by simp
qed

text \<open>C18: whatever commands and completions the state task serves from its start, its rules and its
  verdict table are well formed, the run in flight carries the identifier issued last, and the
  addresses \<open>status\<close> and \<open>doctor\<close> report are the ones the listeners hold: those of the protocol front
  ends and those of the forwards, each address once.\<close>

theorem daemon_reports_what_it_holds:
  assumes "sockets_named (en_os env)" and "frontends_bind (en_os env) n addrs = (n', Ok front)"
    and "frontends_listening front = Some now"
  shows "let st = run_task env (daemon_new front n' now load_timeout hold started) evs;
           status = daemon_status_of ck st
       in wf_daemon env st \<and> wf_forwards (ds_forwards status)
        \<and> (case dm_frontends st of
             Unbound \<Rightarrow> ds_bound status = IsUnbound
           | Bound b \<Rightarrow>
               ds_bound status = IsBound \<and> ds_listen status = bound_listen b
               \<and> ds_forwards status = bound_forwards b)"
proof -
  let ?start = "daemon_new front n' now load_timeout hold started"
  obtain b where b: "front = Bound b" "bd_forwards b = []" "now = bound_listen b"
    using assms(2,3)
    by (auto simp: frontends_bind_def res_bind_def split: prod.splits sum.splits)
  then have "wf_daemon env ?start"
    by (simp add: daemon_new_def wf_daemon_def wf_load_def frontends_agree_def listen_of_def
        bound_listen_def bound_forwards_def upstream_entries_default_def)
  from wf_run_task [OF this assms(1), of evs] show ?thesis
    by (auto simp: Let_def wf_daemon_def frontends_agree_def daemon_status_of_def bind_state_of_def
        split: frontends.split prod.split)
qed

theorem daemon_reports_what_it_holds_witness:
  "case frontends_bind free_os 0 DEFAULT_LISTEN of
     (n', Inr front) \<Rightarrow>
       wf_daemon example_env (run_task example_env
         (daemon_new front n' DEFAULT_LISTEN LOAD_TIMEOUT RETURN_HOLD 0)
         [TakeRequest example_clock (AddForward (local_port 19000) ''a.example.com'' 9000 None) 0])
   | (n', Inl e) \<Rightarrow> False"
proof -
  obtain n' r where bind: "frontends_bind free_os 0 DEFAULT_LISTEN = (n', r)" by fastforce
  then obtain front where r: "r = Ok front" and now: "frontends_listening front = Some DEFAULT_LISTEN"
    by (auto simp: frontends_bind_def bind_tcp_def free_os_def accept_on_def bound_listen_def
        DEFAULT_LISTEN_def)
  have named: "sockets_named (en_os example_env)"
    by (simp add: sockets_named_def example_env_def free_os_def)
  have "frontends_bind (en_os example_env) 0 DEFAULT_LISTEN = (n', Ok front)"
    using bind r by (simp add: example_env_def)
  from daemon_reports_what_it_holds [OF named this now] show ?thesis
    unfolding bind r prod.case sum.case Let_def by blast
qed

subsection \<open>A load that fails half way through its listeners\<close>

text \<open>
  A commit moves the protocol front ends before it opens the forwards and does not move them back:
  a load answered with an error on \<open>add_forward\<close> leaves the daemon listening where the rejected
  script asked it to.
\<close>

lemma failed_forward_keeps_moved_front_ends:
  assumes "sg_failed (if_staged f) = None" and "sg_listen (if_staged f) = Some addrs"
    and "dm_load st = Some f"
    and "rebind env (st\<lparr> dm_load := None \<rparr>) addrs = (st1, Inr ())"
    and "rebind_forwards env st1 (sg_forwards (if_staged f)) = (st2, Inl failure)"
  shows "let (st', effects) = finish env ck st Succeeded in
    listen_of st' = listen_of st1 \<and> dm_rules st' = dm_rules st
    \<and> map_option ll_outcome (dm_last_load st') = Some LoadFailed
    \<and> map_option ll_command (dm_last_load st') = Some (Some ''add_forward'')"
  using assms rebind_keeps [OF assms(4)] rebind_forwards_keeps [OF assms(5)]
  by (simp add: finish_def settle_load_def staging_failure_def commit_def staging_commit_def listen_of_def)

end
