(* ===== verification/World.thy ===== *)
theory World
  imports Patrol
begin

section \<open>Connections, patrol and reloads running together\<close>

text \<open>
  The tasks that share the verdicts: any number of dials, one patrol and the state task that
  publishes lists.  Each transition is one atomic access of the source - an \<open>ArcSwap\<close> load, store
  or \<open>rcu\<close> - or the selection and observation a dial makes between two awaits; what the network
  answers, and when, is left open.  The clock never moves back, which is the assumption the
  comments of \<open>select.rs\<close> make.
\<close>

subsection \<open>States\<close>

text \<open>A round the patrol has started: the entries whose probes are still out and what it folds into.\<close>

record round_state =
  rd_started :: time
  rd_out :: "upstream_entry list"
  rd_next :: "pending list"

record world =
  w_now :: time
  w_hop :: hop
  w_ptr :: nat
  w_dials :: "upstream_entry list"
  w_pending :: "pending list"
  w_round :: "round_state option"

definition world_start :: "time \<Rightarrow> duration \<Rightarrow> world" where
  "world_start now hold =
     \<lparr> w_now = now,
       w_hop = \<lparr> hop_heap = [], hop_upstream = \<lparr> arc_ptr = 0, arc_val = upstream_entries_default \<rparr>,
                 hop_hold = hold, hop_observed = observed_default 1, hop_log = [] \<rparr>,
       w_ptr = 2, w_dials = [], w_pending = [], w_round = None \<rparr>"

abbreviation w_heap :: "world \<Rightarrow> heap" where "w_heap w \<equiv> hop_heap (w_hop w)"
abbreviation w_live :: "world \<Rightarrow> upstream_entries arc" where "w_live w \<equiv> hop_upstream (w_hop w)"
abbreviation w_seen :: "world \<Rightarrow> observed" where "w_seen w \<equiv> hop_observed (w_hop w)"
abbreviation w_log :: "world \<Rightarrow> log_line list" where "w_log w \<equiv> hop_log (w_hop w)"

subsection \<open>Transitions\<close>

definition do_publish :: "world \<Rightarrow> upstream list \<Rightarrow> world" where
  "do_publish w us =
     (let (heap, live) = live_upstream_publish (w_heap w) (w_live w) (\<lambda>_. w_now w) (w_ptr w) us
      in w\<lparr> w_hop := (w_hop w)\<lparr> hop_heap := heap, hop_upstream := live \<rparr>, w_ptr := Suc (w_ptr w) \<rparr>)"

text \<open>A dial selects and observes; the entry it goes through, if any, is then out on the network.\<close>

definition do_dial :: "world \<Rightarrow> rule_class \<Rightarrow> world" where
  "do_dial w class =
     (let (hop, entries, selected) = routed_select (w_hop w) (w_now w);
          dialled = (case class of
                       Never \<Rightarrow> None
                     | Require \<Rightarrow> entries_required entries selected
                     | Prefer \<Rightarrow> entries_at entries selected)
      in w\<lparr> w_hop := hop,
            w_dials := (case dialled of None \<Rightarrow> w_dials w | Some d \<Rightarrow> w_dials w @ [d]) \<rparr>)"

definition do_answer :: "world \<Rightarrow> nat \<Rightarrow> (dial_failure, unit) res \<Rightarrow> world" where
  "do_answer w i answer =
     (let (heap, lines) = judge (w_heap w) (w_dials w ! i) answer (w_now w)
      in w\<lparr> w_hop := hop_write (w_hop w) heap lines,
            w_dials := take i (w_dials w) @ drop (Suc i) (w_dials w) \<rparr>)"

definition do_round :: "world \<Rightarrow> world" where
  "do_round w =
     w\<lparr> w_round := Some \<lparr> rd_started = w_now w, rd_out = ues_entries (arc_val (w_live w)),
                          rd_next = [] \<rparr> \<rparr>"

definition do_probe :: "world \<Rightarrow> round_state \<Rightarrow> nat \<Rightarrow> health_state option \<Rightarrow> world" where
  "do_probe w r i seen =
     (let (heap, lines, next) =
            round_fold (w_heap w) (w_pending w) (rd_started r) (rd_next r)
              [map_option (\<lambda>seen. (rd_out r ! i, seen)) seen]
      in w\<lparr> w_hop := hop_write (w_hop w) heap lines,
            w_round := Some (r\<lparr> rd_out := take i (rd_out r) @ drop (Suc i) (rd_out r),
                                rd_next := next \<rparr>) \<rparr>)"

definition do_round_end :: "world \<Rightarrow> round_state \<Rightarrow> world" where
  "do_round_end w r =
     (let (hop, entries, selected) = routed_select (w_hop w) (w_now w)
      in w\<lparr> w_hop := hop, w_pending := rd_next r, w_round := None \<rparr>)"

inductive world_step :: "world \<Rightarrow> world \<Rightarrow> bool" where
  tick: "w_now w \<le> now \<Longrightarrow> world_step w (w\<lparr> w_now := now \<rparr>)"
| publish: "upstreams_parse first fallbacks = Inr us \<Longrightarrow> world_step w (do_publish w us)"
| dial: "world_step w (do_dial w class)"
| answer: "i < length (w_dials w) \<Longrightarrow> world_step w (do_answer w i answer)"
| round: "w_round w = None \<Longrightarrow> ues_entries (arc_val (w_live w)) \<noteq> [] \<Longrightarrow> world_step w (do_round w)"
| probe: "w_round w = Some r \<Longrightarrow> i < length (rd_out r) \<Longrightarrow> world_step w (do_probe w r i seen)"
| round_end: "w_round w = Some r \<Longrightarrow> rd_out r = [] \<Longrightarrow> world_step w (do_round_end w r)"
| idle: "w_round w = None \<Longrightarrow> ues_entries (arc_val (w_live w)) = [] \<Longrightarrow>
    world_step w (w\<lparr> w_pending := [] \<rparr>)"

inductive reachable :: "world \<Rightarrow> bool" where
  start: "reachable (world_start now hold)"
| step: "reachable w \<Longrightarrow> world_step w w' \<Longrightarrow> reachable w'"

inductive_cases world_stepE: "world_step w w'"

subsection \<open>What the steps do to the shared parts\<close>

text \<open>A selection and its observation leave everything but the observed pair and the log.\<close>

lemma routed_select_eq:
  "routed_select hop now =
     (let live = hop_upstream hop;
          selected = entries_selected (hop_heap hop) (arc_val live) now (hop_hold hop)
      in (hop\<lparr> hop_observed := fst (observe (hop_heap hop) (hop_observed hop) live selected),
               hop_log := hop_log hop @ snd (observe (hop_heap hop) (hop_observed hop) live selected) \<rparr>,
          arc_val live, selected))"
  by (simp add: routed_select_def live_upstream_snapshot_def Let_def split: prod.splits)

lemma judge_eq:
  "judge heap d answer now =
     (case dial_verdict answer of None \<Rightarrow> (heap, []) | Some state \<Rightarrow> set_at heap (ue_health d) state Dial now)"
  by (simp add: judge_def observed_dial_def health_set_def split: option.split)

text \<open>The three ways a heap changes: unchanged, one verdict put, verdicts appended.\<close>

lemma hop_write_simps [simp]:
  "hop_heap (hop_write hop heap lines) = heap" "hop_upstream (hop_write hop heap lines) = hop_upstream hop"
  "hop_observed (hop_write hop heap lines) = hop_observed hop"
  "hop_hold (hop_write hop heap lines) = hop_hold hop"
  "hop_log (hop_write hop heap lines) = hop_log hop @ lines"
  by (simp_all add: hop_write_def)

lemma do_publish_eq:
  assumes "adopted (w_heap w) (arc_val (w_live w)) (\<lambda>_. w_now w) us = (heap, es)"
  shows "do_publish w us =
    w\<lparr> w_hop := (w_hop w)\<lparr> hop_heap := heap, hop_upstream := \<lparr> arc_ptr = w_ptr w, arc_val = es \<rparr> \<rparr>,
       w_ptr := Suc (w_ptr w) \<rparr>"
  using assms by (simp add: do_publish_def live_upstream_publish_def)

lemma do_answer_eq:
  "do_answer w i answer =
     (case dial_verdict answer of
        None \<Rightarrow> w\<lparr> w_dials := take i (w_dials w) @ drop (Suc i) (w_dials w) \<rparr>
      | Some state \<Rightarrow>
          w\<lparr> w_hop := hop_write (w_hop w) (heap_put (w_heap w) (ue_health (w_dials w ! i)) state (w_now w))
                        (snd (set_at (w_heap w) (ue_health (w_dials w ! i)) state Dial (w_now w))),
             w_dials := take i (w_dials w) @ drop (Suc i) (w_dials w) \<rparr>)"
proof (cases "dial_verdict answer")
  case (Some state)
  obtain heap lines
    where put: "set_at (w_heap w) (ue_health (w_dials w ! i)) state Dial (w_now w) = (heap, lines)"
    by (cases "set_at (w_heap w) (ue_health (w_dials w ! i)) state Dial (w_now w)")
  then have "heap = heap_put (w_heap w) (ue_health (w_dials w ! i)) state (w_now w)"
    using set_at_fst by (metis fst_conv)
  with Some put show ?thesis by (simp add: do_answer_def judge_eq)
qed (simp add: do_answer_def judge_eq hop_write_def)

lemma do_probe_eq:
  "do_probe w r i seen =
     (case seen of
        None \<Rightarrow> w\<lparr> w_round := Some (r\<lparr> rd_out := take i (rd_out r) @ drop (Suc i) (rd_out r) \<rparr>) \<rparr>
      | Some seen \<Rightarrow>
          (let h = ue_health (rd_out r ! i);
               adv = advance (w_heap w) (banked_of (w_pending w) h) seen h (rd_started r)
           in w\<lparr> w_hop := hop_write (w_hop w) (fst adv) (fst (snd adv)),
                 w_round := Some (r\<lparr> rd_out := take i (rd_out r) @ drop (Suc i) (rd_out r),
                                     rd_next := left_by (rd_next r) h (snd (snd adv)) \<rparr>) \<rparr>))"
  by (simp add: do_probe_def hop_write_def left_by_def Let_def split: option.splits prod.splits)


subsection \<open>Instants\<close>

definition stamped :: "heap \<Rightarrow> time \<Rightarrow> bool" where
  "stamped heap now \<longleftrightarrow> list_all (\<lambda>j. h_changed_at (j_health j) \<le> now) heap"

lemma stamped_mono: "stamped heap now \<Longrightarrow> now \<le> now' \<Longrightarrow> stamped heap now'"
  by (auto simp: stamped_def list_all_iff)

lemma stamped_put:
  assumes "stamped heap now" and "at \<le> now"
  shows "stamped (heap_put heap h state at) now"
proof (cases "h < length heap")
  case True
  with assms show ?thesis
    by (auto simp: stamped_def list_all_iff heap_put_def settle_eq observe_health_def verdict_def
        dest!: set_update_subset_insert [THEN subsetD])
next
  case False
  with assms show ?thesis by (simp add: heap_put_def settle_eq list_update_beyond)
qed

lemma stamped_advance:
  "stamped heap now \<Longrightarrow> at \<le> now \<Longrightarrow> stamped (fst (advance heap banked seen h at)) now"
  by (simp add: advance_eq stamped_put)

lemma stamped_adopt:
  "adopt_from heap kept (\<lambda>_. now) k us = (heap', es) \<Longrightarrow> stamped heap now \<Longrightarrow> stamped heap' now"
proof (induction us arbitrary: heap k heap' es)
  case (Cons u us)
  then show ?case
    by (cases "judged_by kept (socket u)")
      (fastforce simp: judging_def stamped_def health_default_def split: prod.splits)+
qed simp

subsection \<open>The invariant of the running daemon\<close>

definition wf_pending :: "heap \<Rightarrow> pending list \<Rightarrow> bool" where
  "wf_pending heap pending \<longleftrightarrow>
     distinct (map p_health pending) \<and> list_all (\<lambda>p. p_health p < length heap) pending"

definition wf_round :: "heap \<Rightarrow> time \<Rightarrow> round_state \<Rightarrow> bool" where
  "wf_round heap now r \<longleftrightarrow>
     rd_started r \<le> now \<and> wf_pending heap (rd_next r)
     \<and> distinct (map ue_health (rd_out r)) \<and> list_all (\<lambda>e. ue_health e < length heap) (rd_out r)
     \<and> p_health ` set (rd_next r) \<inter> ue_health ` set (rd_out r) = {}"

definition wf_observed :: "world \<Rightarrow> bool" where
  "wf_observed w \<longleftrightarrow>
     ues_publication (arc_val (w_live w)) \<le> Publication u64_max
     \<and> arc_ptr (w_live w) < w_ptr w \<and> arc_ptr (ob_list (w_seen w)) < w_ptr w
     \<and> ues_publication (arc_val (ob_list (w_seen w))) \<le> ues_publication (arc_val (w_live w))
     \<and> (arc_ptr (ob_list (w_seen w)) = arc_ptr (w_live w) \<longrightarrow> ob_list (w_seen w) = w_live w)
     \<and> (case ob_selected (w_seen w) of
          None \<Rightarrow> True | Some i \<Rightarrow> i < length (ues_entries (arc_val (ob_list (w_seen w)))))"

definition wf_world :: "world \<Rightarrow> bool" where
  "wf_world w \<longleftrightarrow>
     wf_entries (w_heap w) (ues_entries (arc_val (w_live w)))
     \<and> wf_observed w
     \<and> list_all (\<lambda>d. ue_health d < length (w_heap w)) (w_dials w)
     \<and> wf_pending (w_heap w) (w_pending w)
     \<and> (case w_round w of None \<Rightarrow> True | Some r \<Rightarrow> wf_round (w_heap w) (w_now w) r)
     \<and> stamped (w_heap w) (w_now w)"

lemmas wf_world_defs = wf_world_def wf_observed_def wf_pending_def wf_round_def

lemma wf_pending_mono: "wf_pending heap p \<Longrightarrow> length heap \<le> length heap' \<Longrightarrow> wf_pending heap' p"
  by (auto simp: wf_pending_def list_all_iff)

lemma wf_round_mono:
  "wf_round heap now r \<Longrightarrow> length heap \<le> length heap' \<Longrightarrow> now \<le> now' \<Longrightarrow> wf_round heap' now' r"
  by (auto simp: wf_round_def wf_pending_mono list_all_iff)

text \<open>A step that only moves a verdict keeps everything but the stamps.\<close>

lemma wf_world_write:
  assumes "wf_world w" and "length heap = length (w_heap w)" and "stamped heap (w_now w)"
  shows "wf_world (w\<lparr> w_hop := hop_write (w_hop w) heap lines \<rparr>)"
  using assms wf_entries_mono [of "w_heap w" _ heap] wf_pending_mono [of "w_heap w" _ heap]
    wf_round_mono [of "w_heap w" "w_now w" _ heap "w_now w"]
  by (auto simp: wf_world_def wf_observed_def split: option.splits)

lemma wf_world_start: "wf_world (world_start now hold)"
  by (simp add: world_start_def wf_world_defs observed_default_def upstream_entries_default_def
      stamped_def)

lemma wf_world_tick: "wf_world w \<Longrightarrow> w_now w \<le> now \<Longrightarrow> wf_world (w\<lparr> w_now := now \<rparr>)"
  by (auto simp: wf_world_def wf_observed_def intro: stamped_mono wf_round_mono split: option.splits)

lemma publication_next_le:
  "p \<le> Publication u64_max \<Longrightarrow> p \<le> publication_next p \<and> publication_next p \<le> Publication u64_max"
  by (cases p) (simp add: sat_add64_def)

lemma wf_world_publish:
  assumes wf: "wf_world w" and us: "wf_upstreams us"
  shows "wf_world (do_publish w us)"
proof -
  obtain heap es where run: "adopted (w_heap w) (arc_val (w_live w)) (\<lambda>_. w_now w) us = (heap, es)"
    by (cases "adopted (w_heap w) (arc_val (w_live w)) (\<lambda>_. w_now w) us")
  note parts = adopted_run [OF run]
  have len: "length (w_heap w) \<le> length heap" using adopt_from_heap [OF parts(1)] by auto
  have entries: "wf_entries heap (ues_entries es)"
    using wf by (intro adopted_wf [OF _ us run]) (simp add: wf_world_def)
  have stamps: "stamped heap (w_now w)"
    using wf stamped_adopt [OF parts(1)] by (simp add: wf_world_def)
  have pub: "ues_publication (arc_val (w_live w)) \<le> ues_publication es"
      "ues_publication es \<le> Publication u64_max"
    using wf publication_next_le by (simp_all add: parts(2) wf_world_def wf_observed_def)
  from wf have old: "wf_observed w" by (simp add: wf_world_def)
  then have "ues_publication (arc_val (ob_list (w_seen w))) \<le> ues_publication es"
    using pub by (auto simp: wf_observed_def)
  with old pub have "wf_observed (do_publish w us)"
    by (simp add: wf_observed_def do_publish_eq [OF run] cong: option.case_cong)
  moreover have "list_all (\<lambda>d. ue_health d < length heap) (w_dials w)"
    using wf len by (auto simp: wf_world_def list_all_iff)
  moreover have "wf_pending heap (w_pending w)"
    using wf len by (auto simp: wf_world_def intro: wf_pending_mono)
  moreover have "case w_round w of None \<Rightarrow> True | Some r \<Rightarrow> wf_round heap (w_now w) r"
    using wf len by (auto simp: wf_world_def intro: wf_round_mono split: option.splits)
  ultimately show ?thesis
    using entries stamps
    by (simp add: do_publish_eq [OF run] wf_world_def cong: option.case_cong)
qed

lemma wf_world_observe:
  assumes wf: "wf_world w" and hop: "fst (routed_select (w_hop w) (w_now w)) = hop"
  shows "wf_world (w\<lparr> w_hop := hop \<rparr>)"
proof -
  let ?sel = "entries_selected (w_heap w) (arc_val (w_live w)) (w_now w) (hop_hold (w_hop w))"
  have current: "\<not> published_before (arc_val (w_live w)) (arc_val (ob_list (w_seen w)))"
    using wf by (auto simp: wf_world_def wf_observed_def published_before_def)
  have "case ?sel of None \<Rightarrow> True | Some i \<Rightarrow> i < length (ues_entries (arc_val (w_live w)))"
    using entries_selected_bound by (auto split: option.splits)
  with wf show ?thesis
    by (simp add: hop [symmetric] routed_select_eq observe_current [OF current] Let_def wf_world_def
        wf_observed_def cong: option.case_cong)
qed

lemma wf_world_dial:
  assumes wf: "wf_world w"
  shows "wf_world (do_dial w class)"
proof -
  let ?sel = "entries_selected (w_heap w) (arc_val (w_live w)) (w_now w) (hop_hold (w_hop w))"
  have wf': "wf_world (w\<lparr> w_hop := fst (routed_select (w_hop w) (w_now w)) \<rparr>)"
    by (rule wf_world_observe [OF wf refl])
  have bound: "ue_health d < length (w_heap w)"
    if "entries_required (arc_val (w_live w)) ?sel = Some d
      \<or> entries_at (arc_val (w_live w)) ?sel = Some d" for d
  proof -
    from that have "d \<in> set (ues_entries (arc_val (w_live w)))"
      by (auto simp: entries_required_def entries_at_def entries_first_def nth_opt_Some
          bind_eq_Some_conv split: option.splits)
    with wf show ?thesis by (auto simp: wf_world_def wf_entries_def list_all_iff)
  qed
  from wf' have "wf_world (w\<lparr> w_hop := fst (routed_select (w_hop w) (w_now w)), w_dials := ds \<rparr>)"
    if "list_all (\<lambda>d. ue_health d < length (w_heap w)) ds" for ds
    using that by (simp add: routed_select_eq Let_def wf_world_def wf_observed_def
        cong: option.case_cong)
  moreover have "list_all (\<lambda>d. ue_health d < length (w_heap w)) (w_dials w)"
    using wf by (simp add: wf_world_def)
  ultimately show ?thesis
    using bound by (auto simp: do_dial_def routed_select_eq Let_def
        split: rule_class.split option.split)
qed

lemma list_all_remove: "list_all P xs \<Longrightarrow> list_all P (take i xs @ drop (Suc i) xs)"
  by (auto simp: list_all_iff dest: in_set_takeD in_set_dropD)

lemma wf_world_answer:
  assumes wf: "wf_world w"
  shows "wf_world (do_answer w i answer)"
proof -
  have drop_dial: "wf_world (v\<lparr> w_dials := take i (w_dials w) @ drop (Suc i) (w_dials w) \<rparr>)"
    if "wf_world v" "w_dials v = w_dials w" for v
    using that list_all_remove [of "\<lambda>d. ue_health d < length (w_heap v)" "w_dials w" i]
    by (simp add: wf_world_def wf_observed_def cong: option.case_cong)
  show ?thesis
  proof (cases "dial_verdict answer")
    case None
    with drop_dial [OF wf] show ?thesis by (simp add: do_answer_eq)
  next
    case (Some state)
    let ?heap = "heap_put (w_heap w) (ue_health (w_dials w ! i)) state (w_now w)"
    have "stamped ?heap (w_now w)" using wf by (simp add: wf_world_def stamped_put)
    then have "wf_world (w\<lparr> w_hop := hop_write (w_hop w) ?heap lines \<rparr>)" for lines
      using wf by (intro wf_world_write) simp_all
    from drop_dial [OF this] Some show ?thesis by (simp add: do_answer_eq)
  qed
qed


lemma wf_world_round:
  assumes "wf_world w" and "w_round w = None"
  shows "wf_world (do_round w)"
  using assms
  by (simp add: do_round_def wf_world_def wf_observed_def wf_round_def wf_pending_def wf_entries_def
      cong: option.case_cong)

lemma out_split: "i < length xs \<Longrightarrow> mset xs = add_mset (xs ! i) (mset (take i xs @ drop (Suc i) xs))"
  using arg_cong [OF id_take_nth_drop [of i xs], of mset] by simp

lemma wf_round_out:
  assumes wf: "wf_round heap now r" and i: "i < length (rd_out r)"
  defines "out \<equiv> take i (rd_out r) @ drop (Suc i) (rd_out r)"
  shows "wf_round heap now (r\<lparr> rd_out := out \<rparr>)"
    and "wf_round heap now (r\<lparr> rd_out := out, rd_next := left_by (rd_next r) (ue_health (rd_out r ! i)) left \<rparr>)"
proof -
  have m: "mset (rd_out r) = add_mset (rd_out r ! i) (mset out)"
    unfolding out_def using i by (rule out_split)
  then have set: "set (rd_out r) = insert (rd_out r ! i) (set out)"
    by (metis set_mset_add_mset_insert set_mset_mset)
  have "mset (map ue_health (rd_out r)) = add_mset (ue_health (rd_out r ! i)) (mset (map ue_health out))"
    by (simp add: m mset_map)
  with wf have distinct: "distinct (ue_health (rd_out r ! i) # map ue_health out)"
    by (metis mset.simps(2) mset_eq_imp_distinct_iff wf_round_def)
  from wf set distinct show "wf_round heap now (r\<lparr> rd_out := out \<rparr>)"
    by (auto simp: wf_round_def list_all_iff)
  with wf set distinct show "wf_round heap now
      (r\<lparr> rd_out := out, rd_next := left_by (rd_next r) (ue_health (rd_out r ! i)) left \<rparr>)"
    by (auto simp: wf_round_def wf_pending_def list_all_iff left_by_def split: option.splits)
qed

lemma wf_world_set_round:
  "wf_world w \<Longrightarrow> wf_round (w_heap w) (w_now w) r \<Longrightarrow> wf_world (w\<lparr> w_round := Some r \<rparr>)"
  by (simp add: wf_world_def wf_observed_def cong: option.case_cong)

lemma wf_world_probe:
  assumes wf: "wf_world w" and r: "w_round w = Some r" and i: "i < length (rd_out r)"
  shows "wf_world (do_probe w r i seen)"
proof -
  from wf r have round: "wf_round (w_heap w) (w_now w) r" by (simp add: wf_world_def)
  show ?thesis
  proof (cases seen)
    case None
    with wf_world_set_round [OF wf wf_round_out(1) [OF round i]] show ?thesis
      by (simp add: do_probe_eq)
  next
    case (Some seen')
    let ?h = "ue_health (rd_out r ! i)"
    let ?adv = "advance (w_heap w) (banked_of (w_pending w) ?h) seen' ?h (rd_started r)"
    from round have "rd_started r \<le> w_now w" by (simp add: wf_round_def)
    with wf have stamps: "stamped (fst ?adv) (w_now w)"
      by (intro stamped_advance) (simp_all add: wf_world_def)
    have wf': "wf_world (w\<lparr> w_hop := hop_write (w_hop w) (fst ?adv) (fst (snd ?adv)) \<rparr>)"
      using wf stamps by (intro wf_world_write) simp_all
    have "wf_round (fst ?adv) (w_now w) (r\<lparr> rd_out := take i (rd_out r) @ drop (Suc i) (rd_out r),
        rd_next := left_by (rd_next r) ?h (snd (snd ?adv)) \<rparr>)"
      using wf_round_out(2) [OF round i] by (rule wf_round_mono) simp_all
    with wf_world_set_round [OF wf'] Some show ?thesis
      by (simp add: do_probe_eq Let_def)
  qed
qed

lemma wf_world_round_end:
  assumes wf: "wf_world w" and r: "w_round w = Some r"
  shows "wf_world (do_round_end w r)"
proof -
  have "wf_world (w\<lparr> w_hop := fst (routed_select (w_hop w) (w_now w)) \<rparr>)"
    by (rule wf_world_observe [OF wf refl])
  moreover have "wf_pending (w_heap w) (rd_next r)"
    using wf r by (simp add: wf_world_def wf_round_def)
  ultimately show ?thesis
    by (simp add: do_round_end_def routed_select_eq Let_def wf_world_def wf_observed_def
        cong: option.case_cong)
qed

lemma wf_world_idle: "wf_world w \<Longrightarrow> wf_world (w\<lparr> w_pending := [] \<rparr>)"
  by (simp add: wf_world_def wf_observed_def wf_pending_def cong: option.case_cong)

lemma wf_world_step: "world_step w w' \<Longrightarrow> wf_world w \<Longrightarrow> wf_world w'"
  by (erule world_stepE)
    (auto intro: wf_world_tick wf_world_publish upstreams_parse_wf wf_world_dial wf_world_answer
      wf_world_round wf_world_probe wf_world_round_end wf_world_idle)


subsection \<open>What the log says\<close>

text \<open>
  A reader of the log takes the last switch line's destination for the upstream new connections go
  to, and reads its address the way the daemon does; the empty text of "none" is no address.
\<close>

definition read_switch :: "string \<Rightarrow> log_line \<Rightarrow> string" where
  "read_switch to line = (case line of SwitchLine f t c \<Rightarrow> t | VerdictLine u f t c \<Rightarrow> to)"

definition read_log :: "log_line list \<Rightarrow> string" where
  "read_log log = foldl read_switch [] log"

definition read_addr :: "string \<Rightarrow> socket_addr option" where
  "read_addr text = (case upstream_parse text of Inr u \<Rightarrow> Some (socket u) | Inl _ \<Rightarrow> None)"

definition readable :: "upstream_entries \<Rightarrow> bool" where
  "readable es \<longleftrightarrow> list_all (\<lambda>e. upstream_parse (written (ue_upstream e)) = Inr (ue_upstream e)) (ues_entries es)"

definition log_true :: "world \<Rightarrow> bool" where
  "log_true w \<longleftrightarrow>
     readable (arc_val (w_live w)) \<and> readable (arc_val (ob_list (w_seen w)))
     \<and> read_addr (read_log (w_log w)) = reaches (arc_val (ob_list (w_seen w))) (ob_selected (w_seen w))"

lemma read_addr_Nil: "read_addr [] = None"
  by code_simp

lemma read_log_append: "read_log (log @ lines) = foldl read_switch (read_log log) lines"
  by (simp add: read_log_def)

lemma read_log_verdicts:
  "list_all (\<lambda>l. case l of VerdictLine u f t c \<Rightarrow> True | SwitchLine f t c \<Rightarrow> False) lines \<Longrightarrow>
     read_log (log @ lines) = read_log log"
  by (induction lines arbitrary: log rule: rev_induct)
    (auto simp: read_log_append read_switch_def split: log_line.splits)

lemma set_at_verdict_lines:
  "list_all (\<lambda>l. case l of VerdictLine u f t c \<Rightarrow> True | SwitchLine f t c \<Rightarrow> False)
     (snd (set_at heap h state c at))"
  by (simp add: set_at_lines)

lemma advance_verdict_lines:
  "list_all (\<lambda>l. case l of VerdictLine u f t c \<Rightarrow> True | SwitchLine f t c \<Rightarrow> False)
     (fst (snd (advance heap banked seen h at)))"
  by (simp add: advance_lines)

text \<open>The text of the address a list's index names reads back as the address connections reach.\<close>

lemma read_addr_upstream_at:
  assumes "readable es"
  shows "read_addr (logged_addr (map_option written (upstream_at es i))) = reaches es i"
proof (cases "upstream_at es i")
  case None
  then show ?thesis by (simp add: reaches_def read_addr_Nil)
next
  case (Some u)
  then obtain j where "j < length (ues_entries es)" "ue_upstream (ues_entries es ! j) = u"
    by (auto simp: upstream_at_def bind_eq_Some_conv nth_opt_Some)
  then obtain e where "e \<in> set (ues_entries es)" "ue_upstream e = u" using nth_mem by blast
  with assms have "upstream_parse (written u) = Inr u" by (auto simp: readable_def list_all_iff)
  with Some show ?thesis by (simp add: reaches_def read_addr_def)
qed

lemma log_true_observe:
  assumes wf: "wf_world w" and log: "log_true w"
  shows "log_true (w\<lparr> w_hop := fst (routed_select (w_hop w) (w_now w)) \<rparr>)"
proof -
  have current: "\<not> published_before (arc_val (w_live w)) (arc_val (ob_list (w_seen w)))"
    using wf by (auto simp: wf_world_def wf_observed_def published_before_def)
  have live: "readable (arc_val (w_live w))" using log by (simp add: log_true_def)
  show ?thesis
    using log
    by (simp add: routed_select_eq observe_current [OF current] Let_def log_true_def read_log_append
        read_switch_def read_addr_upstream_at [OF live])
qed

lemma log_true_write:
  assumes "log_true w"
    and "list_all (\<lambda>l. case l of VerdictLine u f t c \<Rightarrow> True | SwitchLine f t c \<Rightarrow> False) lines"
  shows "log_true (w\<lparr> w_hop := hop_write (w_hop w) heap lines \<rparr>)"
  using assms by (simp add: log_true_def read_log_verdicts)

lemma upstreams_parse_readable:
  assumes "upstreams_parse first fallbacks = Inr us"
  shows "\<forall>u \<in> set us. upstream_parse (written u) = Inr u"
proof -
  have "map upstream_parse (first # fallbacks) = map Inr us"
    using upstreams_parse_from_Ok [of "[]" "first # fallbacks" us] assms
    by (auto simp: upstreams_parse_def)
  then have "map upstream_parse (map written us) = map Inr us"
    by (simp add: upstreams_parse_written [OF assms])
  then have "map (upstream_parse \<circ> written) us = map Inr us" by simp
  then show ?thesis by simp
qed

lemma log_true_publish:
  assumes log: "log_true w" and us: "upstreams_parse first fallbacks = Inr us"
  shows "log_true (do_publish w us)"
proof -
  obtain heap es where run: "adopted (w_heap w) (arc_val (w_live w)) (\<lambda>_. w_now w) us = (heap, es)"
    by (cases "adopted (w_heap w) (arc_val (w_live w)) (\<lambda>_. w_now w) us")
  have "map ue_upstream (ues_entries es) = us"
    by (rule adopt_from_upstreams [OF adopted_run(1) [OF run]])
  with upstreams_parse_readable [OF us] have "readable es"
    by (auto simp: readable_def list_all_iff)
  with log show ?thesis by (simp add: do_publish_eq [OF run] log_true_def)
qed

lemma log_true_step:
  assumes "world_step w w'" and "wf_world w" and log: "log_true w"
  shows "log_true w'"
  using assms(1)
proof cases
  case (publish first fallbacks us)
  with log_true_publish [OF log] show ?thesis by blast
next
  case (dial c)
  with log_true_observe [OF assms(2) log] show ?thesis
    by (simp add: do_dial_def log_true_def routed_select_eq Let_def)
next
  case (answer i res)
  show ?thesis
    using log_true_write [OF log set_at_verdict_lines]
    by (auto simp: answer do_answer_eq log_true_def log [unfolded log_true_def] split: option.split)
next
  case (probe r i seen)
  show ?thesis
    using log_true_write [OF log advance_verdict_lines]
    by (auto simp: probe do_probe_eq Let_def log_true_def log [unfolded log_true_def] split: option.split)
next
  case (round_end r)
  with log_true_observe [OF assms(2) log] show ?thesis
    by (simp add: do_round_end_def log_true_def routed_select_eq Let_def)
qed (use log in \<open>simp_all add: log_true_def do_round_def\<close>)

lemma reachable_wf: "reachable w \<Longrightarrow> wf_world w \<and> log_true w"
proof (induction rule: reachable.induct)
  case (start now hold)
  then show ?case
    using wf_world_start read_addr_Nil
    by (simp add: log_true_def world_start_def readable_def upstream_entries_default_def read_log_def
        observed_default_def reaches_def upstream_at_def)
next
  case (step w w')
  then show ?case by (blast intro: wf_world_step log_true_step)
qed

subsection \<open>Properties\<close>

text \<open>
  A run for the examples.  A daemon starts at 0 with a primary and a fallback.  The first round hears
  only the fallback; the second starts at 10 and its probes are slow; at 11 a \<open>require\<close> dial reaches
  the primary, which is observed as the selected entry; at 12 the fallback's probe returns.
\<close>

definition run_probe :: "world \<Rightarrow> nat \<Rightarrow> health_state option \<Rightarrow> world" where
  "run_probe w i seen = (case w_round w of None \<Rightarrow> w | Some r \<Rightarrow> do_probe w r i seen)"

definition run_round_end :: "world \<Rightarrow> world" where
  "run_round_end w = (case w_round w of None \<Rightarrow> w | Some r \<Rightarrow> do_round_end w r)"

definition run_cold_start :: world where
  "run_cold_start =
     (let w = do_publish (world_start 0 RETURN_HOLD) [example_upstream 10, example_upstream 11];
          w = run_probe (run_probe (do_round w) 1 (Some Up)) 0 (Some Down)
      in run_round_end w)"

definition run_primary_up :: world where
  "run_primary_up =
     (let w = do_round (run_cold_start\<lparr> w_now := 10 \<rparr>);
          w = do_answer (do_dial (w\<lparr> w_now := 11 \<rparr>) Require) 0 (Ok ());
          w = do_dial w Prefer
      in w\<lparr> w_now := 12 \<rparr>)"

definition run_fallback_up :: world where
  "run_fallback_up = run_probe run_primary_up 1 (Some Up)"

definition run_displaced :: world where
  "run_displaced = do_dial run_fallback_up Prefer"

lemma run_probe_step:
  "(case w_round w of None \<Rightarrow> False | Some r \<Rightarrow> i < length (rd_out r)) \<Longrightarrow>
     world_step w (run_probe w i seen)"
  by (auto simp: run_probe_def split: option.splits intro: world_step.probe)

lemma run_round_end_step:
  "(case w_round w of None \<Rightarrow> False | Some r \<Rightarrow> rd_out r = []) \<Longrightarrow> world_step w (run_round_end w)"
  by (auto simp: run_round_end_def split: option.splits intro: world_step.round_end)

lemma run_cold_start_reachable: "reachable run_cold_start"
  unfolding run_cold_start_def Let_def
proof (intro reachable.step [OF _ run_round_end_step] reachable.step [OF _ run_probe_step]
    reachable.step [OF _ world_step.round] reachable.step [OF _ world_step.publish] reachable.start)
  show "upstreams_parse ''socks5://192.0.2.10:1080'' [''socks5://192.0.2.11:1080''] =
      Inr [example_upstream 10, example_upstream 11]"
    by code_simp
qed code_simp+

lemma run_primary_up_reachable: "reachable run_primary_up"
  unfolding run_primary_up_def Let_def
proof (intro reachable.step [OF _ world_step.tick] reachable.step [OF _ world_step.dial]
    reachable.step [OF _ world_step.answer] reachable.step [OF _ world_step.round]
    run_cold_start_reachable)
qed code_simp+

lemma run_fallback_up_step: "world_step run_primary_up run_fallback_up"
  unfolding run_fallback_up_def by (rule run_probe_step) code_simp

lemma run_displaced_step: "world_step run_fallback_up run_displaced"
  unfolding run_displaced_def by (rule world_step.dial)


text \<open>The log tells where new connections go.  In every reachable state, the destination of the
  last switch line in the log reads back as the socket address of the upstream the observed
  selection reaches, and as none when nothing is selected: whatever mix of dials, rounds and reloads
  moved the selection, no move goes unlogged and none is logged that did not happen.\<close>

theorem log_follows_selection:
  assumes "reachable w"
  shows "read_addr (read_log (w_log w)) =
    reaches (arc_val (ob_list (w_seen w))) (ob_selected (w_seen w))"
  using reachable_wf [OF assms] by (simp add: log_true_def)



theorem log_follows_selection_witness:
  "read_addr (read_log (w_log run_primary_up)) = Some (SA4 (IPv4 192 0 2 10) 1080)"
  unfolding log_follows_selection [OF run_primary_up_reachable] by code_simp

text \<open>C30: a lower-ranked upstream can take the connections of one that is still up, with a clock that
  never moves back.  The patrol stamps the verdicts of a round with the instant the round started, so
  a fallback whose probe returns after the primary came up is dated before it; neither has been up
  for the return hold, and the longest up by those dates is the fallback.  In the run below the
  primary is selected and up, its verdict does not move at all, and the next connection goes to the
  fallback; the log blames the primary for having gone down.\<close>

theorem backdated_probe_displaces_selected:
  "reachable run_primary_up \<and> world_step run_primary_up run_fallback_up
   \<and> world_step run_fallback_up run_displaced
   \<and> list_all (\<lambda>w. verdict (w_heap w) 0 = \<lparr> h_state = Up, h_changed_at = 11 \<rparr> \<and> w_now w = 12)
        [run_primary_up, run_fallback_up, run_displaced]
   \<and> w_seen run_primary_up = \<lparr> ob_list = w_live run_primary_up, ob_selected = Some 0 \<rparr>
   \<and> w_seen run_displaced = \<lparr> ob_list = w_live run_primary_up, ob_selected = Some 1 \<rparr>
   \<and> map ue_health (ues_entries (arc_val (w_live run_primary_up))) = [0, 1]
   \<and> w_log run_displaced = w_log run_fallback_up @
       [SwitchLine ''socks5://192.0.2.10:1080'' ''socks5://192.0.2.11:1080'' CauseDown]"
proof -
  have "list_all (\<lambda>w. verdict (w_heap w) 0 = \<lparr> h_state = Up, h_changed_at = 11 \<rparr> \<and> w_now w = 12)
      [run_primary_up, run_fallback_up, run_displaced]"
    by code_simp
  moreover have "w_seen run_primary_up = \<lparr> ob_list = w_live run_primary_up, ob_selected = Some 0 \<rparr>"
    by code_simp
  moreover have "w_seen run_displaced = \<lparr> ob_list = w_live run_primary_up, ob_selected = Some 1 \<rparr>"
    by code_simp
  moreover have "map ue_health (ues_entries (arc_val (w_live run_primary_up))) = [0, 1]"
    by code_simp
  moreover have "w_log run_displaced = w_log run_fallback_up @
      [SwitchLine ''socks5://192.0.2.10:1080'' ''socks5://192.0.2.11:1080'' CauseDown]"
    by code_simp
  ultimately show ?thesis
    using run_primary_up_reachable run_fallback_up_step run_displaced_step by blast
qed

end
