(* ===== verification/System.thy ===== *)
theory System
  imports Loads World
begin

section \<open>The state task among the dials and the patrol\<close>

text \<open>
  The whole daemon: the state task of theory Daemon and the tasks of theory World, over the same heap
  of verdicts and the same published list.  A request or the end of a script is one step of the
  state task; everything else is a step of World that publishes nothing.  Every run of the whole is,
  seen from the dials and the patrol, a run of World.
\<close>

record 'net system =
  sy_daemon :: "'net daemon"
  sy_world :: world

text \<open>What both sides use: the verdicts, the published list, the allocations and the return hold.\<close>

type_synonym cells = "heap \<times> upstream_entries arc \<times> nat \<times> duration"

definition cells :: "'net daemon \<Rightarrow> cells" where
  "cells st = (dm_heap st, dm_upstream st, dm_ptr st, dm_hold st)"

definition world_cells :: "world \<Rightarrow> cells" where
  "world_cells w = (w_heap w, w_live w, w_ptr w, hop_hold (w_hop w))"

definition set_cells :: "world \<Rightarrow> cells \<Rightarrow> world" where
  "set_cells w c =
     (case c of (heap, live, ptr, hold) \<Rightarrow>
        w\<lparr> w_hop := (w_hop w)\<lparr> hop_heap := heap, hop_upstream := live, hop_hold := hold \<rparr>,
           w_ptr := ptr \<rparr>)"

fun event_clock :: "task_event \<Rightarrow> clock" where
  "event_clock (TakeRequest ck cmd reply) = ck"
| "event_clock (TakeCompletion ck outcome) = ck"

subsection \<open>What the state task does to the cells\<close>

text \<open>A list that was read, and its publication.\<close>

definition parsed :: "upstream list \<Rightarrow> bool" where
  "parsed us \<longleftrightarrow> (\<exists>first fallbacks. upstreams_parse first fallbacks = Inr us)"

definition publish_cells ::
  "time \<Rightarrow> cells \<Rightarrow> upstream list \<Rightarrow> cells" where
  "publish_cells now c us =
     (case c of (heap, live, ptr, hold) \<Rightarrow>
        (let (heap, live) = live_upstream_publish heap live (\<lambda>_. now) ptr us
         in (heap, live, Suc ptr, hold)))"

definition moves_cells ::
  "time \<Rightarrow> cells \<Rightarrow> cells \<Rightarrow> bool" where
  "moves_cells now c c' \<longleftrightarrow> c' = c \<or> (\<exists>us. parsed us \<and> c' = publish_cells now c us)"

lemma parsedI: "upstreams_parse first fallbacks = Inr us \<Longrightarrow> parsed us"
  by (auto simp: parsed_def)

text \<open>What a run has staged was read.\<close>

definition staged_parsed :: "'net daemon \<Rightarrow> bool" where
  "staged_parsed st \<longleftrightarrow> pred_option (\<lambda>f. pred_option parsed (sg_upstream (if_staged f))) (dm_load st)"

lemma moves_cells_refl [simp]: "moves_cells now c c"
  by (simp add: moves_cells_def)

lemma cells_adopt: "cells (adopt_upstream ck st (Some us)) = publish_cells (ck_now ck) (cells st) us"
  by (simp add: adopt_upstream_def cells_def publish_cells_def split: prod.split)

lemma moves_adopt:
  "pred_option parsed us \<Longrightarrow> moves_cells (ck_now ck) (cells st) (cells (adopt_upstream ck st us))"
  by (cases us) (auto simp: cells_adopt moves_cells_def)

lemma cells_rebind [simp]:
  "cells (fst (rebind env st addrs)) = cells st"
  "cells (fst (rebind_forwards env st forwards)) = cells st"
  by (simp_all add: rebind_def rebind_forwards_def cells_def Let_def split: prod.split sum.split)

lemma cells_simps [simp]:
  "cells (publish_rules st rules) = cells st" "cells (st\<lparr> dm_load := l \<rparr>) = cells st"
  "cells (st\<lparr> dm_last_load := ll \<rparr>) = cells st"
  by (simp_all add: publish_rules_def cells_def)

lemma cells_reload [simp]: "cells (fst (reload env st path reply)) = cells st"
  using reload_shape [of env st path reply] by (auto simp: cells_def)

lemma stage_command_parsed:
  "pred_option parsed (sg_upstream s) \<Longrightarrow> pred_option parsed (sg_upstream (stage_command ipnet s cmd))"
  by (cases cmd)
    (auto simp: staging_push_rule_eq staging_clear_rules_def staging_set_upstream_def
      staging_set_listen_def staging_push_forward_eq parsed_def split: sum.split)

lemma handle_cells_idle:
  assumes "dm_load st = None"
  shows "moves_cells (ck_now ck) (cells st) (cells (fst (handle env ck st cmd reply)))"
proof (cases "mutating cmd")
  case False
  then show ?thesis
    by (cases cmd) (auto simp: turn_off_def split: option.split)
next
  case True
  show ?thesis
  proof (cases "load_of_command cmd")
    case None
    then have "target_of st (load_of_command cmd) = Live" using target_idle(1) [OF assms] by simp
    with True show ?thesis
      by (cases cmd)
        (auto simp: add_rule_def clear_rules_def set_upstream_def set_listen_def add_forward_def
          moves_adopt parsedI split: sum.split prod.split)
  next
    case (Some i)
    with target_idle(2) [OF assms, of i] True show ?thesis by (auto simp: handle_refused)
  qed
qed

lemma handle_cells:
  "moves_cells (ck_now ck) (cells st) (cells (fst (handle env ck st cmd reply)))"
  by (cases "dm_load st") (simp_all add: handle_cells_idle handle_in_flight)

lemma commit_cells:
  assumes "pred_option parsed (sg_upstream staging)"
  shows "moves_cells (ck_now ck) (cells st) (cells (fst (commit env ck st staging)))"
proof -
  define moved where "moved = (case sg_listen staging of None \<Rightarrow> (st, Ok ()) | Some addrs \<Rightarrow> rebind env st addrs)"
  have "cells (fst moved) = cells st" by (simp add: moved_def split: option.split)
  then obtain st1 r1 where m: "moved = (st1, r1)" and c1: "cells st1 = cells st" by (cases moved) simp
  obtain st2 r2 where fw: "rebind_forwards env st1 (sg_forwards staging) = (st2, r2)" by fastforce
  have c2: "cells st2 = cells st" using cells_rebind(2) [of env st1 "sg_forwards staging"] fw c1 by simp
  have "moves_cells (ck_now ck) (cells st)
      (cells (adopt_upstream ck (publish_rules st2 (sg_rules staging)) (sg_upstream staging)))"
    using moves_adopt [OF assms, of ck "publish_rules st2 (sg_rules staging)"] by (simp add: c2)
  with m fw c1 c2 show ?thesis
    unfolding commit_def staging_commit_def moved_def
    by (cases r1; cases r2) (simp_all add: publish_def)
qed

lemma finish_cells:
  assumes "staged_parsed st"
  shows "moves_cells (ck_now ck) (cells st) (cells (fst (finish env ck st outcome)))"
proof (cases "dm_load st")
  case (Some f)
  let ?st = "st\<lparr> dm_load := None \<rparr>"
  have staged: "pred_option parsed (sg_upstream (if_staged f))"
    using assms Some by (simp add: staged_parsed_def)
  obtain st1 s where settled: "settle_load env ck ?st (if_staged f) outcome = (st1, s)" by fastforce
  have "moves_cells (ck_now ck) (cells ?st) (cells st1)"
    using settled commit_cells [OF staged, of ck ?st env]
    by (auto simp: settle_load_def Let_def split: script_outcome.splits option.splits prod.splits sum.splits)
  with settled Some show ?thesis by (simp add: finish_def Let_def)
qed (simp add: finish_def)

lemma task_step_cells:
  "staged_parsed st \<Longrightarrow>
     moves_cells (ck_now (event_clock ev)) (cells st) (cells (fst (task_step env st ev)))"
  by (cases ev) (simp_all add: handle_cells finish_cells)

lemma handle_staged_parsed:
  assumes "staged_parsed st"
  shows "staged_parsed (fst (handle env ck st cmd reply))"
proof (cases "dm_load st")
  case (Some f)
  then show ?thesis
    using assms stage_command_parsed [of "if_staged f" "en_ipnet env" cmd]
    by (simp add: handle_in_flight staged_parsed_def)
next
  case None
  have reloaded: "staged_parsed (fst (reload env st path reply))" for path
    using reload_shape [of env st path reply] assms
    by (auto simp: staged_parsed_def staging_default_def)
  show ?thesis
  proof (cases "mutating cmd")
    case True
    with handle_idle_ids [OF True None, of env ck reply] show ?thesis by (simp add: staged_parsed_def)
  next
    case False
    with assms reloaded show ?thesis
      by (cases cmd) (simp_all add: turn_off_def staged_parsed_def split: option.split)
  qed
qed

lemma task_step_staged_parsed:
  "staged_parsed st \<Longrightarrow> staged_parsed (fst (task_step env st ev))"
  by (cases ev) (simp_all add: handle_staged_parsed finish_ids staged_parsed_def [of "fst (finish _ _ _ _)"])

subsection \<open>Steps of the whole\<close>

definition task_turn :: "'net env \<Rightarrow> 'net system \<Rightarrow> task_event \<Rightarrow> 'net system" where
  "task_turn env s ev =
     (let st = fst (task_step env (sy_daemon s) ev) in
      \<lparr> sy_daemon = st, sy_world = set_cells (sy_world s) (cells st) \<rparr>)"

definition world_turn :: "'net system \<Rightarrow> world \<Rightarrow> 'net system" where
  "world_turn s w = \<lparr> sy_daemon = (sy_daemon s)\<lparr> dm_heap := w_heap w \<rparr>, sy_world = w \<rparr>"

inductive system_step :: "'net env \<Rightarrow> 'net system \<Rightarrow> 'net system \<Rightarrow> bool" for env where
  task: "ck_now (event_clock ev) = w_now (sy_world s) \<Longrightarrow> system_step env s (task_turn env s ev)"
| other: "world_step (sy_world s) w \<Longrightarrow> w_live w = w_live (sy_world s) \<Longrightarrow> w_ptr w = w_ptr (sy_world s) \<Longrightarrow>
    system_step env s (world_turn s w)"

text \<open>The daemon as it starts: its listeners open, nothing published, nothing observed.\<close>

inductive system_reachable :: "'net env \<Rightarrow> 'net system \<Rightarrow> bool" for env where
  start: "frontends_bind (en_os env) n addrs = (n', Ok front) \<Longrightarrow> frontends_listening front = Some bound \<Longrightarrow>
    system_reachable env
      \<lparr> sy_daemon = daemon_new front n' bound load_timeout hold now, sy_world = world_start now hold \<rparr>"
| step: "system_reachable env s \<Longrightarrow> system_step env s s' \<Longrightarrow> system_reachable env s'"

inductive_cases system_stepE: "system_step env s s'"

definition wf_system :: "'net env \<Rightarrow> 'net system \<Rightarrow> bool" where
  "wf_system env s \<longleftrightarrow>
     wf_daemon env (sy_daemon s) \<and> staged_parsed (sy_daemon s)
     \<and> cells (sy_daemon s) = world_cells (sy_world s)"

lemma set_cells_same: "set_cells w (world_cells w) = w"
  by (simp add: set_cells_def world_cells_def)

lemma world_cells_set [simp]: "world_cells (set_cells w c) = c"
  by (simp add: set_cells_def world_cells_def split: prod.split)

lemma set_cells_now [simp]: "w_now (set_cells w c) = w_now w"
  by (simp add: set_cells_def split: prod.split)

lemma set_cells_publish: "set_cells w (publish_cells (w_now w) (world_cells w) us) = do_publish w us"
  by (simp add: set_cells_def publish_cells_def world_cells_def do_publish_def split: prod.split)

text \<open>A turn of the state task is a publication of World, or nothing World can see.\<close>

lemma moves_world:
  assumes "moves_cells (w_now w) (world_cells w) c"
  shows "set_cells w c = w \<or> world_step w (set_cells w c)"
  using assms
  by (auto simp: moves_cells_def set_cells_same set_cells_publish parsed_def intro: world_step.publish)

text \<open>No step of World touches the hold.\<close>

lemma world_step_hold: "world_step w w' \<Longrightarrow> hop_hold (w_hop w') = hop_hold (w_hop w)"
  by (erule world_stepE)
    (auto simp: do_publish_def do_dial_def do_answer_eq do_round_def do_probe_eq do_round_end_def
      routed_select_eq Let_def split: prod.splits option.splits)

lemma wf_world_turn:
  assumes "wf_system env s" and "wf_world w" and "hop_hold (w_hop w) = hop_hold (w_hop (sy_world s))"
    and "w_live w = w_live (sy_world s)" and "w_ptr w = w_ptr (sy_world s)"
  shows "wf_system env (world_turn s w)"
proof -
  have shared: "dm_upstream (sy_daemon s) = w_live (sy_world s)"
      "dm_ptr (sy_daemon s) = w_ptr (sy_world s)"
      "dm_hold (sy_daemon s) = hop_hold (w_hop (sy_world s))"
    using assms(1) by (simp_all add: wf_system_def cells_def world_cells_def)
  have "wf_entries (w_heap w) (ues_entries (arc_val (dm_upstream (sy_daemon s))))"
    using assms(2,4) shared by (simp add: wf_world_def)
  with assms(1) have "wf_daemon env ((sy_daemon s)\<lparr> dm_heap := w_heap w \<rparr>)"
    by (simp add: wf_system_def wf_daemon_def frontends_agree_def wf_load_def listen_of_def
        cong: frontends.case_cong option.case_cong)
  with assms shared show ?thesis
    by (simp add: wf_system_def world_turn_def cells_def world_cells_def staged_parsed_def)
qed

lemma wf_task_turn:
  assumes "wf_system env s" and "sockets_named (en_os env)"
  shows "wf_system env (task_turn env s ev)"
  using assms by (simp add: wf_system_def task_turn_def wf_task_step task_step_staged_parsed Let_def)

text \<open>A step of the whole is no step of World, or one.\<close>

lemma system_step_world:
  assumes "system_step env s s'" and "wf_system env s"
  shows "sy_world s' = sy_world s \<or> world_step (sy_world s) (sy_world s')"
  using assms(1)
proof cases
  case (task ev)
  have "moves_cells (w_now (sy_world s)) (world_cells (sy_world s))
      (cells (fst (task_step env (sy_daemon s) ev)))"
    using task_step_cells [of "sy_daemon s" ev env] assms(2) task(2) by (simp add: wf_system_def)
  from moves_world [OF this] task(1) show ?thesis by (simp add: task_turn_def Let_def)
next
  case (other w)
  then show ?thesis by (simp add: world_turn_def)
qed

lemma system_reachable_refines:
  assumes "system_reachable env s" and "sockets_named (en_os env)"
  shows "wf_system env s \<and> reachable (sy_world s)"
  using assms(1)
proof (induction rule: system_reachable.induct)
  case (start n addrs n' front bound load_timeout hold now)
  obtain b where b: "front = Bound b" "bd_forwards b = []" "bound = bound_listen b"
    using start by (auto simp: frontends_bind_def res_bind_def split: prod.splits sum.splits)
  have "wf_daemon env (daemon_new front n' bound load_timeout hold now)"
    by (simp add: b daemon_new_def wf_daemon_def wf_load_def frontends_agree_def listen_of_def
        bound_listen_def bound_forwards_def upstream_entries_default_def)
  then have "wf_system env \<lparr> sy_daemon = daemon_new front n' bound load_timeout hold now,
      sy_world = world_start now hold \<rparr>"
    by (simp add: wf_system_def cells_def world_cells_def daemon_new_def world_start_def
        staged_parsed_def)
  then show ?case by (simp add: reachable.start)
next
  case (step s s')
  then have wf: "wf_system env s" and reach: "reachable (sy_world s)" by simp_all
  have "reachable (sy_world s')"
    using system_step_world [OF step(2) wf] reach by (auto intro: reachable.step)
  moreover have "wf_system env s'"
    using step(2)
  proof cases
    case (task ev)
    with wf_task_turn [OF wf assms(2)] show ?thesis by simp
  next
    case (other w)
    have "wf_world w" using reachable_wf reach wf_world_step [OF other(2)] by blast
    with wf_world_turn [OF wf _ world_step_hold [OF other(2)]] other show ?thesis by simp
  qed
  ultimately show ?case by simp
qed

subsection \<open>What a status says of the next dial\<close>

lemma selected_views:
  "map uv_addr (filter uv_selected (upstream_views_from heap selected k entries)) =
     (case selected of
        None \<Rightarrow> []
      | Some i \<Rightarrow>
          if k \<le> i \<and> i < k + length entries then [written (ue_upstream (entries ! (i - k)))] else [])"
proof (induction heap selected k entries rule: upstream_views_from.induct)
  case (2 heap selected k entry entries)
  then show ?case
    by (cases selected) (auto simp: Let_def nth_Cons' le_less Suc_le_eq)
qed (auto split: option.split)

text \<open>The entry a dial made now goes through, if any.\<close>

definition dialled_by :: "world \<Rightarrow> rule_class \<Rightarrow> upstream_entry list" where
  "dialled_by w class = drop (length (w_dials w)) (w_dials (do_dial w class))"

lemma dialled_prefer:
  "dialled_by w Prefer =
     (case entries_at (arc_val (w_live w))
             (entries_selected (w_heap w) (arc_val (w_live w)) (w_now w) (hop_hold (w_hop w))) of
        None \<Rightarrow> [] | Some e \<Rightarrow> [e])"
  by (simp add: dialled_by_def do_dial_def routed_select_eq Let_def split: option.split)

lemma status_selected:
  assumes "cells st = world_cells w" and "ck_now ck = w_now w"
  shows "map uv_addr (filter uv_selected (ds_upstreams (daemon_status_of ck st)))
    = map (\<lambda>e. written (ue_upstream e)) (dialled_by w Prefer)"
proof -
  let ?sel = "entries_selected (w_heap w) (arc_val (w_live w)) (w_now w) (hop_hold (w_hop w))"
  have "ds_upstreams (daemon_status_of ck st)
      = upstream_views_from (w_heap w) ?sel 0 (ues_entries (arc_val (w_live w)))"
    using assms by (simp add: daemon_status_of_def upstream_views_def live_upstream_snapshot_def cells_def
        world_cells_def Let_def split: prod.split)
  then show ?thesis
    by (cases ?sel) (simp_all add: selected_views dialled_prefer entries_at_def nth_opt_def)
qed

subsection \<open>Properties\<close>


text \<open>A daemon told of two upstreams, whose first \<open>require\<close> dial then reaches the first of them.\<close>

definition two_upstreams :: "ipv4 system \<Rightarrow> ipv4 system" where
  "two_upstreams s =
     task_turn example_env s
       (TakeRequest \<lparr> ck_now = 0, ck_elapsed = 0 \<rparr>
          (SetUpstreams ''socks5://192.0.2.10:1080'' [''socks5://192.0.2.11:1080''] None) 0)"

definition primary_up :: "ipv4 system \<Rightarrow> ipv4 system" where
  "primary_up s =
     (let s = world_turn s (do_dial (sy_world s) Require)
      in world_turn s (do_answer (sy_world s) 0 (Ok ())))"

definition system_start :: "ipv4 system" where
  "system_start =
     (case frontends_bind free_os 0 DEFAULT_LISTEN of
        (n, Inr front) \<Rightarrow>
          \<lparr> sy_daemon = daemon_new front n DEFAULT_LISTEN LOAD_TIMEOUT RETURN_HOLD 0,
            sy_world = world_start 0 RETURN_HOLD \<rparr>
      | (n, Inl failure) \<Rightarrow>
          \<lparr> sy_daemon = example_daemon, sy_world = world_start 0 RETURN_HOLD \<rparr>)"

lemma system_start_reachable: "system_reachable example_env system_start"
proof -
  obtain n r where bind: "frontends_bind free_os 0 DEFAULT_LISTEN = (n, r)" by fastforce
  then obtain front where r: "r = Ok front" and now: "frontends_listening front = Some DEFAULT_LISTEN"
    by (auto simp: frontends_bind_def bind_tcp_def free_os_def accept_on_def bound_listen_def
        DEFAULT_LISTEN_def)
  have "frontends_bind (en_os example_env) 0 DEFAULT_LISTEN = (n, Ok front)"
    using bind r by (simp add: example_env_def)
  from system_reachable.start [OF this now] show ?thesis
    by (simp add: system_start_def bind r)
qed

lemma world_turn_reachable:
  assumes "system_reachable env s" and "world_step (sy_world s) w"
    and "w_live w = w_live (sy_world s)" and "w_ptr w = w_ptr (sy_world s)"
  shows "system_reachable env (world_turn s w)"
  using system_reachable.step [OF assms(1) system_step.other [OF assms(2-4)]] .


end
