(* ===== verification/Process.thy ===== *)
theory Process
  imports Loads
begin

section \<open>The daemon process: \<open>daemon/mod.rs\<close> and \<open>daemon/open_files.rs\<close>\<close>

text \<open>
  The single-instance claim on the pid file, the open-file limit, the command socket and the order in
  which a daemon starts and ends.  Each call to the operating system that can fail is answered by an
  argument, which names the failure of the step or none.
\<close>

subsection \<open>The pace of the patrol\<close>

record pace =
  pc_interval :: duration
  pc_confirm_delay :: duration
  pc_hold :: duration

definition PRODUCTION :: pace where
  "PRODUCTION =
     \<lparr> pc_interval = PROBE_INTERVAL, pc_confirm_delay = PROBE_CONFIRM_DELAY, pc_hold = RETURN_HOLD \<rparr>"

subsection \<open>The owner of the pid file\<close>

definition show_pid :: "nat \<Rightarrow> string" where "show_pid pid = show_nat pid"

datatype lock_owner = Known nat | Unknown

definition show_lock_owner :: "lock_owner \<Rightarrow> string" where
  "show_lock_owner owner =
     (case owner of Known pid \<Rightarrow> ''pid '' @ show_pid pid | Unknown \<Rightarrow> ''pid unknown'')"

datatype start_failure = AlreadyRunning lock_owner | StartIo io_error

fun show_start_failure :: "start_failure \<Rightarrow> string" where
  "show_start_failure (AlreadyRunning owner) =
     ''another nhop daemon is already running ('' @ show_lock_owner owner @ '')''"
| "show_start_failure (StartIo failure) = ''cannot start the daemon: '' @ ie_text failure"

definition read_owner :: "string \<Rightarrow> lock_owner" where
  "read_owner content =
     (if \<not> utf8 content then Unknown
      else case parse_u32 (trim content) of None \<Rightarrow> Unknown | Some pid \<Rightarrow> Known pid)"

text \<open>\<open>remove_if_present\<close>, on the failure of the removal if there was one.\<close>

definition remove_if_present :: "io_error option \<Rightarrow> (io_error, unit) res" where
  "remove_if_present removal =
     (case removal of
        None \<Rightarrow> Ok ()
      | Some failure \<Rightarrow> if ie_kind failure = FileNotFound then Ok () else Err failure)"

subsection \<open>Claiming the pid file\<close>

text \<open>The pid file and the socket: whether a live daemon holds the lock, and what the file says.\<close>

record claim_state =
  cl_locked :: bool
  cl_content :: string
  cl_socket :: bool

datatype claim_step = StateDir | OpenPidFile | RemoveSocket | Truncate | SeekStart | WritePid | Flush

definition step_io :: "(claim_step \<Rightarrow> io_error option) \<Rightarrow> claim_step \<Rightarrow> (start_failure, unit) res" where
  "step_io io step = (case io step of None \<Rightarrow> Ok () | Some failure \<Rightarrow> Err (StartIo failure))"

text \<open>
  \<open>InstanceGuard::acquire\<close>.  A failure after the lock was taken drops the file and with it the lock.
\<close>

definition acquire ::
  "(claim_step \<Rightarrow> io_error option) \<Rightarrow> nat \<Rightarrow> claim_state \<Rightarrow> claim_state \<times> (start_failure, unit) res" where
  "acquire io pid cl =
     (case res_bind (step_io io StateDir) (\<lambda>_. step_io io OpenPidFile) of
        Inl failure \<Rightarrow> (cl, Err failure)
      | Inr _ \<Rightarrow>
          if cl_locked cl then (cl, Err (AlreadyRunning (read_owner (cl_content cl))))
          else
            case remove_if_present
                   (if cl_socket cl then io RemoveSocket
                    else Some \<lparr> ie_kind = FileNotFound, ie_text = [], ie_payload = NoPayload \<rparr>) of
              Inl failure \<Rightarrow> (cl, Err (StartIo failure))
            | Inr _ \<Rightarrow>
                (let cl = cl\<lparr> cl_socket := False \<rparr> in
                 case step_io io Truncate of
                   Inl failure \<Rightarrow> (cl, Err failure)
                 | Inr _ \<Rightarrow>
                     (let cl = cl\<lparr> cl_content := [] \<rparr> in
                      case res_bind (step_io io SeekStart) (\<lambda>_. step_io io WritePid) of
                        Inl failure \<Rightarrow> (cl, Err failure)
                      | Inr _ \<Rightarrow>
                          (let cl = cl\<lparr> cl_content := show_nat pid @ [LF] \<rparr> in
                           case step_io io Flush of
                             Inl failure \<Rightarrow> (cl, Err failure)
                           | Inr _ \<Rightarrow> (cl\<lparr> cl_locked := True \<rparr>, Ok ())))))"

text \<open>Dropping the guard removes the pid file and releases the lock.\<close>

definition release :: "claim_state \<Rightarrow> claim_state" where
  "release cl = cl\<lparr> cl_content := [], cl_locked := False \<rparr>"

lemma acquire_locked: "cl_locked cl \<Longrightarrow> \<exists>e. acquire io pid cl = (cl, Err e)"
  by (auto simp: acquire_def split: sum.split)

lemma acquire_Ok:
  "acquire io pid cl = (cl', Ok ()) \<Longrightarrow>
     \<not> cl_locked cl \<and> cl_locked cl' \<and> cl_content cl' = show_nat pid @ [LF] \<and> \<not> cl_socket cl'"
  by (auto simp: acquire_def Let_def split: sum.splits if_splits)

lemma read_owner_own: "pid \<le> u32_max \<Longrightarrow> read_owner (show_nat pid @ [LF]) = Known pid"
proof -
  assume pid: "pid \<le> u32_max"
  have plain: "\<forall>c \<in> set (show_nat pid). addr_char c" by (rule show_nat_addr)
  have ascii: "byte_in 0 127 c" if "addr_char c" for c
    using that by (auto simp: addr_char_def hex_digit_def byte_in_def Let_def split: if_splits)
  have "utf8 (show_nat pid @ [LF])"
    using plain ascii by (intro utf8_ascii) (auto simp: byte_in_def)
  moreover have "trim (show_nat pid @ [LF]) = show_nat pid"
  proof -
    have ws: "is_whitespace LF" by (simp add: is_whitespace_def)
    have no_ws: "\<forall>c \<in> set (show_nat pid). \<not> is_whitespace c" using plain addr_char_plain by blast
    then obtain c cs where "show_nat pid = c # cs" "\<not> is_whitespace c"
      by (cases "show_nat pid") auto
    then have "trim_start (show_nat pid @ [LF]) = show_nat pid @ [LF]" by (simp add: trim_start_def)
    then have "trim (show_nat pid @ [LF]) = trim_end (show_nat pid)"
      by (simp add: trim_def trim_end_def ws)
    moreover have "trim_start (show_nat pid) = show_nat pid"
      using \<open>show_nat pid = c # cs\<close> \<open>\<not> is_whitespace c\<close> by (simp add: trim_start_def)
    ultimately show ?thesis using trim_id [OF no_ws] by (simp add: trim_def)
  qed
  ultimately show ?thesis
    using pid by (simp add: read_owner_def parse_u32_def parse_unsigned_show_nat)
qed

text \<open>A second start while the first daemon runs is refused and names the first.\<close>

lemma second_start_refused:
  assumes "acquire io pid cl = (cl', Ok ())" and "pid \<le> u32_max"
    and "io' StateDir = None" and "io' OpenPidFile = None"
  shows "acquire io' pid' cl' = (cl', Err (AlreadyRunning (Known pid)))"
  using acquire_Ok [OF assms(1)] assms(2-4)
  by (simp add: acquire_def step_io_def read_owner_own)

subsection \<open>The open-file limit\<close>

record limits =
  lm_soft :: nat
  lm_hard :: nat

definition TARGET :: nat where "TARGET = 16384"

definition wanted_limit :: "limits \<Rightarrow> nat option" where
  "wanted_limit current =
     (let target = min TARGET (lm_hard current) in
      if target \<le> lm_soft current then None else Some target)"

text \<open>
  \<open>getrlimit\<close> and \<open>setrlimit\<close> for the number of open files: the code each returns, with the limits the
  first fills in, on a kernel of any type.  \<open>errno\<close> is the failure behind a code that is not zero.
\<close>

record 'k rlimit_calls =
  rl_get :: "'k \<Rightarrow> int \<times> limits"
  rl_set :: "'k \<Rightarrow> limits \<Rightarrow> 'k \<times> int"
  rl_errno :: "'k \<Rightarrow> io_error"

definition read_limits :: "'k rlimit_calls \<Rightarrow> 'k \<Rightarrow> (io_error, limits) res" where
  "read_limits calls sys =
     (let (code, limit) = rl_get calls sys in
      if code \<noteq> 0 then Err (rl_errno calls sys) else Ok limit)"

definition write_limits :: "'k rlimit_calls \<Rightarrow> 'k \<Rightarrow> nat \<Rightarrow> nat \<Rightarrow> 'k \<times> (io_error, unit) res" where
  "write_limits calls sys soft hard =
     (let (sys, code) = rl_set calls sys \<lparr> lm_soft = soft, lm_hard = hard \<rparr> in
      (sys, if code \<noteq> 0 then Err (rl_errno calls sys) else Ok ()))"

text \<open>\<open>raise\<close>: the limits are read, the soft one is set where it is wanted, and they are read again.\<close>

definition raise_limit :: "'k rlimit_calls \<Rightarrow> 'k \<Rightarrow> 'k \<times> (io_error, limits) res" where
  "raise_limit calls sys =
     (case read_limits calls sys of
        Inl failure \<Rightarrow> (sys, Err failure)
      | Inr current \<Rightarrow>
          (case wanted_limit current of
             None \<Rightarrow> (sys, Ok current)
           | Some soft \<Rightarrow>
               (case write_limits calls sys soft (lm_hard current) of
                  (sys, Inl failure) \<Rightarrow> (sys, Err failure)
                | (sys, Inr _) \<Rightarrow> (sys, read_limits calls sys))))"

datatype limit_line = LimitInfo nat nat | LimitWarn string

definition raise_and_report :: "'k rlimit_calls \<Rightarrow> 'k \<Rightarrow> 'k \<times> limit_line" where
  "raise_and_report calls sys =
     (case raise_limit calls sys of
        (sys, Inr l) \<Rightarrow> (sys, LimitInfo (lm_soft l) (lm_hard l))
      | (sys, Inl failure) \<Rightarrow> (sys, LimitWarn (ie_text failure)))"

lemma wanted_limit_covers:
  "wanted_limit l = Some soft \<Longrightarrow>
     lm_soft l < soft \<and> soft \<le> TARGET \<and> soft \<le> lm_hard l
     \<and> wanted_limit (l\<lparr> lm_soft := soft \<rparr>) = None"
  by (auto simp: wanted_limit_def Let_def split: if_splits)

lemma wanted_limit_None:
  "wanted_limit l = None \<longleftrightarrow> TARGET \<le> lm_soft l \<or> lm_hard l \<le> lm_soft l"
  by (auto simp: wanted_limit_def Let_def)

text \<open>
  What POSIX says of the two calls: a soft limit up to the hard one may be set by anybody, and what
  was set is read back.
\<close>

definition limits_hold :: "'k rlimit_calls \<Rightarrow> ('k \<Rightarrow> limits) \<Rightarrow> bool" where
  "limits_hold calls limits_of \<longleftrightarrow>
     (\<forall>sys. rl_get calls sys = (0, limits_of sys))
     \<and> (\<forall>sys l. lm_soft l \<le> lm_hard l \<longrightarrow> lm_hard l = lm_hard (limits_of sys) \<longrightarrow>
          snd (rl_set calls sys l) = 0 \<and> limits_of (fst (rl_set calls sys l)) = l)"

text \<open>Then the daemon ends up with the target or the hard limit, and raising again changes nothing.\<close>

lemma raise_limit_outcome:
  assumes "limits_hold calls limits_of" and "raise_limit calls sys = (sys', outcome)"
  shows "outcome = Ok (limits_of sys')"
    and "limits_of sys' = (limits_of sys)\<lparr> lm_soft := max (lm_soft (limits_of sys)) (min TARGET (lm_hard (limits_of sys))) \<rparr>"
    and "raise_limit calls sys' = (sys', Ok (limits_of sys'))"
proof -
  have get: "read_limits calls k = Ok (limits_of k)" for k
    using assms(1) by (simp add: limits_hold_def read_limits_def)
  have set_ok: "snd (rl_set calls sys l) = 0 \<and> limits_of (fst (rl_set calls sys l)) = l"
    if "lm_soft l \<le> lm_hard l" and "lm_hard l = lm_hard (limits_of sys)" for l
    using assms(1) that by (simp add: limits_hold_def)
  have "outcome = Ok (limits_of sys')
    \<and> limits_of sys' = (limits_of sys)\<lparr> lm_soft := max (lm_soft (limits_of sys)) (min TARGET (lm_hard (limits_of sys))) \<rparr>
    \<and> wanted_limit (limits_of sys') = None"
  proof (cases "wanted_limit (limits_of sys)")
    case None
    then show ?thesis using assms(2) by (auto simp: raise_limit_def get wanted_limit_def Let_def split: if_splits)
  next
    case (Some soft)
    obtain k code where set: "rl_set calls sys \<lparr> lm_soft = soft, lm_hard = lm_hard (limits_of sys) \<rparr> = (k, code)"
      by fastforce
    have "code = 0" "limits_of k = \<lparr> lm_soft = soft, lm_hard = lm_hard (limits_of sys) \<rparr>"
      using set_ok [of "\<lparr> lm_soft = soft, lm_hard = lm_hard (limits_of sys) \<rparr>"] set
        wanted_limit_covers [OF Some] by auto
    then show ?thesis
      using assms(2) Some set
      by (auto simp: raise_limit_def get write_limits_def wanted_limit_def Let_def split: if_splits)
  qed
  then show "outcome = Ok (limits_of sys')"
    "limits_of sys' = (limits_of sys)\<lparr> lm_soft := max (lm_soft (limits_of sys)) (min TARGET (lm_hard (limits_of sys))) \<rparr>"
    "raise_limit calls sys' = (sys', Ok (limits_of sys'))"
    by (auto simp: raise_limit_def get)
qed

subsection \<open>Starting\<close>

text \<open>
  \<open>ipc_server::bind\<close>: the socket's name appears, and then its mode is set to owner only; the name
  stays where that fails.
\<close>

definition SOCKET_MODE :: nat where "SOCKET_MODE = 384"

definition ipc_bind ::
  "io_error option \<Rightarrow> (nat \<Rightarrow> io_error option) \<Rightarrow> claim_state \<Rightarrow> claim_state \<times> (io_error, unit) res" where
  "ipc_bind bind_failure permit cl =
     (case bind_failure of
        Some failure \<Rightarrow> (cl, Err failure)
      | None \<Rightarrow>
          (let cl = cl\<lparr> cl_socket := True \<rparr> in
           case permit SOCKET_MODE of
             Some failure \<Rightarrow> (cl, Err failure)
           | None \<Rightarrow> (cl, Ok ())))"

text \<open>\<open>UpstreamHop::start\<close>: a selection of its own, and the patrol beside the dials.\<close>

definition hop_start :: "heap \<Rightarrow> upstream_entries arc \<Rightarrow> duration \<Rightarrow> hop \<times> patrolling" where
  "hop_start heap upstream hold =
     (\<lparr> hop_heap = heap, hop_upstream = upstream, hop_hold = hold, hop_observed = observed_default 1,
        hop_log = [] \<rparr>, patrolling_start)"

text \<open>The cells that are shared, as \<open>Live::default\<close> makes them: no rules, and a list of no upstreams.\<close>

record 'net live =
  lc_rules :: "'net ruleset"
  lc_heap :: heap
  lc_upstream :: "upstream_entries arc"

definition live_default :: "'net live" where
  "live_default =
     \<lparr> lc_rules = [], lc_heap = [],
       lc_upstream = \<lparr> arc_ptr = 0, arc_val = upstream_entries_default \<rparr> \<rparr>"

definition spawn_frontends ::
  "os \<Rightarrow> nat \<Rightarrow> 'net live \<Rightarrow> listen \<Rightarrow> pace \<Rightarrow> nat \<times> (io_error, frontends \<times> hop \<times> patrolling) res" where
  "spawn_frontends os n live addrs pace =
     (let (hop, patrolling) = hop_start (lc_heap live) (lc_upstream live) (pc_hold pace) in
      case frontends_bind os n addrs of
        (n, Inl failure) \<Rightarrow> (n, Err failure)
      | (n, Inr frontends) \<Rightarrow> (n, Ok (frontends, hop, patrolling)))"

text \<open>What the state task starts with; the reader of the system's settings works on a machine.\<close>

type_synonym 'm proxy_reader = "network_service \<Rightarrow> 'm \<Rightarrow> 'm \<times> (proxy_failure, system_proxy) res"

record ('net, 'm) state_config =
  sc_live :: "'net live"
  sc_frontends :: frontends
  sc_listen :: listen
  sc_load_timeout :: duration
  sc_proxy :: "'m proxy_reader"
  sc_hold :: duration

definition state_config_default :: "('net, 'm) state_config" where
  "state_config_default =
     \<lparr> sc_live = live_default, sc_frontends = Unbound,
       sc_listen = \<lparr> l_http = DEFAULT_HTTP_LISTEN, l_socks = DEFAULT_SOCKS_LISTEN \<rparr>,
       sc_load_timeout = LOAD_TIMEOUT, sc_proxy = (\<lambda>service m. (m, no_system_proxy service)),
       sc_hold = RETURN_HOLD \<rparr>"

text \<open>The state task of a configuration, after \<open>n\<close> attempts to bind.\<close>

definition spawn :: "('net, 'm) state_config \<Rightarrow> nat \<Rightarrow> time \<Rightarrow> 'net daemon" where
  "spawn config n now =
     (daemon_new (sc_frontends config) n (sc_listen config) (sc_load_timeout config) (sc_hold config)
        now)\<lparr> dm_rules := lc_rules (sc_live config), dm_heap := lc_heap (sc_live config),
              dm_upstream := lc_upstream (sc_live config) \<rparr>"

text \<open>A running daemon, with the tasks it consists of.\<close>

record ('net, 'm) started =
  sd_state :: "'net daemon"
  sd_proxy :: "'m proxy_reader"
  sd_hop :: hop
  sd_patrol :: patrolling
  sd_listen :: listen
  sd_socket_file :: path

text \<open>
  \<open>start_paced\<close>: the claim, the command socket, the front ends, and then the state task, whose first
  request is to load the remembered script.
\<close>

definition start_paced ::
  "(claim_step \<Rightarrow> io_error option) \<Rightarrow> io_error option \<Rightarrow> (nat \<Rightarrow> io_error option) \<Rightarrow> os
     \<Rightarrow> 'm networksetup \<Rightarrow> paths \<Rightarrow> nat \<Rightarrow> listen \<Rightarrow> pace \<Rightarrow> time \<Rightarrow> clock \<Rightarrow> claim_state
     \<Rightarrow> claim_state \<times> (start_failure, ('net, 'm) started \<times> task_event list) res" where
  "start_paced io bind_failure permit os tool ps pid addrs pace now ck cl =
     (case acquire io pid cl of
        (cl, Inl failure) \<Rightarrow> (cl, Err failure)
      | (cl, Inr _) \<Rightarrow>
          (case ipc_bind bind_failure permit cl of
             (cl, Inl failure) \<Rightarrow> (release cl, Err (StartIo failure))
           | (cl, Inr _) \<Rightarrow>
               (let live = live_default in
                case spawn_frontends os 0 live addrs pace of
                  (n, Inl failure) \<Rightarrow> (release cl, Err (StartIo failure))
                | (n, Inr (frontends, hop, patrolling)) \<Rightarrow>
                    (let addrs = (case frontends_listening frontends of None \<Rightarrow> addrs | Some b \<Rightarrow> b);
                         config =
                           \<lparr> sc_live = live, sc_frontends = frontends, sc_listen = addrs,
                             sc_load_timeout = LOAD_TIMEOUT, sc_proxy = networksetup_read tool,
                             sc_hold = pc_hold pace \<rparr>
                     in (cl, Ok (\<lparr> sd_state = spawn config n now, sd_proxy = sc_proxy config,
                                   sd_hop = hop, sd_patrol = patrolling, sd_listen = addrs,
                                   sd_socket_file = socket_file ps \<rparr>,
                                 [TakeRequest ck (Reload None) 0]))))))"

definition start_on ::
  "(claim_step \<Rightarrow> io_error option) \<Rightarrow> io_error option \<Rightarrow> (nat \<Rightarrow> io_error option) \<Rightarrow> os
     \<Rightarrow> 'm networksetup \<Rightarrow> paths \<Rightarrow> nat \<Rightarrow> listen \<Rightarrow> time \<Rightarrow> clock \<Rightarrow> claim_state
     \<Rightarrow> claim_state \<times> (start_failure, ('net, 'm) started \<times> task_event list) res" where
  "start_on io bind_failure permit os tool ps pid addrs now ck cl =
     start_paced io bind_failure permit os tool ps pid addrs PRODUCTION now ck cl"

definition start_daemon ::
  "(claim_step \<Rightarrow> io_error option) \<Rightarrow> io_error option \<Rightarrow> (nat \<Rightarrow> io_error option) \<Rightarrow> os
     \<Rightarrow> 'm networksetup \<Rightarrow> paths \<Rightarrow> nat \<Rightarrow> time \<Rightarrow> clock \<Rightarrow> claim_state
     \<Rightarrow> claim_state \<times> (start_failure, ('net, 'm) started \<times> task_event list) res" where
  "start_daemon io bind_failure permit os tool ps pid now ck cl =
     start_on io bind_failure permit os tool ps pid DEFAULT_LISTEN now ck cl"

text \<open>\<open>shutdown\<close>: the socket goes, then the claim.\<close>

definition shutdown :: "claim_state \<Rightarrow> claim_state" where
  "shutdown cl = release (cl\<lparr> cl_socket := False \<rparr>)"

text \<open>Both handlers are installed before either signal is waited for.\<close>

definition await_stop_signal :: "io_error option \<Rightarrow> io_error option \<Rightarrow> (io_error, unit) res" where
  "await_stop_signal interrupt_handler terminate_handler =
     (case interrupt_handler of
        Some failure \<Rightarrow> Err failure
      | None \<Rightarrow> (case terminate_handler of Some failure \<Rightarrow> Err failure | None \<Rightarrow> Ok ()))"

text \<open>
  \<open>run\<close>: the log, the open-file limit, the daemon until a signal arrives, and the clean end.  A daemon
  whose signal handlers cannot be installed is dropped, which releases the claim and leaves the
  socket file.  \<open>starts\<close> is \<open>start_daemon\<close> on the arguments of this process.
\<close>

definition run_daemon ::
  "io_error option \<Rightarrow> 'k rlimit_calls
     \<Rightarrow> (claim_state \<Rightarrow> claim_state \<times> (start_failure, ('net, 'm) started \<times> task_event list) res)
     \<Rightarrow> (io_error, unit) res \<Rightarrow> 'k \<times> claim_state
     \<Rightarrow> ('k \<times> claim_state) \<times> limit_line option \<times> (start_failure, unit) res" where
  "run_daemon log_failure calls starts signalled sys =
     (let (k, cl) = sys in
      case log_failure of
        Some failure \<Rightarrow> (sys, None, Err (StartIo failure))
      | None \<Rightarrow>
          (let (k, line) = raise_and_report calls k in
           case starts cl of
             (cl, Inl failure) \<Rightarrow> ((k, cl), Some line, Err failure)
           | (cl, Inr started) \<Rightarrow>
               (case signalled of
                  Inl failure \<Rightarrow> ((k, release cl), Some line, Err (StartIo failure))
                | Inr _ \<Rightarrow> ((k, shutdown cl), Some line, Ok ()))))"

text \<open>A daemon that did not start leaves the claim free for the next one.\<close>

lemma spawn_frontends_eq:
  "spawn_frontends os n live addrs pace =
     (fst (frontends_bind os n addrs),
      map_sum id (\<lambda>frontends. (frontends, hop_start (lc_heap live) (lc_upstream live) (pc_hold pace)))
        (snd (frontends_bind os n addrs)))"
  by (auto simp: spawn_frontends_def split: prod.split sum.split)

lemma failed_start_releases:
  "start_paced io bind_failure permit os tool ps pid addrs pace now ck cl = (cl', Inl failure) \<Longrightarrow>
     \<not> cl_locked cl \<Longrightarrow> \<not> cl_locked cl'"
  by (auto simp: start_paced_def acquire_def release_def Let_def
      split: prod.splits sum.splits option.splits if_splits)

text \<open>Every run of the daemon that claimed the pid file gives it up again.\<close>

lemma run_daemon_releases:
  assumes "\<not> cl_locked cl"
  shows "\<not> cl_locked (snd (fst (run_daemon log_failure calls
      (start_daemon io bind_failure permit os tool ps pid now ck) signalled (k, cl))))"
proof -
  have "\<not> cl_locked cl'"
    if "start_daemon io bind_failure permit os tool ps pid now ck cl = (cl', Inl failure)" for cl' failure
    using that assms unfolding start_daemon_def start_on_def by (rule failed_start_releases)
  then show ?thesis
    using assms by (auto simp: run_daemon_def release_def shutdown_def Let_def
        split: option.split prod.split sum.split)
qed

text \<open>
  What a start leaves: the claim and the socket are this process's, the listeners are open, and the
  dialler and the state task read the same list with the same return hold.
\<close>

lemma start_paced_Ok:
  assumes "start_paced io bind_failure permit os tool ps pid addrs pace now ck cl = (cl', Ok (d, evs))"
  obtains n frontends where "\<not> cl_locked cl" "cl_locked cl'" "cl_content cl' = show_nat pid @ [LF]"
    "cl_socket cl'" "frontends_bind os 0 addrs = (n, Ok frontends)"
    "frontends_listening frontends = Some (sd_listen d)"
    "sd_state d = daemon_new frontends n (sd_listen d) LOAD_TIMEOUT (pc_hold pace) now"
    "sd_hop d = \<lparr> hop_heap = [], hop_upstream = \<lparr> arc_ptr = 0, arc_val = upstream_entries_default \<rparr>,
       hop_hold = pc_hold pace, hop_observed = observed_default 1, hop_log = [] \<rparr>"
    "sd_patrol d = patrolling_start" "evs = [TakeRequest ck (Reload None) 0]"
proof -
  obtain cl1 where cl1: "acquire io pid cl = (cl1, Ok ())"
    using assms by (auto simp: start_paced_def split: prod.splits sum.splits)
  obtain frontends where "snd (frontends_bind os 0 addrs) = Ok frontends"
    using assms by (auto simp: start_paced_def cl1 spawn_frontends_eq map_sum_def
        split: prod.splits sum.splits)
  then obtain n where front: "frontends_bind os 0 addrs = (n, Ok frontends)" by (metis prod.collapse)
  obtain b where b: "frontends = Bound b"
    using front by (auto simp: frontends_bind_def res_bind_Inr_iff split: prod.splits sum.splits)
  show thesis
    by (rule that [of n frontends])
      (use assms acquire_Ok [OF cl1] front b in
        \<open>auto simp: start_paced_def cl1 ipc_bind_def spawn_frontends_eq hop_start_def spawn_def
          live_default_def daemon_new_def Let_def split: option.splits\<close>)
qed

end
