(* ===== verification/Startup.thy ===== *)
theory Startup
  imports System Process
begin

section \<open>From the start to a serving daemon\<close>

text \<open>
  Composes the start of theory Process with the state task, the dials and the patrol: what
  \<open>start_paced\<close> hands back is the system theory System starts from, its first request is the load of
  the default script, and until it is shut down every other start names it.
\<close>

text \<open>The whole daemon a start hands back, before anything happened in it.\<close>

definition started_system :: "('net, 'm) started \<Rightarrow> time \<Rightarrow> 'net system" where
  "started_system d now =
     \<lparr> sy_daemon = sd_state d,
       sy_world = (world_start now (hop_hold (sd_hop d)))\<lparr> w_hop := sd_hop d \<rparr> \<rparr>"

lemma started_reachable:
  assumes "start_paced io bind_failure permit (en_os env) tool ps pid addrs pace now ck cl = (cl', Ok (d, evs))"
  shows "system_reachable env (started_system d now)"
proof -
  from assms obtain n frontends where d: "frontends_bind (en_os env) 0 addrs = (n, Ok frontends)"
    "frontends_listening frontends = Some (sd_listen d)"
    "sd_state d = daemon_new frontends n (sd_listen d) LOAD_TIMEOUT (pc_hold pace) now"
    "sd_hop d = \<lparr> hop_heap = [], hop_upstream = \<lparr> arc_ptr = 0, arc_val = upstream_entries_default \<rparr>,
       hop_hold = pc_hold pace, hop_observed = observed_default 1, hop_log = [] \<rparr>"
    by (rule start_paced_Ok)
  have "started_system d now =
      \<lparr> sy_daemon = daemon_new frontends n (sd_listen d) LOAD_TIMEOUT (pc_hold pace) now,
        sy_world = world_start now (pc_hold pace) \<rparr>"
    by (simp add: started_system_def d world_start_def)
  with system_reachable.start [OF d(1,2), of LOAD_TIMEOUT "pc_hold pace" now] show ?thesis by simp
qed

text \<open>
  The first request runs the script of the configuration directory under the default limit, where
  there is one; where there is none the daemon goes on without rules.
\<close>

lemma first_load:
  assumes "start_paced io bind_failure permit (en_os env) tool ps pid addrs pace now ck cl = (cl', Ok (d, evs))"
  defines "script \<equiv> init_file (en_paths env)"
  obtains ev where "evs = [ev]"
    and "task_step env (sd_state d) ev =
      (if is_file (en_fs env) script
       then ((sd_state d)\<lparr> dm_load_ids := 1, dm_init_path := Some script,
               dm_load := Some \<lparr> if_id = 1, if_staged = staging_default, if_reply = 0 \<rparr> \<rparr>,
             [RunScript script (ps_config_dir (en_paths env)) 1 LOAD_TIMEOUT])
       else (sd_state d, [Answer 0 (RespErr NotFound (''no init script at '' @ script))]))"
proof -
  from assms(1) obtain n frontends where d: "frontends_listening frontends = Some (sd_listen d)"
    "sd_state d = daemon_new frontends n (sd_listen d) LOAD_TIMEOUT (pc_hold pace) now"
    "evs = [TakeRequest ck (Reload None) 0]"
    by (rule start_paced_Ok)
  have ids: "load_ids_issue 0 = (1, 1)" using load_ids_issue_fresh [of 0] by (simp add: u64_max_def)
  show thesis
    by (rule that [OF d(3)])
      (simp add: d(2) reload_def current_load_def daemon_new_def script_def ids Let_def split: option.split)
qed

text \<open>
  A start that returns.  The daemon is the system theory System starts from, so what holds of its
  reachable states holds from now on; a status reports the addresses the listeners hold; its first
  request is the load; another start is refused and names it; and its end leaves neither claim nor
  socket.
\<close>

theorem started_daemon_serves:
  assumes "start_paced io bind_failure permit (en_os env) tool ps pid addrs pace now ck cl = (cl', Ok (d, evs))"
    and "pid \<le> u32_max" and "io' StateDir = None" and "io' OpenPidFile = None"
  shows "system_reachable env (started_system d now)
    \<and> ds_listen (daemon_status_of ck' (sd_state d)) = sd_listen d
    \<and> ds_bound (daemon_status_of ck' (sd_state d)) = IsBound
    \<and> evs = [TakeRequest ck (Reload None) 0]
    \<and> acquire io' pid' cl' = (cl', Err (AlreadyRunning (Known pid)))
    \<and> \<not> cl_locked (shutdown cl') \<and> \<not> cl_socket (shutdown cl')"
proof -
  from assms(1) obtain n frontends where d: "cl_locked cl'" "cl_content cl' = show_nat pid @ [LF]"
    "frontends_bind (en_os env) 0 addrs = (n, Ok frontends)"
    "frontends_listening frontends = Some (sd_listen d)"
    "sd_state d = daemon_new frontends n (sd_listen d) LOAD_TIMEOUT (pc_hold pace) now"
    "evs = [TakeRequest ck (Reload None) 0]"
    by (rule start_paced_Ok)
  obtain b where b: "frontends = Bound b" using d(4) by (cases frontends) auto
  have "ds_listen (daemon_status_of ck' (sd_state d)) = sd_listen d"
    "ds_bound (daemon_status_of ck' (sd_state d)) = IsBound"
    by (simp_all add: d(5) daemon_new_def daemon_status_of_def listen_of_def bind_state_of_def b Let_def
        split: prod.split)
  moreover have "acquire io' pid' cl' = (cl', Err (AlreadyRunning (Known pid)))"
    using d(1,2) assms(2-4) by (simp add: acquire_def step_io_def read_owner_own)
  moreover have "\<not> cl_locked (shutdown cl')" "\<not> cl_socket (shutdown cl')"
    by (simp_all add: shutdown_def release_def)
  ultimately show ?thesis using started_reachable [OF assms(1)] d(6) by simp
qed

end
