(* ===== verification/Instances.thy ===== *)
theory Instances
  imports Process
begin

section \<open>Several daemons at once: the claim of \<open>daemon/mod.rs\<close> call by call\<close>

text \<open>
  Theory Process treats the claim on the pid file as one step.  Here any number of processes run
  \<open>nhop start\<close> side by side, and what they share changes with each system call: the files the name
  of the pid file has stood for, the lock on each, and the name of the command socket.  A run is the
  list of calls in the order the kernel made them.  The theory shows that a process running alone
  does what Process says, under which condition two daemons never run at once, and a run without
  that condition in which they do.
\<close>

subsection \<open>What the processes share\<close>

text \<open>
  The calls in the order of the program: those of \<open>InstanceGuard::acquire\<close>, with the lock between the
  second and the third, those of \<open>start_paced\<close>, the signal, and what \<open>shutdown\<close> and the guard's \<open>drop\<close>
  undo.
\<close>

datatype call =
    Claim claim_step
  | TryLock
  | BindSocket
  | RestrictSocket
  | BindFrontends
  | StopSignal
  | ShutSocket
  | RemovePidFile
  | Unlock

text \<open>Where a process is: not running, about to open the pid file, or about to make a call with it open.\<close>

datatype phase = Away | Ready | About call nat

text \<open>
  A file is a number, so that a process keeps the file it opened whatever becomes of its name.  The
  socket's name stands for the process that bound it, whether or not that process still listens.
\<close>

record site =
  si_pid_file :: "nat option"
  si_contents :: "nat \<Rightarrow> string"
  si_lock :: "nat \<Rightarrow> nat option"
  si_files :: nat
  si_socket :: "nat option"
  si_phase :: "nat \<Rightarrow> phase"

definition enter :: "nat \<Rightarrow> phase \<Rightarrow> site \<Rightarrow> site" where
  "enter p phase s = s\<lparr> si_phase := (si_phase s)(p := phase) \<rparr>"

text \<open>Closing a file releases the lock a process has on it; so do \<open>unlock\<close> and the end of the process.\<close>

definition unlock :: "nat \<Rightarrow> nat \<Rightarrow> site \<Rightarrow> site" where
  "unlock p i s =
     (if si_lock s i = Some p then s\<lparr> si_lock := (si_lock s)(i := None) \<rparr> else s)"

subsection \<open>One call\<close>

text \<open>The call behind one that returned.\<close>

fun next_call :: "call \<Rightarrow> call" where
  "next_call TryLock = Claim RemoveSocket"
| "next_call (Claim RemoveSocket) = Claim Truncate"
| "next_call (Claim Truncate) = Claim SeekStart"
| "next_call (Claim SeekStart) = Claim WritePid"
| "next_call (Claim WritePid) = Claim Flush"
| "next_call (Claim Flush) = BindSocket"
| "next_call BindSocket = RestrictSocket"
| "next_call RestrictSocket = BindFrontends"
| "next_call BindFrontends = StopSignal"
| "next_call StopSignal = ShutSocket"
| "next_call ShutSocket = RemovePidFile"
| "next_call RemovePidFile = Unlock"
| "next_call c = c"

text \<open>\<open>open\<close> with \<open>create\<close>: the file the name stands for, or a new one.\<close>

definition open_pid_file :: "nat \<Rightarrow> site \<Rightarrow> site" where
  "open_pid_file p s =
     (case si_pid_file s of
        Some i \<Rightarrow> enter p (About TryLock i) s
      | None \<Rightarrow>
          (let i = si_files s in
           enter p (About TryLock i)
             (s\<lparr> si_pid_file := Some i, si_contents := (si_contents s)(i := []), si_files := Suc i \<rparr>)))"

text \<open>
  What a call that returns does, made by process \<open>p\<close> with file \<open>i\<close> open.  A lock that is taken ends the
  start; a socket's name that exists cannot be bound, and the guard is dropped.
\<close>

fun effect :: "call \<Rightarrow> nat \<Rightarrow> nat \<Rightarrow> site \<Rightarrow> site" where
  "effect TryLock p i s =
     (if si_lock s i = None
      then enter p (About (Claim RemoveSocket) i) (s\<lparr> si_lock := (si_lock s)(i := Some p) \<rparr>)
      else enter p Away s)"
| "effect (Claim RemoveSocket) p i s = enter p (About (Claim Truncate) i) (s\<lparr> si_socket := None \<rparr>)"
| "effect (Claim Truncate) p i s =
     enter p (About (Claim SeekStart) i) (s\<lparr> si_contents := (si_contents s)(i := []) \<rparr>)"
| "effect (Claim WritePid) p i s =
     enter p (About (Claim Flush) i) (s\<lparr> si_contents := (si_contents s)(i := show_nat p @ [LF]) \<rparr>)"
| "effect BindSocket p i s =
     (if si_socket s = None then enter p (About RestrictSocket i) (s\<lparr> si_socket := Some p \<rparr>)
      else enter p (About RemovePidFile i) s)"
| "effect ShutSocket p i s = enter p (About RemovePidFile i) (s\<lparr> si_socket := None \<rparr>)"
| "effect RemovePidFile p i s = enter p (About Unlock i) (s\<lparr> si_pid_file := None \<rparr>)"
| "effect Unlock p i s = enter p Away (unlock p i s)"
| "effect c p i s = enter p (About (next_call c) i) s"

text \<open>
  What a call that fails leads to.  Up to the guard the file is closed; from then on the guard is
  dropped, which ignores its own failures.
\<close>

fun failing :: "call \<Rightarrow> nat \<Rightarrow> nat \<Rightarrow> site \<Rightarrow> site" where
  "failing (Claim step) p i s = enter p Away (unlock p i s)"
| "failing TryLock p i s = enter p Away s"
| "failing RemovePidFile p i s = enter p (About Unlock i) s"
| "failing Unlock p i s = enter p Away (unlock p i s)"
| "failing c p i s = enter p (About RemovePidFile i) s"

datatype happening = Returns nat call | Fails nat call | Dies nat

fun si_step :: "happening \<Rightarrow> site \<Rightarrow> site option" where
  "si_step (Returns p c) s =
     (case si_phase s p of
        Away \<Rightarrow> if c = Claim StateDir then Some (enter p Ready s) else None
      | Ready \<Rightarrow> if c = Claim OpenPidFile then Some (open_pid_file p s) else None
      | About c' i \<Rightarrow> if c = c' then Some (effect c p i s) else None)"
| "si_step (Fails p c) s =
     (case si_phase s p of
        Away \<Rightarrow> if c = Claim StateDir then Some s else None
      | Ready \<Rightarrow> if c = Claim OpenPidFile then Some (enter p Away s) else None
      | About c' i \<Rightarrow> if c = c' then Some (failing c p i s) else None)"
| "si_step (Dies p) s =
     (case si_phase s p of
        About c i \<Rightarrow> Some (enter p Away (unlock p i s))
      | _ \<Rightarrow> Some (enter p Away s))"

fun si_run :: "happening list \<Rightarrow> site \<Rightarrow> site option" where
  "si_run [] s = Some s"
| "si_run (h # hs) s = (case si_step h s of None \<Rightarrow> None | Some s \<Rightarrow> si_run hs s)"

text \<open>No daemon runs; whatever earlier ones left behind is there.\<close>

definition at_rest :: "site \<Rightarrow> bool" where
  "at_rest s \<longleftrightarrow>
     (\<forall>p. si_phase s p = Away) \<and> (\<forall>i. si_lock s i = None)
       \<and> (\<forall>i. si_pid_file s = Some i \<longrightarrow> i < si_files s)"

text \<open>A process has the claim from the lock to the drop of the guard; its daemon runs once \<open>start\<close> returned.\<close>

definition claims :: "site \<Rightarrow> nat \<Rightarrow> bool" where
  "claims s p =
     (case si_phase s p of About c i \<Rightarrow> c \<notin> {TryLock, RemovePidFile, Unlock} | _ \<Rightarrow> False)"

definition runs :: "site \<Rightarrow> nat \<Rightarrow> bool" where
  "runs s p = (case si_phase s p of About c i \<Rightarrow> c = StopSignal | _ \<Rightarrow> False)"

lemma runs_claims: "runs s p \<Longrightarrow> claims s p"
  by (auto simp: runs_def claims_def split: phase.splits)

subsection \<open>When two daemons cannot run at once\<close>

text \<open>
  The one thing to rule out: a guard that removes the pid file's name while another process has that
  file open and has not tried its lock yet.  \<open>ws\<close> are the processes between the two calls.
\<close>

fun undisturbed :: "nat list \<Rightarrow> happening list \<Rightarrow> bool" where
  "undisturbed ws [] = True"
| "undisturbed ws (Dies p # hs) = undisturbed (removeAll p ws) hs"
| "undisturbed ws (Fails p c # hs) =
     undisturbed (if c = TryLock then removeAll p ws else ws) hs"
| "undisturbed ws (Returns p c # hs) =
     (if c = Claim OpenPidFile then undisturbed (p # ws) hs
      else if c = TryLock then undisturbed (removeAll p ws) hs
      else if c = RemovePidFile then ws = [] \<and> undisturbed ws hs
      else undisturbed ws hs)"

text \<open>
  Whoever has the lock has it on the file the name stands for, until the name is removed, and whoever
  is about to try it has opened that file.
\<close>

definition stands :: "nat list \<Rightarrow> site \<Rightarrow> nat \<Rightarrow> bool" where
  "stands ws s p =
     (case si_phase s p of
        About c i \<Rightarrow>
          if c = TryLock then p \<in> set ws \<and> si_pid_file s = Some i
          else si_lock s i = Some p \<and> i < si_files s \<and> (c = Unlock \<or> si_pid_file s = Some i)
      | _ \<Rightarrow> True)"

definition claims_named :: "nat list \<Rightarrow> site \<Rightarrow> bool" where
  "claims_named ws s \<longleftrightarrow>
     (\<forall>i. si_pid_file s = Some i \<longrightarrow> i < si_files s) \<and> (\<forall>p. stands ws s p)"

lemma claims_named_rest: "at_rest s \<Longrightarrow> claims_named [] s"
  by (simp add: at_rest_def claims_named_def stands_def)

text \<open>One process moves; the others stand as long as the move leaves them what they stand on.\<close>

lemma claims_named_move:
  assumes "claims_named ws s" and "stands ws' s' p"
    and "\<And>i. si_pid_file s' = Some i \<Longrightarrow> i < si_files s'"
    and "\<And>q. q \<noteq> p \<Longrightarrow> stands ws s q \<Longrightarrow> stands ws' s' q"
  shows "claims_named ws' s'"
  using assms by (metis claims_named_def)

lemma stands_others:
  assumes "q \<noteq> p" and "stands ws s q" and "si_phase s' q = si_phase s q"
    and "q \<in> set ws \<Longrightarrow> q \<in> set ws'" and "si_files s \<le> si_files s'"
    and "\<And>i. si_lock s i = Some q \<Longrightarrow> si_lock s' i = Some q"
    and "\<And>i. si_pid_file s = Some i \<Longrightarrow> si_pid_file s' = Some i"
  shows "stands ws' s' q"
  using assms by (auto simp: stands_def split: phase.splits if_splits)

lemma claims_namedD:
  assumes "claims_named ws s"
  shows "si_pid_file s = Some i \<Longrightarrow> i < si_files s"
    and "si_phase s p = About TryLock i \<Longrightarrow> p \<in> set ws \<and> si_pid_file s = Some i"
    and "si_phase s p = About c i \<Longrightarrow> c \<noteq> TryLock \<Longrightarrow>
           si_lock s i = Some p \<and> i < si_files s \<and> (c = Unlock \<or> si_pid_file s = Some i)"
  using assms unfolding claims_named_def stands_def by (fastforce split: phase.splits)+

text \<open>A process leaves, goes on to its next call, or opens the file.\<close>

lemma claims_named_leave:
  assumes "claims_named ws s"
  shows "claims_named (removeAll p ws) (enter p Away s)"
    and "claims_named (removeAll p ws) (enter p Away (unlock p i s))"
proof -
  show "claims_named (removeAll p ws) (enter p Away s)"
  proof (rule claims_named_move [OF assms, where p = p])
    fix q assume "q \<noteq> p" and "stands ws s q"
    then show "stands (removeAll p ws) (enter p Away s) q"
      by (rule stands_others) (use \<open>q \<noteq> p\<close> in \<open>simp_all add: enter_def\<close>)
  qed (use claims_namedD(1) [OF assms] in \<open>simp_all add: enter_def stands_def\<close>)
  show "claims_named (removeAll p ws) (enter p Away (unlock p i s))"
  proof (rule claims_named_move [OF assms, where p = p])
    fix q assume "q \<noteq> p" and "stands ws s q"
    then show "stands (removeAll p ws) (enter p Away (unlock p i s)) q"
      by (rule stands_others) (use \<open>q \<noteq> p\<close> in \<open>auto simp: enter_def unlock_def\<close>)
  qed (use claims_namedD(1) [OF assms] in \<open>auto simp: enter_def unlock_def stands_def split: if_splits\<close>)
qed

lemma claims_named_onward:
  assumes "claims_named ws s" and "si_phase s p = About c i" and "c \<noteq> TryLock" and "c \<noteq> Unlock"
    and "c' \<noteq> TryLock" and "si_pid_file s' = si_pid_file s" and "si_files s' = si_files s"
    and "si_lock s' = si_lock s" and "si_phase s' = (si_phase s)(p := About c' i)"
  shows "claims_named ws s'"
proof (rule claims_named_move [OF assms(1), where p = p])
  fix q assume "q \<noteq> p" and "stands ws s q"
  then show "stands ws s' q"
    by (rule stands_others) (use \<open>q \<noteq> p\<close> assms in \<open>simp_all\<close>)
next
  show "stands ws s' p"
    using claims_namedD(3) [OF assms(1-3)] assms(4-9) by (simp add: stands_def)
qed (use claims_namedD(1) [OF assms(1)] assms(6,7) in simp)

lemma claims_named_open:
  assumes "claims_named ws s"
  shows "claims_named (p # ws) (open_pid_file p s)"
proof (rule claims_named_move [OF assms, where p = p])
  fix q assume "q \<noteq> p" and "stands ws s q"
  then show "stands (p # ws) (open_pid_file p s) q"
    by (rule stands_others)
      (use \<open>q \<noteq> p\<close> in \<open>auto simp: open_pid_file_def enter_def Let_def split: option.split\<close>)
qed (use claims_namedD(1) [OF assms] in
    \<open>auto simp: open_pid_file_def enter_def Let_def stands_def split: option.splits\<close>)

lemma claims_named_lock:
  assumes "claims_named ws s" and "si_phase s p = About TryLock i"
  shows "claims_named (removeAll p ws) (effect TryLock p i s)"
proof (cases "si_lock s i")
  case None
  show ?thesis
  proof (rule claims_named_move [OF assms(1), where p = p])
    fix q assume "q \<noteq> p" and "stands ws s q"
    then show "stands (removeAll p ws) (effect TryLock p i s) q"
      by (rule stands_others) (use \<open>q \<noteq> p\<close> None in \<open>auto simp: enter_def\<close>)
  qed (use claims_namedD(1,2) [OF assms(1)] assms(2) None in \<open>auto simp: enter_def stands_def\<close>)
next
  case (Some q)
  with claims_named_leave(1) [OF assms(1)] show ?thesis by simp
qed

text \<open>The name goes only when nobody waits for the lock, and nobody else has the lock on that file.\<close>

lemma claims_named_remove:
  assumes "claims_named [] s" and "si_phase s p = About RemovePidFile i"
  shows "claims_named [] (effect RemovePidFile p i s)"
proof (rule claims_named_move [OF assms(1), where p = p])
  have at: "si_lock s i = Some p" "si_pid_file s = Some i" "i < si_files s"
    using claims_namedD(3) [OF assms] by auto
  then show "stands [] (effect RemovePidFile p i s) p" by (simp add: stands_def enter_def)
  fix q assume "q \<noteq> p" and "stands [] s q"
  then show "stands [] (effect RemovePidFile p i s) q"
    using at by (auto simp: stands_def enter_def split: phase.splits if_splits)
qed (simp add: enter_def)

lemma claims_named_mono: "claims_named ws s \<Longrightarrow> set ws \<subseteq> set ws' \<Longrightarrow> claims_named ws' s"
  by (auto simp: claims_named_def stands_def split: phase.splits if_splits)

lemma claims_named_gone:
  assumes "claims_named ws s"
  shows "claims_named ws (enter p Away s)" and "claims_named ws (enter p Away (unlock p i s))"
    and "claims_named ws (enter p Ready s)"
proof -
  have sub: "set (removeAll p ws) \<subseteq> set ws" by auto
  show gone: "claims_named ws (enter p Away s)"
    using claims_named_leave [OF assms] sub claims_named_mono by blast
  show "claims_named ws (enter p Away (unlock p i s))"
    using claims_named_leave [OF assms] sub claims_named_mono by blast
  show "claims_named ws (enter p Ready s)"
  proof (rule claims_named_move [OF gone, where p = p])
    fix q assume "q \<noteq> p" and "stands ws (enter p Away s) q"
    then show "stands ws (enter p Ready s) q"
      by (rule stands_others) (use \<open>q \<noteq> p\<close> in \<open>simp_all add: enter_def\<close>)
  qed (use claims_namedD(1) [OF assms] in \<open>simp_all add: enter_def stands_def\<close>)
qed

text \<open>Where a call that returns leads to, behind the lock.\<close>

definition onward :: "call \<Rightarrow> site \<Rightarrow> call" where
  "onward c s = (if c = BindSocket \<and> si_socket s \<noteq> None then RemovePidFile else next_call c)"

lemma effect_onward:
  assumes "c \<notin> {TryLock, Unlock}"
  shows "si_phase (effect c p i s) = (si_phase s)(p := About (onward c s) i)"
    and "onward c s \<noteq> TryLock" and "si_files (effect c p i s) = si_files s"
    and "si_lock (effect c p i s) = si_lock s"
    and "c \<noteq> RemovePidFile \<Longrightarrow> si_pid_file (effect c p i s) = si_pid_file s"
  using assms by (cases "(c, p, i, s)" rule: effect.cases; simp add: enter_def onward_def)+

lemma claims_named_effect:
  assumes "claims_named ws s" and "si_phase s p = About c i"
    and "c \<notin> {TryLock, RemovePidFile, Unlock}"
  shows "claims_named ws (effect c p i s)"
  by (rule claims_named_onward [OF assms(1,2), of "onward c s"])
    (use effect_onward [of c] assms(3) in simp_all)

lemma claims_named_failing:
  assumes "claims_named ws s" and "si_phase s p = About c i"
  shows "claims_named (if c = TryLock then removeAll p ws else ws) (failing c p i s)"
proof (cases "\<exists>step. c = Claim step \<or> c = TryLock \<or> c = Unlock")
  case True
  then show ?thesis
    using claims_named_gone [OF assms(1)] claims_named_leave [OF assms(1)] by auto
next
  case False
  then have "failing c p i s =
      enter p (About (if c = RemovePidFile then Unlock else RemovePidFile) i) s"
    by (cases c) auto
  with claims_named_onward [OF assms, of "if c = RemovePidFile then Unlock else RemovePidFile"] False
  show ?thesis by (auto simp: enter_def)
qed

lemma claims_named_step:
  assumes "claims_named ws s" and "si_step h s = Some s'" and "undisturbed ws (h # hs)"
  shows "\<exists>ws'. claims_named ws' s' \<and> undisturbed ws' hs"
proof (cases h)
  case (Dies p)
  with assms show ?thesis
    using claims_named_leave [OF assms(1), where p = p] by (auto split: phase.splits)
next
  case (Fails p c)
  then have "claims_named (if c = TryLock then removeAll p ws else ws) s'"
    using assms(1,2) claims_named_failing [OF assms(1), of p c] claims_named_gone [OF assms(1)]
    by (auto split: phase.splits if_splits)
  with Fails assms(3) show ?thesis by auto
next
  case (Returns p c)
  show ?thesis
  proof (cases "si_phase s p")
    case (About c' i)
    with Returns assms(2) have s': "s' = effect c p i s" and at: "si_phase s p = About c i"
      by (auto split: if_splits)
    consider "c = TryLock" | "c = RemovePidFile" | "c = Unlock" | "c \<notin> {TryLock, RemovePidFile, Unlock}"
      by auto
    then show ?thesis
    proof cases
      case 4
      then have "claims_named ws s'" and "claims_named (p # ws) s'"
        using claims_named_effect [OF assms(1) at] claims_named_mono [of ws s' "p # ws"] s' by auto
      with 4 Returns assms(3) show ?thesis by (auto split: if_splits)
    next
      case 1
      with Returns assms(3) s' claims_named_lock [OF assms(1), of p i] at show ?thesis by auto
    next
      case 2
      with Returns assms(1,3) s' claims_named_remove [of s p i] at show ?thesis by auto
    next
      case 3
      then have "claims_named ws s'" using s' claims_named_gone [OF assms(1)] by simp
      with 3 Returns assms(3) show ?thesis by auto
    qed
  next
    case Away
    with Returns assms(2) have "claims_named ws s'" "c = Claim StateDir"
      using claims_named_gone(3) [OF assms(1)] by (auto split: if_splits)
    with Returns assms(3) show ?thesis by auto
  next
    case Ready
    with Returns assms(2) have "claims_named (p # ws) s'" "c = Claim OpenPidFile"
      using claims_named_open [OF assms(1)] by (auto split: if_splits)
    with Returns assms(3) show ?thesis by auto
  qed
qed

lemma claims_exclusive:
  assumes "claims_named ws s" and "claims s p" and "claims s q"
  shows "p = q"
proof -
  obtain c i where c: "si_phase s p = About c i" "c \<noteq> TryLock" "c \<noteq> Unlock"
    using assms(2) by (auto simp: claims_def split: phase.splits)
  obtain d j where d: "si_phase s q = About d j" "d \<noteq> TryLock" "d \<noteq> Unlock"
    using assms(3) by (auto simp: claims_def split: phase.splits)
  show ?thesis
    using claims_namedD(3) [OF assms(1) c(1,2)] claims_namedD(3) [OF assms(1) d(1,2)] c(3) d(3)
    by auto
qed

subsection \<open>What a claimant can rely on\<close>

text \<open>
  From the moment it is written, the file of a claimant names it, and from the moment it is bound,
  the socket's name leads to it.
\<close>

definition marks :: "site \<Rightarrow> nat \<Rightarrow> bool" where
  "marks s p =
     (case si_phase s p of
        About c i \<Rightarrow>
          (c \<in> {Claim Flush, BindSocket, RestrictSocket, BindFrontends, StopSignal, ShutSocket} \<longrightarrow>
             si_contents s i = show_nat p @ [LF])
          \<and> (c \<in> {RestrictSocket, BindFrontends, StopSignal, ShutSocket} \<longrightarrow> si_socket s = Some p)
      | _ \<Rightarrow> True)"

lemma marks_unclaimed: "\<not> claims s p \<Longrightarrow> marks s p"
  by (auto simp: marks_def claims_def split: phase.splits)

fun actor :: "happening \<Rightarrow> nat" where
  "actor (Returns p c) = p"
| "actor (Fails p c) = p"
| "actor (Dies p) = p"

text \<open>A process that has no claim leaves the socket's name and the files of the others alone.\<close>

lemma outsider_step:
  assumes "si_step h s = Some s'" and "\<not> claims s (actor h)"
  shows "si_socket s' = si_socket s" and "i < si_files s \<Longrightarrow> si_contents s' i = si_contents s i"
proof -
  have "si_socket s' = si_socket s \<and> (i < si_files s \<longrightarrow> si_contents s' i = si_contents s i)"
  proof (cases h)
    case (Returns p c)
    then show ?thesis
      using assms
      by (cases "si_phase s p")
        (auto simp: claims_def enter_def unlock_def open_pid_file_def Let_def
          split: if_splits option.splits)
  next
    case (Fails p c)
    then show ?thesis
      using assms
      by (cases "si_phase s p"; cases c) (auto simp: enter_def unlock_def split: if_splits)
  next
    case (Dies p)
    then show ?thesis
      using assms by (cases "si_phase s p") (auto simp: enter_def unlock_def split: if_splits)
  qed
  then show "si_socket s' = si_socket s" "i < si_files s \<Longrightarrow> si_contents s' i = si_contents s i"
    by auto
qed

lemma effect_others: "q \<noteq> p \<Longrightarrow> si_phase (effect c p i s) q = si_phase s q"
  by (cases "(c, p, i, s)" rule: effect.cases) (auto simp: enter_def unlock_def)

lemma failing_others: "q \<noteq> p \<Longrightarrow> si_phase (failing c p i s) q = si_phase s q"
  by (cases c) (auto simp: enter_def unlock_def)

lemma step_others: "si_step h s = Some s' \<Longrightarrow> q \<noteq> actor h \<Longrightarrow> si_phase s' q = si_phase s q"
  by (cases h; cases "si_phase s (actor h)")
    (auto simp: enter_def unlock_def open_pid_file_def Let_def effect_others failing_others
      split: if_splits option.splits)

lemma marks_actor:
  assumes "\<forall>q. marks s q" and "si_step h s = Some s'"
  shows "marks s' (actor h)"
proof -
  have marks: "marks s (actor h)" using assms(1) by simp
  show ?thesis
  proof (cases h)
    case (Returns p c)
    show ?thesis
    proof (cases "si_phase s p")
      case (About c' i)
      with Returns assms(2) have "s' = effect c p i s" "c' = c" by (auto split: if_splits)
      with marks About Returns show ?thesis
        by (cases "(c, p, i, s)" rule: effect.cases) (auto simp: marks_def enter_def)
    qed (use assms(2) Returns in
        \<open>auto simp: marks_def enter_def open_pid_file_def Let_def split: if_splits option.splits\<close>)
  next
    case (Fails p c)
    show ?thesis
    proof (cases "si_phase s p")
      case (About c' i)
      with Fails assms(2) have "s' = failing c p i s" "c' = c" by (auto split: if_splits)
      with marks About Fails show ?thesis by (cases c) (auto simp: marks_def enter_def)
    qed (use assms(2) Fails in \<open>auto simp: marks_def enter_def split: if_splits\<close>)
  next
    case (Dies p)
    with assms(2) show ?thesis by (cases "si_phase s p") (auto simp: marks_def enter_def)
  qed
qed

lemma marks_step:
  assumes "claims_named ws s" and "\<forall>q. marks s q" and "si_step h s = Some s'"
  shows "marks s' q"
proof (cases "q = actor h")
  case True
  with marks_actor [OF assms(2,3)] show ?thesis by simp
next
  case False
  note same = step_others [OF assms(3) False]
  show ?thesis
  proof (cases "claims s q")
    case True
    then have outside: "\<not> claims s (actor h)" using claims_exclusive [OF assms(1)] False by blast
    from True obtain c i where at: "si_phase s q = About c i" "c \<noteq> TryLock"
      by (auto simp: claims_def split: phase.splits)
    then have "i < si_files s" using claims_namedD(3) [OF assms(1)] by blast
    then have "si_socket s' = si_socket s" "si_contents s' i = si_contents s i"
      using outsider_step [OF assms(3) outside] by auto
    with assms(2) [rule_format, of q] show ?thesis unfolding marks_def same at(1) by simp
  next
    case False
    with same have "\<not> claims s' q" by (simp add: claims_def)
    then show ?thesis by (rule marks_unclaimed)
  qed
qed

lemma undisturbed_run:
  assumes "claims_named ws s" and "\<forall>q. marks s q" and "undisturbed ws hs" and "si_run hs s = Some s'"
  shows "\<exists>ws'. claims_named ws' s' \<and> (\<forall>q. marks s' q)"
  using assms
proof (induction hs arbitrary: ws s)
  case (Cons h hs)
  then obtain t where t: "si_step h s = Some t" "si_run hs t = Some s'" by (auto split: option.splits)
  obtain ws' where "claims_named ws' t" "undisturbed ws' hs"
    using claims_named_step [OF Cons.prems(1) t(1) Cons.prems(3)] by blast
  then show ?case
    using Cons.IH [OF _ _ _ t(2)] marks_step [OF Cons.prems(1,2) t(1)] by blast
qed auto

lemma undisturbed_rest:
  "at_rest s \<Longrightarrow> undisturbed [] hs \<Longrightarrow> si_run hs s = Some s' \<Longrightarrow>
     \<exists>ws'. claims_named ws' s' \<and> (\<forall>q. marks s' q)"
  by (rule undisturbed_run [OF claims_named_rest]) (auto simp: marks_def at_rest_def)

text \<open>C20: one daemon at a time.  In every run of any number of processes, from a state in which none
  runs, in which no guard removes the pid file's name while another process is between opening that
  file and trying its lock, at most one process holds the claim, whatever fails and whoever dies; and
  a daemon that runs is the one the socket's name leads to, has its lock on the file the name stands
  for, and is the one a second start is told about.\<close>

theorem one_daemon_at_a_time:
  assumes "at_rest s" and "undisturbed [] hs" and "si_run hs s = Some s'"
  shows "(claims s' p \<and> claims s' q \<longrightarrow> p = q)
    \<and> (runs s' p \<longrightarrow> si_socket s' = Some p
        \<and> (\<exists>i. si_pid_file s' = Some i \<and> si_lock s' i = Some p
              \<and> (p \<le> u32_max \<longrightarrow> read_owner (si_contents s' i) = Known p)))"
proof -
  obtain ws where ws: "claims_named ws s'" "\<forall>q. marks s' q"
    using undisturbed_rest [OF assms] by blast
  have "si_socket s' = Some p \<and> (\<exists>i. si_pid_file s' = Some i \<and> si_lock s' i = Some p
      \<and> (p \<le> u32_max \<longrightarrow> read_owner (si_contents s' i) = Known p))" if "runs s' p"
  proof -
    from that obtain i where at: "si_phase s' p = About StopSignal i"
      by (auto simp: runs_def split: phase.splits)
    with ws(2) [rule_format, of p]
    have "si_socket s' = Some p" "si_contents s' i = show_nat p @ [LF]"
      by (simp_all add: marks_def)
    then show ?thesis using claims_namedD(3) [OF ws(1) at] read_owner_own [of p] by auto
  qed
  with claims_exclusive [OF ws(1)] show ?thesis by blast
qed

subsection \<open>When they can\<close>

text \<open>The calls of a process up to the claim, from the lock to a running daemon, and at its end.\<close>

definition starting :: "nat \<Rightarrow> happening list" where
  "starting p = map (Returns p)
     [TryLock, Claim RemoveSocket, Claim Truncate, Claim SeekStart, Claim WritePid, Claim Flush,
      BindSocket, RestrictSocket]"

definition opens :: "nat \<Rightarrow> happening list" where
  "opens p = map (Returns p) [Claim StateDir, Claim OpenPidFile]"

definition stopping :: "nat \<Rightarrow> happening list" where
  "stopping p = map (Returns p) [StopSignal, ShutSocket, RemovePidFile, Unlock]"

definition empty_site :: site where
  "empty_site =
     \<lparr> si_pid_file = None, si_contents = (\<lambda>_. []), si_lock = (\<lambda>_. None), si_files = 0,
       si_socket = None, si_phase = (\<lambda>_. Away) \<rparr>"

text \<open>A second start that comes between is refused, and the first goes on.\<close>

lemma one_daemon_at_a_time_witness:
  "\<exists>s. si_run (opens 1 @ starting 1 @ [Returns 1 BindFrontends] @ opens 2 @ [Returns 2 TryLock])
          empty_site = Some s
     \<and> runs s 1 \<and> si_phase s 2 = Away \<and> si_socket s = Some 1
     \<and> (\<exists>i. si_lock s i = Some 1 \<and> read_owner (si_contents s i) = Known 1)"
proof -
  let ?hs = "opens 1 @ starting 1 @ [Returns 1 BindFrontends] @ opens 2 @ [Returns 2 TryLock]"
  have rest: "at_rest empty_site" by (simp add: at_rest_def empty_site_def)
  have calm: "undisturbed [] ?hs" by (simp add: opens_def starting_def)
  obtain s where s: "si_run ?hs empty_site = Some s" "runs s 1" "si_phase s 2 = Away"
    by (simp add: starting_def opens_def empty_site_def enter_def open_pid_file_def Let_def runs_def)
  show ?thesis
    using one_daemon_at_a_time [OF rest calm s(1), of 1 1] s by (auto simp: u32_max_def)
qed

text \<open>
  Process 2 opens the pid file while daemon 1 runs, and tries its lock after daemon 1 removed the
  file and let the lock go: it claims a file that has no name any more.  Process 3 finds no file,
  makes a new one and claims that.  It takes the socket of daemon 2 away.
\<close>

definition overlap :: "happening list" where
  "overlap =
     opens 1 @ starting 1 @ [Returns 1 BindFrontends] @ opens 2 @ stopping 1
       @ starting 2 @ [Returns 2 BindFrontends] @ opens 3 @ starting 3"

lemma two_daemons_at_once:
  "\<exists>s. si_run (overlap @ [Returns 3 BindFrontends]) empty_site = Some s \<and> runs s 2 \<and> runs s 3"
  by (simp add: overlap_def starting_def opens_def stopping_def empty_site_def enter_def
      unlock_def open_pid_file_def Let_def runs_def)

text \<open>
  Where the third cannot bind the front ends because daemon 2 has the addresses, it gives up, and
  leaves a running daemon that no command reaches.
\<close>

lemma running_daemon_unreachable:
  "\<exists>s. si_run (overlap @ [Fails 3 BindFrontends, Returns 3 RemovePidFile, Returns 3 Unlock]) empty_site
        = Some s
     \<and> runs s 2 \<and> si_socket s = Some 3 \<and> si_phase s 3 = Away \<and> si_pid_file s = None"
  by (simp add: overlap_def starting_def opens_def stopping_def empty_site_def enter_def
      unlock_def open_pid_file_def Let_def runs_def)

subsection \<open>One process alone\<close>

text \<open>What theory Process keeps of the same state.\<close>

definition site_view :: "site \<Rightarrow> claim_state" where
  "site_view s =
     (case si_pid_file s of
        None \<Rightarrow> \<lparr> cl_locked = False, cl_content = [], cl_socket = si_socket s \<noteq> None \<rparr>
      | Some i \<Rightarrow>
          \<lparr> cl_locked = si_lock s i \<noteq> None, cl_content = si_contents s i,
             cl_socket = si_socket s \<noteq> None \<rparr>)"

text \<open>
  The calls of \<open>acquire\<close> one after another, each failing as \<open>io\<close> says; removing a socket that is not
  there does not fail.
\<close>

definition acquire_calls :: "call list" where
  "acquire_calls =
     [Claim StateDir, Claim OpenPidFile, TryLock, Claim RemoveSocket, Claim Truncate,
      Claim SeekStart, Claim WritePid, Claim Flush]"

definition call_fails :: "(claim_step \<Rightarrow> io_error option) \<Rightarrow> call \<Rightarrow> site \<Rightarrow> bool" where
  "call_fails io c s =
     (case c of
        Claim step \<Rightarrow>
          (case io step of
             None \<Rightarrow> False
           | Some failure \<Rightarrow>
               step \<noteq> RemoveSocket \<or> si_socket s \<noteq> None \<and> ie_kind failure \<noteq> FileNotFound)
      | _ \<Rightarrow> False)"

fun attempt :: "(claim_step \<Rightarrow> io_error option) \<Rightarrow> nat \<Rightarrow> call list \<Rightarrow> site \<Rightarrow> site" where
  "attempt io p [] s = s"
| "attempt io p (c # cs) s =
     (case si_step (if call_fails io c s then Fails p c else Returns p c) s of
        None \<Rightarrow> s
      | Some s \<Rightarrow> attempt io p cs s)"

text \<open>A process that nobody interrupts does what \<open>acquire\<close> of theory Process does.\<close>

lemma attempt_stuck [simp]:
  "si_phase s p = Away \<Longrightarrow> c \<noteq> Claim StateDir \<Longrightarrow> attempt io p (c # cs) s = s"
  by simp

text \<open>The part of \<open>acquire\<close> behind the lock.\<close>

definition acquire_rest :: "(claim_step \<Rightarrow> io_error option) \<Rightarrow> nat \<Rightarrow> claim_state \<Rightarrow> claim_state" where
  "acquire_rest io pid cl =
     (if cl_socket cl \<and> (\<exists>f. io RemoveSocket = Some f \<and> ie_kind f \<noteq> FileNotFound) then cl
      else if io Truncate \<noteq> None then cl\<lparr> cl_socket := False \<rparr>
      else if io SeekStart \<noteq> None \<or> io WritePid \<noteq> None then cl\<lparr> cl_socket := False, cl_content := [] \<rparr>
      else cl\<lparr> cl_socket := False, cl_content := show_nat pid @ [LF], cl_locked := io Flush = None \<rparr>)"

lemma acquire_eq:
  "fst (acquire io pid cl) =
     (if io StateDir \<noteq> None \<or> io OpenPidFile \<noteq> None \<or> cl_locked cl then cl
      else acquire_rest io pid cl)"
  "snd (acquire io pid cl) = Ok () \<longleftrightarrow>
     io StateDir = None \<and> io OpenPidFile = None \<and> \<not> cl_locked cl
       \<and> cl_locked (acquire_rest io pid cl)"
  by (auto simp: acquire_def acquire_rest_def step_io_def remove_if_present_def Let_def
      split: option.split)

lemma attempt_locked:
  assumes "si_phase s p = About (Claim RemoveSocket) i" and "si_pid_file s = Some i"
    and "si_lock s i = Some p"
  shows "site_view (attempt io p (drop 3 acquire_calls) s)
      = acquire_rest io p ((site_view s)\<lparr> cl_locked := False \<rparr>)"
    and "(\<exists>j. si_phase (attempt io p (drop 3 acquire_calls) s) p = About BindSocket j)
      = cl_locked (acquire_rest io p ((site_view s)\<lparr> cl_locked := False \<rparr>))"
proof -
  consider f where "io Truncate = Some f" | f where "io Truncate = None" "io SeekStart = Some f"
    | f where "io Truncate = None" "io SeekStart = None" "io WritePid = Some f"
    | f where "io Truncate = None" "io SeekStart = None" "io WritePid = None" "io Flush = Some f"
    | "io Truncate = None" "io SeekStart = None" "io WritePid = None" "io Flush = None"
    by (meson option.exhaust)
  then have "site_view (attempt io p (drop 3 acquire_calls) s)
      = acquire_rest io p ((site_view s)\<lparr> cl_locked := False \<rparr>)
    \<and> (\<exists>j. si_phase (attempt io p (drop 3 acquire_calls) s) p = About BindSocket j)
      = cl_locked (acquire_rest io p ((site_view s)\<lparr> cl_locked := False \<rparr>))"
    by cases
      (cases "io RemoveSocket"; simp add: assms acquire_calls_def call_fails_def site_view_def
        acquire_rest_def enter_def unlock_def)+
  then show "site_view (attempt io p (drop 3 acquire_calls) s)
      = acquire_rest io p ((site_view s)\<lparr> cl_locked := False \<rparr>)"
    and "(\<exists>j. si_phase (attempt io p (drop 3 acquire_calls) s) p = About BindSocket j)
      = cl_locked (acquire_rest io p ((site_view s)\<lparr> cl_locked := False \<rparr>))"
    by auto
qed

lemma acquire_calls_eq:
  "acquire_calls = Claim StateDir # Claim OpenPidFile # TryLock # drop 3 acquire_calls"
  by (simp add: acquire_calls_def)

lemma attempt_refused [simp]: "si_phase s p = Away \<Longrightarrow> attempt io p (drop 3 acquire_calls) s = s"
  by (simp add: acquire_calls_def)

theorem attempt_is_acquire:
  assumes "si_phase s p = Away" and "si_lock s (si_files s) = None"
  shows "site_view (attempt io p acquire_calls s) = fst (acquire io p (site_view s))
    \<and> ((\<exists>i. si_phase (attempt io p acquire_calls s) p = About BindSocket i)
          = (snd (acquire io p (site_view s)) = Ok ()))"
proof (cases "io StateDir = None \<and> io OpenPidFile = None \<and> \<not> cl_locked (site_view s)")
  case False
  then show ?thesis
    by (subst (1 2) acquire_calls_eq)
      (auto simp: acquire_eq call_fails_def open_pid_file_def enter_def site_view_def Let_def assms
        split: option.splits)
next
  case True
  define i where "i = (case si_pid_file s of None \<Rightarrow> si_files s | Some i \<Rightarrow> i)"
  define t where "t = effect TryLock p i (open_pid_file p (enter p Ready s))"
  have free: "si_lock s i = None" using True assms(2) by (auto simp: i_def site_view_def split: option.splits)
  then have t: "si_phase t p = About (Claim RemoveSocket) i" "si_pid_file t = Some i"
    "si_lock t i = Some p" "(site_view t)\<lparr> cl_locked := False \<rparr> = site_view s"
    by (auto simp: t_def i_def open_pid_file_def enter_def site_view_def Let_def split: option.splits)
  have at: "si_phase (open_pid_file p (enter p Ready s)) p = About TryLock i"
    by (simp add: i_def open_pid_file_def enter_def Let_def split: option.split)
  have ready: "si_phase (enter p Ready s) p = Ready" by (simp add: enter_def)
  have "attempt io p acquire_calls s = attempt io p (drop 3 acquire_calls) t"
    by (subst acquire_calls_eq)
      (simp add: call_fails_def True assms at ready t_def del: effect.simps)
  with attempt_locked [OF t(1-3), of io] True t(4) show ?thesis by (simp add: acquire_eq)
qed

end
