(* ===== verification/Rounds.thy ===== *)
theory Rounds
  imports World
begin

section \<open>Every round of the patrol ends\<close>

text \<open>
  The patrol waits for the probes of a round, one at a time, before it waits for the next; dials and
  reloads go on meanwhile.  A run is an endless sequence of steps of theory World.  Each probe has a
  time limit, so a round in progress moves on again and again; that is all that is assumed of it.
\<close>

text \<open>The patrol takes a step: the next probe comes back, or with none left the round is closed.\<close>

definition patrol_moves :: "world \<Rightarrow> world \<Rightarrow> bool" where
  "patrol_moves w w' \<longleftrightarrow>
     (\<exists>r. w_round w = Some r \<and>
        ((\<exists>i seen. i < length (rd_out r) \<and> w' = do_probe w r i seen)
         \<or> rd_out r = [] \<and> w' = do_round_end w r))"

definition endless :: "(nat \<Rightarrow> world) \<Rightarrow> bool" where
  "endless run \<longleftrightarrow> (\<forall>k. world_step (run k) (run (Suc k)))"

definition probes_return :: "(nat \<Rightarrow> world) \<Rightarrow> bool" where
  "probes_return run \<longleftrightarrow>
     (\<forall>k. w_round (run k) \<noteq> None \<longrightarrow> (\<exists>m \<ge> k. patrol_moves (run m) (run (Suc m))))"

text \<open>What a step does to a round: nothing, or it takes one probe off it, or closes it.\<close>

lemma do_probe_round:
  assumes "i < length (rd_out r)"
  obtains r' where "w_round (do_probe w r i seen) = Some r'" "rd_started r' = rd_started r"
    "length (rd_out r) = Suc (length (rd_out r'))" "set (rd_out r') \<subseteq> set (rd_out r)"
proof -
  obtain r' where r': "w_round (do_probe w r i seen) = Some r'" "rd_started r' = rd_started r"
      "rd_out r' = take i (rd_out r) @ drop (Suc i) (rd_out r)"
    by (cases seen) (simp_all add: do_probe_eq Let_def)
  moreover have "length (rd_out r) = Suc (length (rd_out r'))"
    unfolding r'(3) using assms by simp
  moreover have "set (rd_out r') \<subseteq> set (rd_out r)"
    unfolding r'(3) by (auto dest: in_set_takeD in_set_dropD)
  ultimately show thesis using that by blast
qed

lemma do_round_end_round: "w_round (do_round_end w r) = None"
  by (simp add: do_round_end_def routed_select_eq Let_def)

lemma patrol_moves_round:
  assumes "patrol_moves w w'" and "w_round w = Some r"
  shows "rd_out r = [] \<and> w_round w' = None \<or>
    (\<exists>r'. w_round w' = Some r' \<and> rd_started r' = rd_started r
       \<and> length (rd_out r) = Suc (length (rd_out r')) \<and> set (rd_out r') \<subseteq> set (rd_out r))"
  using assms by (auto simp: patrol_moves_def do_round_end_round elim: do_probe_round)

lemma other_step_round:
  assumes "world_step w w'" and "\<not> patrol_moves w w'" and "w_round w = Some r"
  shows "w_round w' = Some r"
  using assms
proof cases
  case (dial c)
  with assms(3) show ?thesis by (simp add: do_dial_def routed_select_eq Let_def)
next
  case (answer i res)
  with assms(3) show ?thesis by (simp add: do_answer_eq split: option.split)
qed (use assms in \<open>auto simp: patrol_moves_def do_publish_def Let_def split: prod.splits\<close>)

lemma round_stays:
  assumes "endless run" and "w_round (run k) = Some r"
    and "\<And>j. k \<le> j \<Longrightarrow> j < m \<Longrightarrow> \<not> patrol_moves (run j) (run (Suc j))"
  shows "k \<le> j \<Longrightarrow> j \<le> m \<Longrightarrow> w_round (run j) = Some r"
proof (induction j rule: dec_induct)
  case (step j)
  then show ?case
    using other_step_round [of "run j" "run (Suc j)" r] assms(1,3) by (simp add: endless_def)
qed (rule assms(2))

text \<open>The first step the patrol takes from a place on.\<close>

lemma next_move:
  assumes "endless run" and "probes_return run" and "w_round (run k) = Some r"
  obtains m where "k \<le> m" "patrol_moves (run m) (run (Suc m))" "w_round (run m) = Some r"
    and "\<And>j. k \<le> j \<Longrightarrow> j < m \<Longrightarrow> \<not> patrol_moves (run j) (run (Suc j)) \<and> w_round (run j) = Some r"
proof -
  let ?P = "\<lambda>m. k \<le> m \<and> patrol_moves (run m) (run (Suc m))"
  have "\<exists>m. ?P m" using assms(2,3) by (auto simp: probes_return_def)
  then have least: "?P (Least ?P)" by (rule LeastI_ex)
  have still: "\<not> patrol_moves (run j) (run (Suc j))" if "k \<le> j" "j < Least ?P" for j
    using not_less_Least [OF that(2)] that(1) by blast
  have "w_round (run j) = Some r" if "k \<le> j" "j \<le> Least ?P" for j
    by (rule round_stays [OF assms(1,3) still that])
  with least still show thesis by (intro that [of "Least ?P"]) auto
qed

definition moves_between :: "(nat \<Rightarrow> world) \<Rightarrow> nat \<Rightarrow> nat \<Rightarrow> nat set" where
  "moves_between run k m = {j. k \<le> j \<and> j < m \<and> patrol_moves (run j) (run (Suc j))}"

lemma moves_between_first:
  assumes "k \<le> m" and "m < m'" and "patrol_moves (run m) (run (Suc m))"
    and "\<And>j. k \<le> j \<Longrightarrow> j < m \<Longrightarrow> \<not> patrol_moves (run j) (run (Suc j))"
  shows "card (moves_between run k m') = Suc (card (moves_between run (Suc m) m'))"
proof -
  have "moves_between run k m' = insert m (moves_between run (Suc m) m')"
    unfolding moves_between_def using assms by (auto simp: Suc_le_eq) (meson linorder_neqE_nat)
  moreover have "finite (moves_between run (Suc m) m')" by (simp add: moves_between_def)
  ultimately show ?thesis by (simp add: moves_between_def)
qed

subsection \<open>Properties\<close>

text \<open>C10: every round of the patrol ends.  Whatever dials, answers, reloads and clock ticks come between,
  a round started with so many probes out is closed after exactly that many probes have come back
  and one last step; until then it is the same round, started at the same instant, waiting only for
  entries it set out with, so neither a reload nor a slow probe ever makes it start over or grow.\<close>

theorem every_round_ends:
  assumes "endless run" and "probes_return run" and "w_round (run k) = Some r"
  shows "\<exists>m > k. w_round (run m) = None
    \<and> card (moves_between run k m) = Suc (length (rd_out r))
    \<and> (\<forall>j. k \<le> j \<and> j < m \<longrightarrow>
         (\<exists>r'. w_round (run j) = Some r' \<and> rd_started r' = rd_started r
            \<and> set (rd_out r') \<subseteq> set (rd_out r)))"
  using assms(3)
proof (induction "length (rd_out r)" arbitrary: k r)
  case 0
  obtain m where m: "k \<le> m" "patrol_moves (run m) (run (Suc m))" "w_round (run m) = Some r"
    and before: "\<And>j. k \<le> j \<Longrightarrow> j < m \<Longrightarrow> \<not> patrol_moves (run j) (run (Suc j)) \<and> w_round (run j) = Some r"
    using next_move [OF assms(1,2) 0(2)] by blast
  have over: "w_round (run (Suc m)) = None" using patrol_moves_round [OF m(2,3)] 0(1) by auto
  have "card (moves_between run k (Suc m)) = Suc 0"
    using moves_between_first [of k m "Suc m" run] m(1,2) before by (simp add: moves_between_def)
  moreover have "\<forall>j. k \<le> j \<and> j < Suc m \<longrightarrow> w_round (run j) = Some r"
    using before m(3) by (auto simp: less_Suc_eq)
  ultimately show ?case using over m(1) 0(1) by (intro exI [of _ "Suc m"]) auto
next
  case (Suc n)
  obtain m where m: "k \<le> m" "patrol_moves (run m) (run (Suc m))" "w_round (run m) = Some r"
    and before: "\<And>j. k \<le> j \<Longrightarrow> j < m \<Longrightarrow> \<not> patrol_moves (run j) (run (Suc j)) \<and> w_round (run j) = Some r"
    using next_move [OF assms(1,2) Suc(3)] by blast
  obtain r1 where r1: "w_round (run (Suc m)) = Some r1" "rd_started r1 = rd_started r"
      "n = length (rd_out r1)" "set (rd_out r1) \<subseteq> set (rd_out r)"
    using patrol_moves_round [OF m(2,3)] Suc(2) by auto
  obtain m' where m': "Suc m < m'" "w_round (run m') = None"
      "card (moves_between run (Suc m) m') = Suc n"
    and after: "\<And>j. Suc m \<le> j \<Longrightarrow> j < m' \<Longrightarrow>
         \<exists>r'. w_round (run j) = Some r' \<and> rd_started r' = rd_started r1 \<and> set (rd_out r') \<subseteq> set (rd_out r1)"
    using Suc(1) [OF r1(3,1)] r1(3) by auto
  have "card (moves_between run k m') = Suc (Suc n)"
    using moves_between_first [of k m m' run] m(1,2) m'(1,3) before by simp
  moreover have "\<exists>r'. w_round (run j) = Some r' \<and> rd_started r' = rd_started r \<and> set (rd_out r') \<subseteq> set (rd_out r)"
    if "k \<le> j" "j < m'" for j
  proof (cases "j \<le> m")
    case True
    then have "w_round (run j) = Some r" using before [OF that(1)] m(3) by (cases "j = m") auto
    then show ?thesis by simp
  next
    case False
    with after [of j] that(2) r1(2,4) show ?thesis by fastforce
  qed
  ultimately show ?case using m(1) m'(1,2) Suc(2) by (intro exI [of _ m']) auto
qed

text \<open>The first round of the example of theory World, after which nothing but the clock moves.\<close>

definition cold_round :: world where
  "cold_round = do_round (do_publish (world_start 0 RETURN_HOLD) [example_upstream 10, example_upstream 11])"

definition cold_run :: "nat \<Rightarrow> world" where
  "cold_run k =
     (if k = 0 then cold_round
      else if k = 1 then run_probe cold_round 1 (Some Up)
      else if k = 2 then run_probe (run_probe cold_round 1 (Some Up)) 0 (Some Down)
      else run_cold_start)"

lemma run_probe_moves:
  "(case w_round w of None \<Rightarrow> False | Some r \<Rightarrow> i < length (rd_out r)) \<Longrightarrow>
     patrol_moves w (run_probe w i seen)"
  by (auto simp: run_probe_def patrol_moves_def split: option.splits)

lemma run_round_end_moves:
  "(case w_round w of None \<Rightarrow> False | Some r \<Rightarrow> rd_out r = []) \<Longrightarrow> patrol_moves w (run_round_end w)"
  by (auto simp: run_round_end_def patrol_moves_def split: option.splits)

theorem every_round_ends_witness: "\<exists>m > 0. w_round (cold_run m) = None \<and> card (moves_between cold_run 0 m) = 3"
proof -
  have last: "run_cold_start = run_round_end (run_probe (run_probe cold_round 1 (Some Up)) 0 (Some Down))"
    by (simp add: run_cold_start_def cold_round_def Let_def)
  have two: "map_option (\<lambda>r. length (rd_out r)) (w_round cold_round) = Some 2" by code_simp
  then obtain r where r: "w_round (cold_run 0) = Some r" "length (rd_out r) = 2"
    by (auto simp: cold_run_def)
  have idle: "world_step run_cold_start run_cold_start"
    using world_step.tick [of run_cold_start "w_now run_cold_start"] by simp
  have steps: "world_step cold_round (run_probe cold_round 1 (Some Up))"
    "world_step (run_probe cold_round 1 (Some Up)) (run_probe (run_probe cold_round 1 (Some Up)) 0 (Some Down))"
    "world_step (run_probe (run_probe cold_round 1 (Some Up)) 0 (Some Down)) run_cold_start"
    unfolding last by ((rule run_probe_step | rule run_round_end_step), code_simp)+
  have moves: "patrol_moves cold_round (run_probe cold_round 1 (Some Up))"
    "patrol_moves (run_probe cold_round 1 (Some Up)) (run_probe (run_probe cold_round 1 (Some Up)) 0 (Some Down))"
    "patrol_moves (run_probe (run_probe cold_round 1 (Some Up)) 0 (Some Down)) run_cold_start"
    unfolding last by ((rule run_probe_moves | rule run_round_end_moves), code_simp)+
  have over: "w_round run_cold_start = None" by code_simp
  have "endless cold_run"
    unfolding endless_def using steps idle by (simp add: cold_run_def)
  moreover have "probes_return cold_run"
    unfolding probes_return_def
  proof (intro allI impI)
    fix k assume "w_round (cold_run k) \<noteq> None"
    then have "k < 3" using over by (cases "k < 3") (simp_all add: cold_run_def)
    then have "patrol_moves (cold_run k) (cold_run (Suc k))"
      using moves by (auto simp: cold_run_def numeral_eq_Suc less_Suc_eq)
    then show "\<exists>m \<ge> k. patrol_moves (cold_run m) (cold_run (Suc m))" by blast
  qed
  ultimately show ?thesis using every_round_ends [of cold_run 0 r] r by auto
qed

end
