(* ===== verification/Addresses.thy ===== *)
theory Addresses
  imports Net
begin

section \<open>Every address reads back from its own text\<close>

text \<open>
  The printer of an IPv6 address leaves out its longest run of zero groups and writes an address
  that maps an IPv4 one in dotted form; the reader fills the run in again.  Here every IP address
  and every socket address, scope included, is read back from the text written for it.
\<close>

subsection \<open>Groups\<close>

lemma hex_digit_hex_char: "n < 16 \<Longrightarrow> hex_digit (hex_char n) = Some n"
  by (simp add: hex_digit_def hex_char_def Let_def)

lemma show_hex_ne [simp]: "show_hex n \<noteq> []"
  by (subst show_hex.simps) simp

lemma digits_value_show_hex: "digits_value hex_digit 16 0 (show_hex n) = Some n"
proof (induction n rule: show_hex.induct)
  case (1 n)
  then show ?case
    by (cases "n < 16"; subst show_hex.simps) (simp_all add: digits_value_append hex_digit_hex_char)
qed

lemma show_hex_digits: "\<forall>c \<in> set (show_hex n). hex_digit c \<noteq> None"
proof (induction n rule: show_hex.induct)
  case (1 n)
  then show ?case
    by (cases "n < 16"; subst show_hex.simps) (auto simp: hex_digit_hex_char)
qed

lemma show_hex_length: "n < 65536 \<Longrightarrow> length (show_hex n) \<le> 4"
  by (subst show_hex.simps, subst show_hex.simps, subst show_hex.simps, subst show_hex.simps) auto

lemma read_group_show: "stops hex_digit r \<Longrightarrow> read_group (show_hex (unat g) @ r) = Some (g, r)"
proof -
  assume r: "stops hex_digit r"
  have "length (show_hex (unat g)) \<le> 4" using unat_u16 [of g] by (intro show_hex_length)
  moreover have "unat g \<le> 65535" using unat_u16 [of g] by simp
  ultimately show ?thesis
    unfolding read_group_def read_number_def Let_def stops_takeWhile [OF show_hex_digits r]
    by (simp add: digits_value_show_hex)
qed

text \<open>A group is no start of a dotted address unless a dot follows its digits.\<close>

lemma dot_octet_needs_dot: "(case s of [] \<Rightarrow> True | c # _ \<Rightarrow> c \<noteq> CHR ''.'') \<Longrightarrow> read_dot_octet s = None"
  by (auto simp: read_dot_octet_def read_given_char_def split: list.splits)

lemma read_octet_rest:
  "read_octet s = Some (a, r) \<Longrightarrow> r = dropWhile (\<lambda>c. dec_digit c \<noteq> None) s"
  by (auto simp: read_octet_def read_number_def Let_def split: if_splits option.splits bind_splits)

lemma read_ipv4_no_dot:
  assumes "case dropWhile (\<lambda>c. dec_digit c \<noteq> None) s of [] \<Rightarrow> True | c # _ \<Rightarrow> c \<noteq> CHR ''.''"
  shows "read_ipv4 s = None"
proof (cases "read_octet s")
  case (Some ar)
  then obtain a r where "read_octet s = Some (a, r)" by (cases ar) auto
  with read_octet_rest [OF this] assms show ?thesis
    by (simp add: read_ipv4_def dot_octet_needs_dot)
qed (simp add: read_ipv4_def)

definition undotted :: "string \<Rightarrow> bool" where
  "undotted r \<longleftrightarrow> stops hex_digit r \<and> (case r of [] \<Rightarrow> True | c # _ \<Rightarrow> c \<noteq> CHR ''.'')"

lemma dec_is_hex: "hex_digit c = None \<Longrightarrow> dec_digit c = None"
  by (auto simp: dec_digit_def hex_digit_def Let_def split: if_splits)

lemma stops_dropWhile: "stops hex_digit r \<Longrightarrow> dropWhile (\<lambda>c. dec_digit c \<noteq> None) r = r"
  by (cases r) (auto simp: stops_def dest: dec_is_hex)

lemma read_ipv4_group:
  assumes "undotted r"
  shows "read_ipv4 (show_hex n @ r) = None"
proof (rule read_ipv4_no_dot)
  let ?dec = "\<lambda>c. dec_digit c \<noteq> None"
  show "case dropWhile ?dec (show_hex n @ r) of [] \<Rightarrow> True | c # _ \<Rightarrow> c \<noteq> CHR ''.''"
  proof (cases "\<forall>c \<in> set (show_hex n). ?dec c")
    case True
    then have "dropWhile ?dec (show_hex n @ r) = dropWhile ?dec r" by (simp add: dropWhile_append)
    moreover have "dropWhile ?dec r = r"
      using assms by (intro stops_dropWhile) (simp add: undotted_def)
    ultimately show ?thesis using assms by (simp add: undotted_def)
  next
    case False
    then have "dropWhile ?dec (show_hex n @ r) = dropWhile ?dec (show_hex n) @ r"
      and ne: "dropWhile ?dec (show_hex n) \<noteq> []"
      by (auto simp: dropWhile_append dropWhile_eq_Nil_conv)
    moreover have "hex_digit (hd (dropWhile ?dec (show_hex n))) \<noteq> None"
      using ne show_hex_digits [of n] by (metis hd_in_set set_dropWhileD)
    moreover have "hex_digit (CHR ''.'') = None" by (simp add: hex_digit_def)
    ultimately show ?thesis by (cases "dropWhile ?dec (show_hex n)") auto
  qed
qed

subsection \<open>Runs of groups\<close>

text \<open>Where a run of groups ends: no digit, no dot, and no colon that a group follows.\<close>

definition ends_groups :: "string \<Rightarrow> bool" where
  "ends_groups r \<longleftrightarrow>
     (case r of
        [] \<Rightarrow> True
      | c # s \<Rightarrow> hex_digit c = None \<and> c \<noteq> CHR ''.'' \<and> (c = CHR '':'' \<longrightarrow> (case s of [] \<Rightarrow> True | d # _ \<Rightarrow> d = CHR '':'')))"

lemma ends_undotted: "ends_groups r \<Longrightarrow> undotted r"
  by (auto simp: ends_groups_def undotted_def stops_def split: list.splits)

lemma read_group_none: "stops hex_digit s \<Longrightarrow> read_group s = None"
  by (auto simp: read_group_def read_number_def stops_def Let_def split: list.splits)

lemma read_ipv4_none: "undotted s \<Longrightarrow> read_ipv4 s = None"
  using stops_dropWhile [of s] by (intro read_ipv4_no_dot) (simp add: undotted_def)

lemma read_groups_end: "ends_groups r \<Longrightarrow> read_groups i n r = ([], False, r)"
proof (cases n)
  case (Suc m)
  assume r: "ends_groups r"
  have colon: "undotted (CHR '':'' # s)" for s by (simp add: undotted_def stops_def hex_digit_def)
  have "read_separator i read_ipv4 r = None \<and> read_separator i read_group r = None"
  proof (cases r)
    case Nil
    then show ?thesis
      using read_ipv4_none [of "[]"] read_group_none [of "[]"]
      by (simp add: read_separator_def read_given_char_def undotted_def stops_def)
  next
    case (Cons c s)
    show ?thesis
    proof (cases "0 < i \<and> c = CHR '':''")
      case True
      with r Cons have "undotted s" using colon by (cases s) (auto simp: ends_groups_def undotted_def stops_def)
      with True Cons show ?thesis
        using read_ipv4_none [of s] read_group_none [of s]
        by (simp add: read_separator_def read_given_char_def undotted_def)
    next
      case False
      with r Cons show ?thesis
        using read_ipv4_none [of r] read_group_none [of r] ends_undotted [OF r]
        by (auto simp: read_separator_def read_given_char_def undotted_def)
    qed
  qed
  with Suc show ?thesis by simp
qed simp

text \<open>The text of a run where it goes on after another: each group behind a colon.\<close>

fun more_groups :: "u16 list \<Rightarrow> string" where
  "more_groups [] = []"
| "more_groups (g # gs) = CHR '':'' # show_hex (unat g) @ more_groups gs"

lemma show_groups_more: "show_groups (g # gs) = show_hex (unat g) @ more_groups gs"
  by (induction gs arbitrary: g) simp_all

lemma more_undotted: "ends_groups r \<Longrightarrow> undotted (more_groups gs @ r)"
  using ends_undotted [of r] by (cases gs) (simp_all add: undotted_def stops_def hex_digit_def)

lemma read_groups_more:
  assumes "ends_groups r" and "0 < i" and "length gs \<le> n"
  shows "read_groups i n (more_groups gs @ r) = (gs, False, r)"
  using assms(2,3)
proof (induction gs arbitrary: i n)
  case Nil
  then show ?case using read_groups_end [OF assms(1)] by simp
next
  case (Cons g gs)
  then obtain m where n: "n = Suc m" by (cases n) auto
  note after = more_undotted [OF assms(1), of gs]
  have "read_separator i read_ipv4 (more_groups (g # gs) @ r) = None"
    and "read_separator i read_group (more_groups (g # gs) @ r) = Some (g, more_groups gs @ r)"
    using Cons.prems(1) after read_group_show [of "more_groups gs @ r" g] read_ipv4_group [OF after]
    by (simp_all add: read_separator_def read_given_char_def undotted_def)
  moreover have "read_groups (Suc i) m (more_groups gs @ r) = (gs, False, r)"
    using Cons n by simp
  ultimately show ?case by (cases m) (simp_all add: n)
qed

lemma read_groups_show:
  assumes "ends_groups r" and "length gs \<le> n"
  shows "read_groups 0 n (show_groups gs @ r) = (gs, False, r)"
proof (cases gs)
  case Nil
  then show ?thesis using read_groups_end [OF assms(1)] by simp
next
  case (Cons g rest)
  with assms(2) obtain m where n: "n = Suc m" by (cases n) auto
  note after = more_undotted [OF assms(1), of rest]
  have "read_groups (Suc 0) m (more_groups rest @ r) = (rest, False, r)"
    using Cons assms(2) n by (intro read_groups_more [OF assms(1)]) simp_all
  moreover have "read_separator 0 read_ipv4 (show_groups gs @ r) = None"
    and "read_separator 0 read_group (show_groups gs @ r) = Some (g, more_groups rest @ r)"
    using after read_group_show [of "more_groups rest @ r" g] read_ipv4_group [OF after]
    by (simp_all add: read_separator_def Cons show_groups_more undotted_def)
  ultimately show ?thesis by (cases m) (simp_all add: n Cons del: show_groups.simps)
qed

subsection \<open>The longest run of zero groups\<close>

definition zero_at :: "u16 list \<Rightarrow> nat \<times> nat \<Rightarrow> bool" where
  "zero_at gs run \<longleftrightarrow>
     fst run + snd run \<le> length gs \<and> (\<forall>k < snd run. gs ! (fst run + k) = 0)"

lemma zero_at_append: "zero_at xs run \<Longrightarrow> zero_at (xs @ ys) run"
  by (auto simp: zero_at_def nth_append)

lemma zero_at_grow:
  assumes "zero_at xs current" and "snd current = 0 \<or> fst current + snd current = length xs"
  shows "zero_at (xs @ [0]) (if snd current = 0 then (length xs, 1) else (fst current, Suc (snd current)))"
  using assms by (auto simp: zero_at_def nth_append less_Suc_eq)

lemma zero_run_zero_at:
  assumes "zero_at xs longest" and "zero_at xs current"
    and "snd current = 0 \<or> fst current + snd current = length xs"
  shows "zero_at (xs @ gs) (zero_run (length xs) longest current gs)"
  using assms
proof (induction gs arbitrary: xs longest current)
  case Nil
  then show ?case by simp
next
  case (Cons g gs)
  define grown where "grown = (if snd current = 0 then (length xs, 1) else (fst current, Suc (snd current)))"
  have len: "length (xs @ [g]) = Suc (length xs)" by simp
  show ?case
  proof (cases "g = 0")
    case True
    have grown: "zero_at (xs @ [g]) grown"
      using zero_at_grow [OF Cons.prems(2,3)] True by (simp add: grown_def)
    have top: "fst grown + snd grown = length (xs @ [g])"
      using Cons.prems(3) by (auto simp: grown_def)
    have "zero_at (xs @ [g]) (if snd longest < snd grown then grown else longest)"
      using grown zero_at_append [OF Cons.prems(1)] by simp
    note whole = Cons.IH [OF this grown disjI2 [OF top]]
    have "zero_run (length xs) longest current (g # gs) =
        zero_run (length (xs @ [g])) (if snd longest < snd grown then grown else longest) grown gs"
      using True by (simp add: grown_def Let_def)
    with whole show ?thesis by simp
  next
    case False
    have "zero_at (xs @ [g]) (0, 0)" by (simp add: zero_at_def)
    with Cons.IH [of "xs @ [g]" longest "(0, 0)"] zero_at_append [OF Cons.prems(1)] False
    show ?thesis by simp
  qed
qed

lemma zeroes_zero_at: "zero_at gs (zeroes gs)"
  using zero_run_zero_at [of "[]" "(0, 0)" "(0, 0)" gs] by (simp add: zeroes_def zero_at_def)

lemma zeroes_parts:
  assumes "zeroes gs = (start, len)"
  shows "gs = take start gs @ replicate len 0 @ drop (start + len) gs" and "start + len \<le> length gs"
proof -
  from zeroes_zero_at [of gs] assms have bound: "start + len \<le> length gs"
    and zero: "\<forall>k < len. gs ! (start + k) = 0" by (simp_all add: zero_at_def)
  have "take len (drop start gs) = replicate len 0"
    using bound zero by (intro nth_equalityI) auto
  then show "gs = take start gs @ replicate len 0 @ drop (start + len) gs"
    by (metis add.commute append_take_drop_id drop_drop)
  show "start + len \<le> length gs" by (fact bound)
qed

subsection \<open>Addresses\<close>

text \<open>What may follow an IPv6 address in a longer text.\<close>

definition ends_ip :: "string \<Rightarrow> bool" where
  "ends_ip r \<longleftrightarrow> (case r of [] \<Rightarrow> True | c # _ \<Rightarrow> hex_digit c = None \<and> c \<noteq> CHR ''.'' \<and> c \<noteq> CHR '':'')"

lemma ends_ip_groups: "ends_ip r \<Longrightarrow> ends_groups r" "ends_groups (CHR '':'' # CHR '':'' # r)"
  by (auto simp: ends_ip_def ends_groups_def hex_digit_def split: list.splits)

lemma read_ipv6_groups:
  assumes "ends_ip r"
  shows "read_ipv6 (show_groups (segments a) @ r) = Some (a, r)"
  using read_groups_show [OF ends_ip_groups(1) [OF assms], of "segments a" 8]
  by (simp add: read_ipv6_def)

lemma read_ipv6_run:
  assumes r: "ends_ip r" and gs: "segments a = front @ replicate len 0 @ rear" and len: "1 < len"
  shows "read_ipv6 (show_groups front @ ''::'' @ show_groups rear @ r) = Some (a, r)"
proof -
  have total: "length front + len + length rear = 8"
    using arg_cong [OF gs, of length] by simp
  have "read_groups 0 8 (show_groups front @ CHR '':'' # CHR '':'' # (show_groups rear @ r))
      = (front, False, CHR '':'' # CHR '':'' # (show_groups rear @ r))"
    using total len by (intro read_groups_show ends_ip_groups) simp
  moreover have "read_groups 0 (8 - (length front + 1)) (show_groups rear @ r) = (rear, False, r)"
    using total len by (intro read_groups_show ends_ip_groups r) simp
  moreover have "8 - length front - length rear = len" using total by simp
  moreover have "length front \<noteq> 8" using total len by simp
  ultimately show ?thesis
    using gs by (simp add: read_ipv6_def read_given_char_def flip: gs)
qed

lemma read_ipv6_mapped:
  assumes r: "ends_ip r"
  shows "read_ipv6 (''::ffff:'' @ show_ipv4 v4 @ r) =
    (case v4 of IPv4 a b c d \<Rightarrow> Some (IPv6 0 0 0 0 0 65535 (of_be_bytes a b) (of_be_bytes c d), r))"
proof -
  let ?dotted = "show_ipv4 v4 @ r"
  have dec: "stops dec_digit r"
    using r dec_is_hex by (auto simp: ends_ip_def stops_def split: list.splits)
  obtain a b c d where v4: "v4 = IPv4 a b c d" by (cases v4)
  have front: "read_groups 0 8 (CHR '':'' # CHR '':'' # s) = ([], False, CHR '':'' # CHR '':'' # s)" for s
    by (rule read_groups_end) (rule ends_ip_groups)
  have first: "read_group (''ffff:'' @ ?dotted) = Some (65535, CHR '':'' # ?dotted)"
    by (simp add: read_group_def read_number_def hex_digit_def)
  have no_v4: "read_ipv4 (''ffff:'' @ ?dotted) = None"
    by (rule read_ipv4_no_dot) (simp add: dec_digit_def)
  have "read_separator 1 read_ipv4 (CHR '':'' # ?dotted) = Some (v4, r)"
    using read_ipv4_show [OF dec, of v4] by (simp add: read_separator_def read_given_char_def)
  then have second: "read_groups 1 6 (CHR '':'' # ?dotted) = ([of_be_bytes a b, of_be_bytes c d], True, r)"
    by (simp add: eval_nat_numeral v4)
  have "read_groups 0 7 (''ffff:'' @ ?dotted) =
      ([65535, of_be_bytes a b, of_be_bytes c d], True, r)"
    using first no_v4 second by (simp add: eval_nat_numeral read_separator_def)
  then show ?thesis
    using front by (simp add: read_ipv6_def read_given_char_def v4 eval_nat_numeral)
qed

lemma to_ipv4_mapped_Some:
  "to_ipv4_mapped a = Some v4 \<Longrightarrow>
     \<exists>g h. a = IPv6 0 0 0 0 0 65535 g h \<and> v4 = IPv4 (hi_byte g) (lo_byte g) (hi_byte h) (lo_byte h)"
  by (cases a) (auto split: if_splits)

lemma read_ipv6_show:
  assumes "ends_ip r"
  shows "read_ipv6 (show_ipv6 a @ r) = Some (a, r)"
proof (cases "to_ipv4_mapped a")
  case (Some v4)
  with to_ipv4_mapped_Some [OF this] read_ipv6_mapped [OF assms, of v4] show ?thesis
    by (auto simp: show_ipv6_def)
next
  case None
  obtain start len where run: "zeroes (segments a) = (start, len)" by (cases "zeroes (segments a)")
  show ?thesis
  proof (cases "1 < len")
    case True
    with None run read_ipv6_run [OF assms zeroes_parts(1) [OF run] True] show ?thesis
      by (simp add: show_ipv6_def)
  next
    case False
    with None run read_ipv6_groups [OF assms] show ?thesis by (simp add: show_ipv6_def)
  qed
qed

text \<open>An IPv6 text starts with a colon or with a group that no dot follows.\<close>

lemma colon_no_ipv4: "read_ipv4 (CHR '':'' # s) = None"
  by (rule read_ipv4_none) (simp add: undotted_def stops_def hex_digit_def)

lemma show_groups_no_ipv4: "undotted r \<Longrightarrow> gs \<noteq> [] \<Longrightarrow> read_ipv4 (show_groups gs @ r) = None"
proof -
  assume r: "undotted r" and gs: "gs \<noteq> []"
  then obtain g rest where g: "gs = g # rest" by (cases gs) auto
  have "undotted (more_groups rest @ r)"
    using r by (cases rest) (simp_all add: undotted_def stops_def hex_digit_def)
  then show ?thesis by (simp add: g show_groups_more read_ipv4_group)
qed

lemma show_ipv6_no_ipv4: "read_ipv4 (show_ipv6 a) = None"
proof (cases "to_ipv4_mapped a")
  case (Some v4)
  then show ?thesis by (simp add: show_ipv6_def colon_no_ipv4)
next
  case None
  obtain start len where run: "zeroes (segments a) = (start, len)" by (cases "zeroes (segments a)")
  have "undotted (CHR '':'' # CHR '':'' # s)" "undotted []" for s
    by (simp_all add: undotted_def stops_def hex_digit_def)
  moreover have "segments a \<noteq> []" by (cases a) simp
  ultimately show ?thesis
    using None run show_groups_no_ipv4 [of "[]" "segments a"]
      show_groups_no_ipv4 [of "CHR '':'' # CHR '':'' # show_groups (drop (start + len) (segments a))"
        "take start (segments a)"] colon_no_ipv4
    by (cases "start = 0") (simp_all add: show_ipv6_def)
qed

text \<open>\<open>to_string\<close> and \<open>parse\<close> of an IP address.\<close>

theorem parse_ip_show: "parse_ip (show_ip a) = Some a"
proof (cases a)
  case (V4 b)
  then show ?thesis by (simp add: parse_ip_show_ipv4)
next
  case (V6 b)
  have "ends_ip []" by (simp add: ends_ip_def)
  with V6 read_ipv6_show [of "[]" b] show_ipv6_no_ipv4 [of b] show ?thesis
    by (simp add: parse_ip_def read_ip_def whole_def)
qed

lemma unat_u32: "unat (z :: u32) \<le> 4294967295"
proof -
  have "unat z < 4294967296" using unsigned_less [of z] by simp
  then show ?thesis by simp
qed

lemma read_port_show: "read_port (CHR '':'' # show_u16 p) = Some (p, [])"
proof -
  have "unat p \<le> 65535" using unat_u16 [of p] by simp
  then have "read_number dec_digit 10 65535 None True (show_u16 p) = Some (unat p, [])"
    using read_number_show_nat [of "unat p" 65535 "[]" None True]
    by (simp add: show_u16_def stops_def)
  then show ?thesis by (simp add: read_port_def read_given_char_def)
qed

lemma read_scope_show: "read_scope (CHR ''%'' # show_nat (unat z) @ CHR '']'' # s) = Some (z, CHR '']'' # s)"
proof -
  have "stops dec_digit (CHR '']'' # s)" by (simp add: stops_def dec_digit_def)
  with unat_u32 [of z]
  have "read_number dec_digit 10 4294967295 None True (show_nat (unat z) @ CHR '']'' # s)
      = Some (unat z, CHR '']'' # s)"
    by (intro read_number_show_nat) simp_all
  then show ?thesis by (simp add: read_scope_def read_given_char_def)
qed

lemma read_scope_none: "read_scope (CHR '']'' # s) = None"
  by (simp add: read_scope_def read_given_char_def)

text \<open>\<open>to_string\<close> and \<open>parse\<close> of a socket address.\<close>

theorem parse_socket_show: "parse_socket (show_socket a) = Some a"
proof (cases a)
  case (SA4 b p)
  then show ?thesis by (simp only: parse_socket_show_SA4)
next
  case (SA6 b p z)
  have no4: "read_socket4 (CHR ''['' # s) = None" for s
    using read_ipv4_none [of "CHR ''['' # s"]
    by (simp add: read_socket4_def undotted_def stops_def hex_digit_def)
  have ends: "ends_ip (CHR '']'' # s)" "ends_ip (CHR ''%'' # s)" for s
    by (simp_all add: ends_ip_def hex_digit_def)
  have plain: "read_ipv6 (show_ipv6 b @ CHR '']'' # s) = Some (b, CHR '']'' # s)" for s
    by (rule read_ipv6_show) (rule ends)
  have scoped: "read_ipv6 (show_ipv6 b @ CHR ''%'' # s) = Some (b, CHR ''%'' # s)" for s
    by (rule read_ipv6_show) (rule ends)
  show ?thesis
    using plain [of "CHR '':'' # show_u16 p"]
      scoped [of "show_nat (unat z) @ CHR '']'' # CHR '':'' # show_u16 p"]
    by (cases "z = 0")
      (simp_all add: SA6 parse_socket_def no4 read_socket6_def read_given_char_def read_scope_none
        read_scope_show read_port_show whole_def)
qed

end
