(* ===== verification/Guard.thy ===== *)
theory Guard
  imports Proxy Addresses
begin

section \<open>The loop guard sees through spellings\<close>

text \<open>
  The guard of \<open>proxy/mod.rs\<close> compares addresses, and it reads the destination after it has lowered its
  case and dropped a dot behind it.  A destination that is an address is dialled as the standard
  library reads it, before any of that.  The two readings are shown to agree: reading an address does
  not depend on case, and no address ends in a dot.
\<close>

subsection \<open>Reading does not depend on case\<close>

definition caseless :: "(string \<Rightarrow> ('a \<times> string) option) \<Rightarrow> bool" where
  "caseless f \<longleftrightarrow> (\<forall>s. f (map lower_char s) = map_option (\<lambda>(a, r). (a, map lower_char r)) (f s))"

lemma caselessD: "caseless f \<Longrightarrow> f (map lower_char s) = map_option (\<lambda>(a, r). (a, map lower_char r)) (f s)"
  by (simp add: caseless_def)

lemma lower_char_eq:
  assumes "of_char c < (65 :: nat)"
  shows "lower_char x = c \<longleftrightarrow> x = c"
proof
  assume "lower_char x = c"
  then have "(of_char (lower_char x) :: nat) = of_char c" by simp
  with assms have "(of_char x :: nat) = of_char c"
    by (simp add: of_char_lower_char Let_def split: if_splits)
  then show "x = c" by simp
qed (use assms in \<open>simp add: lower_char_def\<close>)

lemma dec_digit_lower [simp]: "dec_digit (lower_char c) = dec_digit c"
  by (auto simp: dec_digit_def of_char_lower_char Let_def)

lemma hex_digit_lower [simp]: "hex_digit (lower_char c) = hex_digit c"
  by (auto simp: hex_digit_def of_char_lower_char Let_def)

lemma digits_value_lower:
  assumes "\<And>c. d (lower_char c) = d c"
  shows "digits_value d r acc (map lower_char s) = digits_value d r acc s"
  using assms by (induction s arbitrary: acc) (simp_all split: option.split)

lemma read_number_caseless:
  assumes "\<And>c. d (lower_char c) = d c"
  shows "caseless (read_number d r limit m z)"
proof -
  have eaten: "takeWhile (\<lambda>c. d c \<noteq> None) (map lower_char s) = map lower_char (takeWhile (\<lambda>c. d c \<noteq> None) s)"
    "dropWhile (\<lambda>c. d c \<noteq> None) (map lower_char s) = map lower_char (dropWhile (\<lambda>c. d c \<noteq> None) s)" for s
    using assms by (simp_all add: takeWhile_map dropWhile_map comp_def)
  have zero: "hd (map lower_char ds) = CHR ''0'' \<longleftrightarrow> hd ds = CHR ''0''" if "ds \<noteq> []" for ds
    using that lower_char_eq [of "CHR ''0''"] by (cases ds) simp_all
  show ?thesis
    unfolding caseless_def read_number_def Let_def eaten
    using zero by (auto simp: digits_value_lower [of d, OF assms] split: option.split)
qed

lemma read_octet_caseless: "caseless read_octet"
  using read_number_caseless [of dec_digit 10 255 "Some 3" False]
  by (auto simp: caseless_def read_octet_def split: Option.bind_split)

lemma read_group_caseless: "caseless read_group"
  using read_number_caseless [of hex_digit 16 65535 "Some 4" True]
  by (auto simp: caseless_def read_group_def split: Option.bind_split)

lemma read_given_char_lower:
  "of_char c < (65 :: nat) \<Longrightarrow>
     read_given_char c (map lower_char s) = map_option (map lower_char) (read_given_char c s)"
  by (cases s) (simp_all add: read_given_char_def lower_char_eq)

lemma caseless_bind:
  assumes "caseless f" and "\<And>a. caseless (g a)"
  shows "caseless (\<lambda>s. Option.bind (f s) (\<lambda>(a, r). g a r))"
  unfolding caseless_def
proof
  fix s
  show "Option.bind (f (map lower_char s)) (\<lambda>(a, r). g a r) =
      map_option (\<lambda>(b, r). (b, map lower_char r)) (Option.bind (f s) (\<lambda>(a, r). g a r))"
    using assms(2) by (cases "f s") (auto simp: caselessD [OF assms(1)] caseless_def)
qed

lemma caseless_return: "caseless (\<lambda>s. Some (a, s))"
  by (simp add: caseless_def)

lemma caseless_given:
  assumes "of_char c < (65 :: nat)" and "caseless f"
  shows "caseless (\<lambda>s. Option.bind (read_given_char c s) f)"
  unfolding caseless_def
proof
  fix s
  show "Option.bind (read_given_char c (map lower_char s)) f =
      map_option (\<lambda>(b, r). (b, map lower_char r)) (Option.bind (read_given_char c s) f)"
    using assms by (cases "read_given_char c s") (simp_all add: read_given_char_lower caseless_def)
qed

lemma read_ipv4_caseless: "caseless read_ipv4"
proof -
  have dot: "caseless read_dot_octet"
    using caseless_given [OF _ read_octet_caseless, of "CHR ''.''"]
    by (simp add: read_dot_octet_def [abs_def])
  show ?thesis
    unfolding read_ipv4_def [abs_def]
    by (intro caseless_bind read_octet_caseless dot caseless_return)
qed

lemma read_separator_caseless: "caseless f \<Longrightarrow> caseless (read_separator i f)"
  using caseless_given [of "CHR '':''" f] by (cases "0 < i") (simp_all add: read_separator_def [abs_def])

lemma read_groups_lower:
  "read_groups i n (map lower_char s) =
     (case read_groups i n s of (gs, v4, r) \<Rightarrow> (gs, v4, map lower_char r))"
proof (induction i n s rule: read_groups.induct)
  case (2 i n s)
  note v4 = caselessD [OF read_separator_caseless [OF read_ipv4_caseless], of i s]
  note group = caselessD [OF read_separator_caseless [OF read_group_caseless], of i s]
  show ?case
  proof (cases "if 0 < n then read_separator i read_ipv4 s else None")
    case (Some ar)
    then show ?thesis by (cases ar; cases "fst ar") (auto simp: v4 split: if_splits)
  next
    case None
    then show ?thesis
      using "2.IH" [OF None] v4 group
      by (cases "read_separator i read_group s") (auto split: if_splits prod.splits)
  qed
qed simp

lemma read_ipv6_caseless: "caseless read_ipv6"
  unfolding caseless_def
proof
  fix s
  obtain head v4 s1 where head: "read_groups 0 8 s = (head, v4, s1)" by (rule prod_cases3)
  show "read_ipv6 (map lower_char s) = map_option (\<lambda>(a, r). (a, map lower_char r)) (read_ipv6 s)"
  proof (cases "length head = 8 \<or> v4")
    case True
    then show ?thesis
      by (auto simp: read_ipv6_def read_groups_lower head option.map_comp comp_def Let_def)
  next
    case False
    have colon: "read_given_char (CHR '':'') (map lower_char t)
        = map_option (map lower_char) (read_given_char (CHR '':'') t)" for t
      by (rule read_given_char_lower) simp
    show ?thesis
    proof (cases "Option.bind (read_given_char (CHR '':'') s1) (read_given_char (CHR '':''))")
      case None
      with False show ?thesis
        by (cases "read_given_char (CHR '':'') s1")
          (simp_all add: read_ipv6_def read_groups_lower head colon Let_def)
    next
      case (Some s3)
      obtain tail v4' s4 where tail: "read_groups 0 (7 - length head) s3 = (tail, v4', s4)"
        by (rule prod_cases3)
      from Some False show ?thesis
        by (cases "read_given_char (CHR '':'') s1")
          (auto simp: read_ipv6_def read_groups_lower head tail colon option.map_comp comp_def Let_def)
    qed
  qed
qed

lemma parse_ip_lower: "parse_ip (to_lowercase s) = parse_ip s"
proof -
  have "read_ip (map lower_char s) = map_option (\<lambda>(a, r). (a, map lower_char r)) (read_ip s)"
    using caselessD [OF read_ipv4_caseless, of s] caselessD [OF read_ipv6_caseless, of s]
    by (cases "read_ipv4 s"; cases "read_ipv6 s") (auto simp: read_ip_def)
  then show ?thesis
    by (cases "read_ip s") (auto simp: parse_ip_def to_lowercase_def whole_def split: list.split)
qed

subsection \<open>No address ends in a dot\<close>

text \<open>What a reader takes is not empty and does not end in a dot.\<close>

definition solid :: "(string \<Rightarrow> ('a \<times> string) option) \<Rightarrow> bool" where
  "solid f \<longleftrightarrow> (\<forall>s a r. f s = Some (a, r) \<longrightarrow> (\<exists>p. s = p @ r \<and> p \<noteq> [] \<and> last p \<noteq> CHR ''.''))"

lemma solidD: "solid f \<Longrightarrow> f s = Some (a, r) \<Longrightarrow> \<exists>p. s = p @ r \<and> p \<noteq> [] \<and> last p \<noteq> CHR ''.''"
  by (simp add: solid_def)

lemma read_number_solid:
  assumes "d (CHR ''.'') = None"
  shows "solid (read_number d r limit m z)"
  unfolding solid_def
proof (intro allI impI)
  fix s n rest
  assume read: "read_number d r limit m z s = Some (n, rest)"
  let ?p = "takeWhile (\<lambda>c. d c \<noteq> None) s"
  have parts: "?p \<noteq> []" "rest = dropWhile (\<lambda>c. d c \<noteq> None) s"
    using read by (auto simp: read_number_def Let_def split: if_splits option.splits)
  then have "last ?p \<in> set ?p" by simp
  then have "d (last ?p) \<noteq> None" by (rule set_takeWhileD [THEN conjunct2])
  with assms have "last ?p \<noteq> CHR ''.''" by metis
  with parts show "\<exists>p. s = p @ rest \<and> p \<noteq> [] \<and> last p \<noteq> CHR ''.''"
    by (intro exI [of _ ?p]) simp
qed

lemma read_octet_solid: "solid read_octet"
  using read_number_solid [of dec_digit 10 255 "Some 3" False]
  by (auto simp: solid_def read_octet_def dec_digit_def bind_eq_Some_conv)

lemma read_group_solid: "solid read_group"
  using read_number_solid [of hex_digit 16 65535 "Some 4" True]
  by (auto simp: solid_def read_group_def hex_digit_def bind_eq_Some_conv)

lemma solid_given:
  assumes "solid f"
  shows "solid (\<lambda>s. Option.bind (read_given_char c s) f)"
  unfolding solid_def
proof (intro allI impI)
  fix s a r
  assume "Option.bind (read_given_char c s) f = Some (a, r)"
  then obtain t where s: "s = c # t" and "f t = Some (a, r)"
    by (auto simp: bind_eq_Some_conv read_given_char_Some)
  with assms obtain p where "t = p @ r" "p \<noteq> []" "last p \<noteq> CHR ''.''" by (blast dest: solidD)
  with s show "\<exists>p. s = p @ r \<and> p \<noteq> [] \<and> last p \<noteq> CHR ''.''"
    by (intro exI [of _ "c # p"]) simp
qed

lemma solid_seq:
  assumes "solid f" and "f s = Some (a, t)" and "t = q @ r" and "q = [] \<or> last q \<noteq> CHR ''.''"
  shows "\<exists>p. s = p @ r \<and> p \<noteq> [] \<and> last p \<noteq> CHR ''.''"
proof -
  obtain p where "s = p @ t" "p \<noteq> []" "last p \<noteq> CHR ''.''"
    using solidD [OF assms(1,2)] by blast
  with assms(3,4) show ?thesis by (intro exI [of _ "p @ q"]) (cases "q = []"; simp)
qed

lemma read_ipv4_solid: "solid read_ipv4"
  unfolding solid_def
proof (intro allI impI)
  fix s a r
  assume "read_ipv4 s = Some (a, r)"
  then obtain o1 s1 o2 s2 o3 s3 o4 where parts: "read_octet s = Some (o1, s1)"
    "read_dot_octet s1 = Some (o2, s2)" "read_dot_octet s2 = Some (o3, s3)"
    "read_dot_octet s3 = Some (o4, r)"
    by (auto simp: read_ipv4_def bind_eq_Some_conv)
  have dot: "solid read_dot_octet"
    using solid_given [OF read_octet_solid] by (simp add: read_dot_octet_def [abs_def])
  from solidD [OF dot parts(4)] obtain q where q: "s3 = q @ r" "q = [] \<or> last q \<noteq> CHR ''.''" by blast
  from solid_seq [OF dot parts(3) q] obtain q where q: "s2 = q @ r" "q = [] \<or> last q \<noteq> CHR ''.''" by blast
  from solid_seq [OF dot parts(2) q] obtain q where q: "s1 = q @ r" "q = [] \<or> last q \<noteq> CHR ''.''" by blast
  from solid_seq [OF read_octet_solid parts(1) q]
  show "\<exists>p. s = p @ r \<and> p \<noteq> [] \<and> last p \<noteq> CHR ''.''" .
qed

text \<open>A run of groups may be empty.\<close>

lemma read_groups_solid:
  "read_groups i n s = (gs, v4, r) \<Longrightarrow> \<exists>p. s = p @ r \<and> (p = [] \<or> last p \<noteq> CHR ''.'')"
proof (induction i n s arbitrary: gs v4 r rule: read_groups.induct)
  case (2 i n s)
  have sep: "solid (read_separator i f)" if "solid f" for f :: "string \<Rightarrow> ('b \<times> string) option"
    using that solid_given [OF that] by (cases "0 < i") (simp_all add: read_separator_def [abs_def])
  show ?case
  proof (cases "if 0 < n then read_separator i read_ipv4 s else None")
    case (Some ar)
    then obtain a t where read: "read_separator i read_ipv4 s = Some (a, t)"
      by (cases ar) (auto split: if_splits)
    then have "r = t" using Some "2.prems" by (cases a) (auto split: if_splits)
    with solidD [OF sep [OF read_ipv4_solid] read] show ?thesis by blast
  next
    case None
    show ?thesis
    proof (cases "read_separator i read_group s")
      case None
      with \<open>(if 0 < n then read_separator i read_ipv4 s else None) = None\<close> "2.prems"
      show ?thesis by auto
    next
      case (Some gt)
      obtain g t where gt: "gt = (g, t)" by (cases gt)
      obtain gs' v4' r' where more: "read_groups (Suc i) n t = (gs', v4', r')" by (rule prod_cases3)
      have "r' = r" using None Some gt more "2.prems" by simp
      moreover obtain q where "t = q @ r'" "q = [] \<or> last q \<noteq> CHR ''.''"
        using "2.IH" [OF None _ _ more, of gt] Some gt by auto
      ultimately show ?thesis
        using solid_seq [OF sep [OF read_group_solid], of s g t q r] Some gt by blast
    qed
  qed
qed simp

lemma read_ipv6_solid:
  assumes "read_ipv6 s = Some (a, r)"
  shows "\<exists>p. s = p @ r \<and> (p = [] \<or> last p \<noteq> CHR ''.'')"
proof -
  obtain head v4 s1 where head: "read_groups 0 8 s = (head, v4, s1)" by (rule prod_cases3)
  obtain p where p: "s = p @ s1" "p = [] \<or> last p \<noteq> CHR ''.''"
    using read_groups_solid [OF head] by blast
  show ?thesis
  proof (cases "length head = 8")
    case True
    with assms head p show ?thesis by (auto simp: read_ipv6_def)
  next
    case False
    with assms head obtain s3 where s1: "s1 = CHR '':'' # CHR '':'' # s3"
      by (auto simp: read_ipv6_def bind_eq_Some_conv read_given_char_Some split: if_splits)
    obtain tail v4' s4 where tail: "read_groups 0 (7 - length head) s3 = (tail, v4', s4)"
      by (rule prod_cases3)
    with assms head s1 False have "s4 = r"
      by (auto simp: read_ipv6_def read_given_char_def Let_def split: if_splits)
    with tail have tail: "read_groups 0 (7 - length head) s3 = (tail, v4', r)" by simp
    obtain q where q: "s3 = q @ r" "q = [] \<or> last q \<noteq> CHR ''.''"
      using read_groups_solid [OF tail] by blast
    with p s1 show ?thesis
      by (intro exI [of _ "p @ CHR '':'' # CHR '':'' # q"]) auto
  qed
qed

lemma parse_ip_no_dot:
  assumes "parse_ip s = Some ip"
  shows "\<not> suffix ''.'' s"
proof -
  obtain p where "s = p @ []" "p = [] \<or> last p \<noteq> CHR ''.''"
    using assms read_ipv6_solid [of s] solidD [OF read_ipv4_solid, of s]
    by (fastforce simp: parse_ip_def whole_def read_ip_def split: option.splits prod.splits list.splits)
  then show ?thesis by (auto simp: suffix_def)
qed

subsection \<open>Properties\<close>

text \<open>C32: no spelling of an address gets past the loop guard.  Whatever text the standard library reads as
  an address - any case, any abbreviation of zeros, an IPv4 address dressed as IPv6 - the guard
  refuses it exactly when it is on the port the client was accepted on and is that client's own
  address or unspecified, both folded to IPv4 where they are mapped; a dot behind the text changes
  nothing, and the address as the library itself writes it is always refused.\<close>

theorem guard_sees_through_spellings:
  assumes "parse_ip host = Some ip"
  shows "own_address (Some listening) host port =
      (if port = sock_port listening
          \<and> (is_unspecified (canonical ip) \<or> canonical ip = canonical (sock_ip listening))
       then Own listening else Elsewhere)
    \<and> own_address (Some listening) (host @ ''.'') port = own_address (Some listening) host port
    \<and> own_address (Some listening) (show_ip (sock_ip listening)) (sock_port listening) = Own listening"
proof -
  have read: "nh_address (normalized_host_new h) = parse_ip h" if "parse_ip h = Some i" for h i
    using parse_ip_no_dot [OF that]
    by (simp add: normalized_host_new_def strip_dot_def strip_suffix_def parse_ip_lower Let_def)
  have dotted: "normalized_host_new (host @ ''.'') = normalized_host_new host"
    using parse_ip_no_dot [OF assms]
    by (simp add: normalized_host_new_def strip_dot_def strip_suffix_def suffix_def)
  have same: "own_address (Some listening) (host @ ''.'') port = own_address (Some listening) host port"
    by (simp add: own_address_def dials_itself_test_def dotted)
  show ?thesis
    using assms same
    by (simp add: own_address_def dials_itself_test_def read [OF assms]
        read [OF parse_ip_show] parse_ip_show Let_def)
qed

theorem guard_sees_through_spellings_witness:
  "own_address (Some (SA4 (IPv4 127 0 0 1) 7890)) ''::FFFF:7f00:1'' 7890 = Own (SA4 (IPv4 127 0 0 1) 7890)"
proof -
  have "parse_ip ''::FFFF:7f00:1'' = Some (V6 (IPv6 0 0 0 0 0 65535 32512 1))" by code_simp
  moreover have "canonical (V6 (IPv6 0 0 0 0 0 65535 32512 1)) = V4 (IPv4 127 0 0 1)" by code_simp
  ultimately show ?thesis
    using guard_sees_through_spellings [of "''::FFFF:7f00:1''" _ "SA4 (IPv4 127 0 0 1) 7890" 7890] by simp
qed

end
