(* ===== verification/Events.thy ===== *)
theory Events
  imports Dialer
begin

section \<open>The decision stream and one connection's line in it: \<open>proxy/mod.rs\<close>\<close>

text \<open>
  Every routed connection leaves one event, and \<open>EventTx\<close> fans it out to the subscribers of the
  decision stream without waiting for any of them.  A subscriber's channel is the bounded queue of
  the events it has not read yet; it is closed once the reader has dropped it.
\<close>

subsection \<open>Subscribers\<close>

definition SUBSCRIBER_CAPACITY :: nat where "SUBSCRIBER_CAPACITY = 256"

record subscriber =
  sb_queue :: "event_view list"
  sb_open :: bool
  sb_dropped :: nat

datatype delivery = Kept | Gone

datatype send_error = Full | Closed

text \<open>\<open>try_send\<close> on the bounded channel.\<close>

definition try_send :: "subscriber \<Rightarrow> event_view \<Rightarrow> subscriber \<times> (send_error, unit) res" where
  "try_send s event =
     (if \<not> sb_open s then (s, Err Closed)
      else if SUBSCRIBER_CAPACITY \<le> length (sb_queue s) then (s, Err Full)
      else (s\<lparr> sb_queue := sb_queue s @ [event] \<rparr>, Ok ()))"

definition reporting :: "event_view \<Rightarrow> nat \<Rightarrow> event_view" where
  "reporting event dropped =
     event\<lparr> ev_error :=
       Some (case ev_error event of
               Some error \<Rightarrow> ''dropped '' @ show_nat dropped @ '': '' @ error
             | None \<Rightarrow> ''dropped '' @ show_nat dropped) \<rparr>"

definition subscriber_offer :: "subscriber \<Rightarrow> event_view \<Rightarrow> subscriber \<times> delivery" where
  "subscriber_offer s event =
     (let offered = (if sb_dropped s = 0 then event else reporting event (sb_dropped s)) in
      case try_send s offered of
        (s, Inr _) \<Rightarrow> (s\<lparr> sb_dropped := 0 \<rparr>, Kept)
      | (s, Inl Full) \<Rightarrow> (s\<lparr> sb_dropped := sat_add64 (sb_dropped s) 1 \<rparr>, Kept)
      | (s, Inl Closed) \<Rightarrow> (s, Gone))"

type_synonym event_tx = "subscriber list"

definition event_subscribe :: "event_tx \<Rightarrow> event_tx" where
  "event_subscribe subscribers =
     subscribers @ [\<lparr> sb_queue = [], sb_open = True, sb_dropped = 0 \<rparr>]"

fun event_publish :: "event_tx \<Rightarrow> event_view \<Rightarrow> event_tx" where
  "event_publish [] event = []"
| "event_publish (s # subscribers) event =
     (case subscriber_offer s event of
        (s, Kept) \<Rightarrow> s # event_publish subscribers event
      | (s, Gone) \<Rightarrow> event_publish subscribers event)"

definition event_subscribers :: "event_tx \<Rightarrow> nat" where
  "event_subscribers subscribers = length subscribers"

text \<open>The two things a reader does with its queue: take the next event, and drop the queue.\<close>

definition subscriber_recv :: "subscriber \<Rightarrow> subscriber \<times> event_view option" where
  "subscriber_recv s =
     (case sb_queue s of [] \<Rightarrow> (s, None) | event # rest \<Rightarrow> (s\<lparr> sb_queue := rest \<rparr>, Some event))"

definition subscriber_drop :: "subscriber \<Rightarrow> subscriber" where
  "subscriber_drop s = s\<lparr> sb_open := False, sb_queue := [] \<rparr>"

subsection \<open>What a dial phase cost\<close>

datatype connect =
    ConnectRefused
  | ConnectAttempted duration effective_hop "upstream_addr option"

definition dialled_timed ::
  "'stream dialled \<Rightarrow> duration \<Rightarrow> connect \<times> (io_error, 'stream) res" where
  "dialled_timed dialled took =
     (case dialled of
        DialRefused failure \<Rightarrow> (ConnectRefused, Err failure)
      | DialAttempted hop via next \<Rightarrow> (ConnectAttempted took hop via, next))"

subsection \<open>One connection\<close>

record routed_conn =
  rt_host :: host
  rt_port :: port
  rt_decision :: decision
  rt_upstream :: health_state
  rt_connect :: "duration option"
  rt_hop :: "effective_hop option"
  rt_via :: "upstream_addr option"

definition routed_begun :: "health_state \<Rightarrow> host \<Rightarrow> port \<Rightarrow> decision \<Rightarrow> routed_conn" where
  "routed_begun upstream host port decision =
     \<lparr> rt_host = host, rt_port = port, rt_decision = decision, rt_upstream = upstream,
       rt_connect = None, rt_hop = None, rt_via = None \<rparr>"

definition routed_dialled :: "routed_conn \<Rightarrow> connect \<Rightarrow> routed_conn" where
  "routed_dialled r connect =
     (case connect of
        ConnectRefused \<Rightarrow> r\<lparr> rt_connect := None, rt_hop := None, rt_via := None \<rparr>
      | ConnectAttempted took hop via \<Rightarrow>
          r\<lparr> rt_connect := Some took, rt_hop := Some hop, rt_via := via \<rparr>)"

definition millis :: "duration \<Rightarrow> nat" where
  "millis took = clamp64 (took div 1000000)"

definition matched_index :: "decision \<Rightarrow> nat option" where
  "matched_index decision = map_option clamp32 (decision_rule decision)"

text \<open>The event of a connection that ended after \<open>elapsed\<close>.\<close>

definition routed_ended :: "routed_conn \<Rightarrow> duration \<Rightarrow> io_error option \<Rightarrow> event_view" where
  "routed_ended r elapsed failure =
     \<lparr> ev_host = rt_host r, ev_port = rt_port r,
       ev_decision = decision_kind (rt_decision r),
       ev_rule_index = matched_index (rt_decision r),
       ev_class = decision_class (rt_decision r),
       ev_upstream = rt_upstream r,
       ev_connect_ms = map_option millis (rt_connect r),
       ev_hop = rt_hop r, ev_via = rt_via r,
       ev_duration_ms = millis elapsed,
       ev_error = map_option ie_text failure \<rparr>"


subsection \<open>A reader's view of the stream\<close>

datatype stream_op = Publish event_view | Recv

text \<open>What one open subscriber reads while events are published and read in any order.\<close>

fun stream_run :: "subscriber \<Rightarrow> stream_op list \<Rightarrow> subscriber \<times> event_view list" where
  "stream_run s [] = (s, [])"
| "stream_run s (Publish event # ops) = stream_run (fst (subscriber_offer s event)) ops"
| "stream_run s (Recv # ops) =
     (let (s, event) = subscriber_recv s;
          (s, rest) = stream_run s ops
      in (s, case event of None \<Rightarrow> rest | Some event \<Rightarrow> event # rest))"

definition published_of :: "stream_op list \<Rightarrow> event_view list" where
  "published_of ops = concat (map (\<lambda>op. case op of Publish event \<Rightarrow> [event] | Recv \<Rightarrow> []) ops)"

text \<open>An event as it is delivered behind a gap of events that were lost.\<close>

definition behind_gap :: "event_view list \<times> event_view \<Rightarrow> event_view" where
  "behind_gap = (\<lambda>(gap, event). if gap = [] then event else reporting event (length gap))"

text \<open>
  The accounts of a subscriber: what was published is the events it was handed, each behind the gap
  it reports, and then the events it has lost since.
\<close>

definition accounted :: "event_view list \<Rightarrow> event_view list \<Rightarrow> subscriber \<Rightarrow> bool" where
  "accounted published received s \<longleftrightarrow>
     sb_open s \<and> length (sb_queue s) \<le> SUBSCRIBER_CAPACITY
     \<and> (\<exists>items lost.
          published = concat (map (\<lambda>(gap, event). gap @ [event]) items) @ lost
          \<and> received @ sb_queue s = map behind_gap items
          \<and> sb_dropped s = length lost)"

lemma accountedI:
  assumes "sb_open s" and "length (sb_queue s) \<le> SUBSCRIBER_CAPACITY"
    and "published = concat (map (\<lambda>(gap, event). gap @ [event]) items) @ lost"
    and "received @ sb_queue s = map behind_gap items" and "sb_dropped s = length lost"
  shows "accounted published received s"
  using assms unfolding accounted_def by blast

lemma accounted_start:
  "accounted [] [] \<lparr> sb_queue = [], sb_open = True, sb_dropped = 0 \<rparr>"
  by (simp add: accounted_def)

lemma subscriber_offer_open:
  assumes "sb_open s"
  shows "subscriber_offer s event =
    (if SUBSCRIBER_CAPACITY \<le> length (sb_queue s)
     then (s\<lparr> sb_dropped := sat_add64 (sb_dropped s) 1 \<rparr>, Kept)
     else (s\<lparr> sb_queue := sb_queue s @
             [if sb_dropped s = 0 then event else reporting event (sb_dropped s)], sb_dropped := 0 \<rparr>,
           Kept))"
  using assms by (simp add: subscriber_offer_def try_send_def Let_def)

lemma accounted_offer:
  assumes acc: "accounted published received s" and room: "length published < u64_max"
  shows "accounted (published @ [event]) received (fst (subscriber_offer s event))"
proof -
  from acc obtain items lost where s: "sb_open s" "length (sb_queue s) \<le> SUBSCRIBER_CAPACITY"
    and pub: "published = concat (map (\<lambda>(gap, event). gap @ [event]) items) @ lost"
    and rec: "received @ sb_queue s = map behind_gap items" and lost: "sb_dropped s = length lost"
    unfolding accounted_def by blast
  show ?thesis
  proof (cases "SUBSCRIBER_CAPACITY \<le> length (sb_queue s)")
    case True
    have "sat_add64 (length lost) 1 = length (lost @ [event])"
      using room pub by (simp add: sat_add64_def)
    with True s rec lost pub show ?thesis
      by (intro accountedI [where items = items and lost = "lost @ [event]"])
        (simp_all add: subscriber_offer_open)
  next
    case False
    with s rec lost pub show ?thesis
      by (intro accountedI [where items = "items @ [(lost, event)]" and lost = "[]"])
        (simp_all add: subscriber_offer_open behind_gap_def flip: append_assoc)
  qed
qed

lemma accounted_recv:
  assumes acc: "accounted published received s"
  shows "accounted published
    (received @ (case snd (subscriber_recv s) of None \<Rightarrow> [] | Some event \<Rightarrow> [event]))
    (fst (subscriber_recv s))"
  using acc by (cases "sb_queue s") (auto simp: accounted_def subscriber_recv_def)

lemma stream_run_accounted:
  "accounted published received s \<Longrightarrow> length published + length (published_of ops) \<le> u64_max \<Longrightarrow>
   stream_run s ops = (s', taken) \<Longrightarrow>
     accounted (published @ published_of ops) (received @ taken) s'"
proof (induction s ops arbitrary: published received s' taken rule: stream_run.induct)
  case (2 s event ops)
  from "2.prems"(2) have "length published < u64_max" by (simp add: published_of_def)
  from accounted_offer [OF "2.prems"(1) this] "2.IH" "2.prems"(2,3) show ?case
    by (force simp: published_of_def)
next
  case (3 s ops)
  obtain t event where recv: "subscriber_recv s = (t, event)" by (cases "subscriber_recv s")
  obtain s2 rest where run: "stream_run t ops = (s2, rest)" by (cases "stream_run t ops")
  from accounted_recv [OF "3.prems"(1)] "3.IH" [OF recv [symmetric] refl _ _ run] "3.prems"(2,3) recv run
  show ?case by (fastforce simp: published_of_def split: option.splits)
qed (simp add: published_of_def)

text \<open>Publishing to many subscribers is offering to each, and drops those that are gone.\<close>

lemma event_publish_eq:
  "event_publish ss event =
     map (\<lambda>s. fst (subscriber_offer s event)) (filter sb_open ss)"
proof (induction ss)
  case (Cons s ss)
  then show ?case
    by (cases "sb_open s")
      (simp_all add: subscriber_offer_open subscriber_offer_def try_send_def)
qed simp

subsection \<open>Properties\<close>

text \<open>C31: no event of the decision stream is lost silently.  However publishing and reading interleave,
  what was published to a subscriber is exactly the events it has read or has queued, each behind the
  gap of events it lost before it - a gap is reported on the event that closes it, with its length -
  and the ones lost since, which are counted for the next.  The queue never exceeds its capacity and
  publishing never waits for a reader.\<close>

theorem stream_accounts_for_losses:
  assumes "stream_run \<lparr> sb_queue = [], sb_open = True, sb_dropped = 0 \<rparr> ops = (s, received)"
    and "length (published_of ops) \<le> u64_max"
  shows "length (sb_queue s) \<le> SUBSCRIBER_CAPACITY
    \<and> (\<exists>items lost.
         published_of ops = concat (map (\<lambda>(gap, event). gap @ [event]) items) @ lost
         \<and> received @ sb_queue s =
             map (\<lambda>(gap, event). if gap = [] then event else reporting event (length gap)) items
         \<and> sb_dropped s = length lost)"
  using stream_run_accounted [OF accounted_start _ assms(1)] assms(2)
  by (simp add: accounted_def behind_gap_def)

text \<open>An event of a direct connection, for the example.\<close>

definition example_event :: event_view where
  "example_event =
     \<lparr> ev_host = ''h'', ev_port = 80, ev_decision = KDirect, ev_rule_index = None, ev_class = None,
       ev_upstream = Down, ev_connect_ms = Some 1, ev_hop = Some HopDirect, ev_via = None,
       ev_duration_ms = 2, ev_error = None \<rparr>"

definition example_ops :: "stream_op list" where
  "example_ops = [Publish example_event, Recv, Recv, Publish example_event]"

theorem stream_accounts_for_losses_witness:
  "\<exists>items lost.
     published_of example_ops = concat (map (\<lambda>(gap, event). gap @ [event]) items) @ lost
     \<and> [example_event] @ [example_event] =
         map (\<lambda>(gap, event). if gap = [] then event else reporting event (length gap)) items
     \<and> 0 = length lost"
proof -
  let ?s0 = "\<lparr> sb_queue = [], sb_open = True, sb_dropped = 0 \<rparr>"
  let ?s1 = "\<lparr> sb_queue = [example_event], sb_open = True, sb_dropped = 0 \<rparr>"
  have run: "stream_run ?s0 example_ops = (?s1, [example_event])"
    by code_simp
  have len: "length (published_of example_ops) \<le> u64_max"
    by (simp add: published_of_def u64_max_def example_ops_def)
  from stream_accounts_for_losses [OF run len, THEN conjunct2] show ?thesis
    unfolding subscriber.simps .
qed

end
