(* ===== verification/Conn.thy ===== *)
theory Conn
  imports Events
begin

section \<open>Connections, and the forward front end: \<open>proxy/forward.rs\<close>\<close>

text \<open>
  A TCP connection as the front ends use it: the bytes it will deliver, cut into the pieces the
  reads come back with, what the last read comes back with, and the outcome of each write to come.
  A character stands for a byte.  What two connections exchange once they are relayed is the
  library's (\<open>copy_bidirectional\<close> and \<open>copy\<close> of tokio) and a parameter, \<open>relays\<close>.
\<close>

subsection \<open>Byte streams\<close>

record conn =
  cn_in :: "string list"
  cn_failed :: "io_error option"
  cn_local :: "socket_addr option"
  cn_out :: string
  cn_writes :: "io_error option list"

definition unexpected_eof :: io_error where
  "unexpected_eof = \<lparr> ie_kind = UnexpectedEof, ie_text = ''early eof'', ie_payload = NoPayload \<rparr>"

text \<open>One read into a buffer of \<open>n\<close> bytes; nothing read is the end of the stream.\<close>

definition conn_read :: "conn \<Rightarrow> nat \<Rightarrow> conn \<times> (io_error, string) res" where
  "conn_read c n =
     (case cn_in c of
        [] \<Rightarrow> (c, case cn_failed c of None \<Rightarrow> Ok [] | Some e \<Rightarrow> Err e)
      | chunk # rest \<Rightarrow>
          (c\<lparr> cn_in := (if length chunk \<le> n then rest else drop n chunk # rest) \<rparr>, Ok (take n chunk)))"

function read_exact :: "conn \<Rightarrow> nat \<Rightarrow> conn \<times> (io_error, string) res" where
  "read_exact c n =
     (if n = 0 then (c, Ok [])
      else
        (case conn_read c n of
           (c, Inl e) \<Rightarrow> (c, Err e)
         | (c, Inr []) \<Rightarrow> (c, Err unexpected_eof)
         | (c, Inr (b # bytes)) \<Rightarrow>
             (case read_exact c (n - length (b # bytes)) of
                (c, Inl e) \<Rightarrow> (c, Err e)
              | (c, Inr others) \<Rightarrow> (c, Ok ((b # bytes) @ others)))))"
  by pat_completeness auto
termination by (relation "measure snd") auto

declare read_exact.simps [simp del]

text \<open>\<open>write_all\<close> and the \<open>flush\<close> behind it, which does nothing on a TCP stream.\<close>

definition write_all :: "conn \<Rightarrow> string \<Rightarrow> conn \<times> (io_error, unit) res" where
  "write_all c bytes =
     (case cn_writes c of
        [] \<Rightarrow> (c\<lparr> cn_out := cn_out c @ bytes \<rparr>, Ok ())
      | None # writes \<Rightarrow> (c\<lparr> cn_out := cn_out c @ bytes, cn_writes := writes \<rparr>, Ok ())
      | Some e # writes \<Rightarrow> (c\<lparr> cn_writes := writes \<rparr>, Err e))"

definition io_bind ::
  "conn \<times> (io_error, 'a) res \<Rightarrow> (conn \<Rightarrow> 'a \<Rightarrow> conn \<times> (io_error, 'b) res)
     \<Rightarrow> conn \<times> (io_error, 'b) res" where
  "io_bind r f = (case r of (c, Inl e) \<Rightarrow> (c, Err e) | (c, Inr x) \<Rightarrow> f c x)"

lemma io_bind_simps [simp]:
  "io_bind (c, Inl e) f = (c, Inl e)" "io_bind (c, Inr x) f = f c x"
  by (simp_all add: io_bind_def)

subsection \<open>What a front end is given\<close>

text \<open>The \<open>NextHop\<close> a front end dials through, as it is handed to \<open>serve\<close>.\<close>

record 's hop_ops =
  hp_dial :: "'s \<Rightarrow> host \<Rightarrow> port \<Rightarrow> decision \<Rightarrow> 's \<times> conn dialled"
  hp_verdict :: "'s \<Rightarrow> health_state"

text \<open>
  What the library does with two open connections: relay both ways until both end, and pass up to a
  number of bytes of the first to the second while the second answers.
\<close>

record relays =
  rl_both :: "conn \<Rightarrow> conn \<Rightarrow> conn \<times> conn \<times> (io_error, unit) res"
  rl_limited :: "nat \<Rightarrow> conn \<Rightarrow> conn \<Rightarrow> conn \<times> conn \<times> (io_error, unit) res"

text \<open>How long the dial took and how long the connection lasted.\<close>

record timing =
  tm_dial :: duration
  tm_total :: duration

text \<open>How one routed connection ended: both ends, the hop, and the record of the connection.\<close>

record 's relayed =
  re_client :: conn
  re_next :: "conn option"
  re_hop :: 's
  re_routed :: routed_conn
  re_result :: "(io_error, unit) res"

record 's served =
  so_client :: conn
  so_next :: "conn option"
  so_hop :: 's
  so_events :: "event_view list"
  so_result :: "(io_error, unit) res"

definition failure_of :: "(io_error, unit) res \<Rightarrow> io_error option" where
  "failure_of result = (case result of Inl e \<Rightarrow> Some e | Inr _ \<Rightarrow> None)"

text \<open>\<open>routed.ended\<close> at the end of every \<open>serve\<close>: one event, whatever the result.\<close>

definition serve_ended :: "'s relayed \<Rightarrow> duration \<Rightarrow> 's served" where
  "serve_ended r elapsed =
     \<lparr> so_client = re_client r, so_next = re_next r, so_hop = re_hop r,
       so_events = [routed_ended (re_routed r) elapsed (failure_of (re_result r))],
       so_result = re_result r \<rparr>"

text \<open>A connection closed before anything was routed.\<close>

definition unrouted :: "'s \<Rightarrow> conn \<times> (io_error, unit) res \<Rightarrow> 's served" where
  "unrouted hop ended =
     \<lparr> so_client = fst ended, so_next = None, so_hop = hop, so_events = [], so_result = snd ended \<rparr>"

subsection \<open>The forward front end\<close>

definition forward_refuse_loop :: "conn \<Rightarrow> 's \<Rightarrow> socket_addr \<Rightarrow> routed_conn \<Rightarrow> 's relayed" where
  "forward_refuse_loop client hop listening rt =
     \<lparr> re_client = client, re_next = None, re_hop = hop,
       re_routed = routed_dialled rt ConnectRefused,
       re_result = Err (io_of_dials_itself \<lparr> di_listening = listening \<rparr>) \<rparr>"

definition forward_relay ::
  "'s hop_ops \<Rightarrow> relays \<Rightarrow> duration \<Rightarrow> conn \<Rightarrow> host \<Rightarrow> port \<Rightarrow> decision \<Rightarrow> 's \<Rightarrow> routed_conn
     \<Rightarrow> 's relayed" where
  "forward_relay ops io took client host port decision hop rt =
     (let (hop, dialled) = hp_dial ops hop host port decision;
          (connect, dialled) = dialled_timed dialled took;
          rt = routed_dialled rt connect
      in case dialled of
           Inl failure \<Rightarrow>
             \<lparr> re_client = client, re_next = None, re_hop = hop, re_routed = rt,
               re_result = Err failure \<rparr>
         | Inr next \<Rightarrow>
             (let (client, next, result) = rl_both io client next
              in \<lparr> re_client = client, re_next = Some next, re_hop = hop, re_routed = rt,
                   re_result = result \<rparr>))"

definition forward_serve ::
  "('net, 'a) ipnet_scheme \<Rightarrow> 's hop_ops \<Rightarrow> relays \<Rightarrow> timing \<Rightarrow> 'net ruleset \<Rightarrow> conn \<Rightarrow> 's \<Rightarrow> target
     \<Rightarrow> 's served" where
  "forward_serve net ops io tm rules client hop target =
     (let host = t_host target; port = t_port target;
          decision = decide net rules host port;
          rt = routed_begun (hp_verdict ops hop) host port decision
      in serve_ended
           (case own_address (cn_local client) host port of
              Own listening \<Rightarrow> forward_refuse_loop client hop listening rt
            | Elsewhere \<Rightarrow> forward_relay ops io (tm_dial tm) client host port decision hop rt)
           (tm_total tm))"

subsection \<open>Reads do not depend on how the bytes arrive\<close>

definition conn_bytes :: "conn \<Rightarrow> string" where
  "conn_bytes c = concat (cn_in c)"

text \<open>A read never comes back empty while there are bytes to come.\<close>

definition wf_conn :: "conn \<Rightarrow> bool" where
  "wf_conn c \<longleftrightarrow> list_all (\<lambda>chunk. chunk \<noteq> []) (cn_in c)"

text \<open>Two connections that differ at most in how the bytes to come are cut into reads.\<close>

definition same_stream :: "conn \<Rightarrow> conn \<Rightarrow> bool" where
  "same_stream c d \<longleftrightarrow>
     conn_bytes c = conn_bytes d \<and> cn_failed c = cn_failed d \<and> cn_local c = cn_local d
     \<and> cn_out c = cn_out d \<and> cn_writes c = cn_writes d"

definition after_read :: "conn \<Rightarrow> nat \<Rightarrow> conn \<Rightarrow> bool" where
  "after_read c n c' \<longleftrightarrow>
     wf_conn c' \<and> conn_bytes c' = drop n (conn_bytes c) \<and> cn_failed c' = cn_failed c
     \<and> cn_local c' = cn_local c \<and> cn_out c' = cn_out c \<and> cn_writes c' = cn_writes c"

lemma conn_read_some:
  assumes "wf_conn c" and "cn_in c = chunk # rest" and "0 < n"
  obtains c' where "conn_read c n = (c', Ok (take n chunk))"
    and "after_read c (length (take n chunk)) c'" and "take n chunk \<noteq> []"
proof -
  have "chunk \<noteq> []" using assms(1,2) by (simp add: wf_conn_def)
  with assms show ?thesis
    by (intro that) (auto simp: conn_read_def after_read_def wf_conn_def conn_bytes_def)
qed

lemma after_read_trans: "after_read c n c' \<Longrightarrow> after_read c' m c'' \<Longrightarrow> after_read c (n + m) c''"
  by (simp add: after_read_def add.commute)

text \<open>\<open>read_exact\<close> takes the next bytes of the stream, or fails with the stream used up.\<close>

lemma read_exact_enough:
  "wf_conn c \<Longrightarrow> n \<le> length (conn_bytes c) \<Longrightarrow>
     \<exists>c'. read_exact c n = (c', Ok (take n (conn_bytes c))) \<and> after_read c n c'"
proof (induction n arbitrary: c rule: less_induct)
  case (less n)
  show ?case
  proof (cases "n = 0")
    case True
    with less.prems show ?thesis by (simp add: read_exact.simps after_read_def)
  next
    case False
    with less.prems obtain chunk rest where chunks: "cn_in c = chunk # rest"
      by (cases "cn_in c") (auto simp: conn_bytes_def)
    obtain c1 where read: "conn_read c n = (c1, Ok (take n chunk))"
      and after: "after_read c (length (take n chunk)) c1" and got: "take n chunk \<noteq> []"
      using conn_read_some [OF less.prems(1) chunks] False by blast
    let ?k = "length (take n chunk)"
    from got have k: "0 < ?k" "?k \<le> n" by auto
    have left: "n - ?k \<le> length (conn_bytes c1)"
      using after less.prems(2) by (simp add: after_read_def)
    obtain c2 where c2: "read_exact c1 (n - ?k) = (c2, Ok (take (n - ?k) (conn_bytes c1)))"
      "after_read c1 (n - ?k) c2"
      using less.IH [of "n - ?k" c1] k left after by (auto simp: after_read_def)
    from got obtain b bytes where bs: "take n chunk = b # bytes" by (cases "take n chunk") auto
    have "take n (conn_bytes c) = take n chunk @ take (n - ?k) (conn_bytes c1)"
    proof -
      have "conn_bytes c1 = drop ?k (conn_bytes c)" using after by (simp add: after_read_def)
      moreover have "take ?k (conn_bytes c) = take n chunk"
        by (simp add: conn_bytes_def chunks min_def)
      ultimately show ?thesis using k(2) by (metis le_add_diff_inverse take_add)
    qed
    with False read c2 bs have "read_exact c n = (c2, Ok (take n (conn_bytes c)))"
      by (subst read_exact.simps) simp
    with after_read_trans [OF after c2(2)] k(2) show ?thesis by auto
  qed
qed


lemma read_exact_short:
  "wf_conn c \<Longrightarrow> length (conn_bytes c) < n \<Longrightarrow>
     \<exists>c'. read_exact c n =
       (c', Err (case cn_failed c of None \<Rightarrow> unexpected_eof | Some e \<Rightarrow> e))
     \<and> after_read c (length (conn_bytes c)) c'"
proof (induction n arbitrary: c rule: less_induct)
  case (less n)
  show ?case
  proof (cases "cn_in c")
    case Nil
    with less.prems show ?thesis
      by (subst read_exact.simps)
        (auto simp: conn_read_def conn_bytes_def after_read_def wf_conn_def split: option.splits)
  next
    case (Cons chunk rest)
    from less.prems have n: "0 < n" by simp
    obtain c1 where read: "conn_read c n = (c1, Ok (take n chunk))"
      and after: "after_read c (length (take n chunk)) c1" and got: "take n chunk \<noteq> []"
      using conn_read_some [OF less.prems(1) Cons] n by blast
    let ?k = "length (take n chunk)"
    from got have k: "0 < ?k" by simp
    have le: "?k \<le> length (conn_bytes c)" by (simp add: conn_bytes_def Cons)
    have wf1: "wf_conn c1" using after by (simp add: after_read_def)
    from le less.prems(2) after have short: "length (conn_bytes c1) < n - ?k"
      by (simp add: after_read_def)
    obtain c2 where c2: "read_exact c1 (n - ?k) =
        (c2, Err (case cn_failed c1 of None \<Rightarrow> unexpected_eof | Some e \<Rightarrow> e))"
      "after_read c1 (length (conn_bytes c1)) c2"
      using less.IH [OF _ wf1 short] k n by fastforce
    from got obtain b bytes where bs: "take n chunk = b # bytes" by (cases "take n chunk") auto
    have "?k + length (conn_bytes c1) = length (conn_bytes c)"
      using after le by (simp add: after_read_def)
    with after_read_trans [OF after c2(2)] have "after_read c (length (conn_bytes c)) c2" by simp
    moreover have "cn_failed c1 = cn_failed c" using after by (simp add: after_read_def)
    ultimately show ?thesis
      using n read c2(1) bs by (subst read_exact.simps) simp
  qed
qed

text \<open>Whatever a read comes back with, it writes nothing.\<close>

definition only_read :: "conn \<Rightarrow> conn \<Rightarrow> bool" where
  "only_read c c' \<longleftrightarrow>
     cn_local c' = cn_local c \<and> cn_out c' = cn_out c \<and> cn_writes c' = cn_writes c
     \<and> cn_failed c' = cn_failed c"

lemma only_read_refl [simp]: "only_read c c"
  by (simp add: only_read_def)

lemma only_read_trans: "only_read c c' \<Longrightarrow> only_read c' c'' \<Longrightarrow> only_read c c''"
  by (simp add: only_read_def)

lemma conn_read_only [simp]: "only_read c (fst (conn_read c n))"
  by (simp add: conn_read_def only_read_def split: list.split)

lemma read_exact_only: "only_read c (fst (read_exact c n))"
proof (induction n arbitrary: c rule: less_induct)
  case (less n)
  obtain c1 r where read: "conn_read c n = (c1, r)" by (cases "conn_read c n")
  then have only: "only_read c c1" using conn_read_only [of c n] by simp
  show ?case
  proof (cases "n = 0 \<or> r = Inr [] \<or> isl r")
    case True
    with only read show ?thesis
      by (subst read_exact.simps) (cases r; auto)
  next
    case False
    then obtain b bytes where r: "r = Inr (b # bytes)" by (cases r) (auto simp: neq_Nil_conv)
    obtain c2 q where more: "read_exact c1 (n - length (b # bytes)) = (c2, q)" by fastforce
    have "only_read c1 c2" using less.IH [of "n - length (b # bytes)" c1] False more by simp
    with only have "only_read c c2" by (rule only_read_trans)
    with False read r more show ?thesis
      by (subst read_exact.simps) (cases q; simp)
  qed
qed

lemma io_bind_only:
  "only_read c (fst r) \<Longrightarrow> (\<And>c' x. only_read c c' \<Longrightarrow> only_read c (fst (f c' x))) \<Longrightarrow>
     only_read c (fst (io_bind r f))"
  by (auto simp: io_bind_def split: prod.splits sum.splits)

lemma read_exact_bind_only:
  "only_read c d \<Longrightarrow> (\<And>c' x. only_read c c' \<Longrightarrow> only_read c (fst (f c' x))) \<Longrightarrow>
     only_read c (fst (io_bind (read_exact d n) f))"
  by (rule io_bind_only) (blast intro: only_read_trans read_exact_only)+

subsection \<open>The contract of a front end\<close>

text \<open>The end of every \<open>serve\<close>, once a destination is known: guard, dial or refuse, one event.\<close>

definition serve_routed ::
  "(conn \<Rightarrow> 's \<Rightarrow> socket_addr \<Rightarrow> routed_conn \<Rightarrow> 's relayed)
     \<Rightarrow> (conn \<Rightarrow> host \<Rightarrow> port \<Rightarrow> decision \<Rightarrow> 's \<Rightarrow> routed_conn \<Rightarrow> 's relayed)
     \<Rightarrow> health_state \<Rightarrow> duration \<Rightarrow> conn \<Rightarrow> host \<Rightarrow> port \<Rightarrow> decision \<Rightarrow> 's \<Rightarrow> 's served" where
  "serve_routed refuse relay up lasted client host port decision hop =
     (let rt = routed_begun up host port decision in
      serve_ended
        (case own_address (cn_local client) host port of
           Own listening \<Rightarrow> refuse client hop listening rt
         | Elsewhere \<Rightarrow> relay client host port decision hop rt)
        lasted)"

text \<open>What the event of a connection says of the routing and of the end.\<close>

definition event_about ::
  "event_view \<Rightarrow> host \<Rightarrow> port \<Rightarrow> decision \<Rightarrow> health_state \<Rightarrow> duration \<Rightarrow> (io_error, unit) res \<Rightarrow> bool"
where
  "event_about ev host port decision up lasted result \<longleftrightarrow>
     ev_host ev = host \<and> ev_port ev = port \<and> ev_decision ev = decision_kind decision
     \<and> ev_rule_index ev = matched_index decision \<and> ev_class ev = decision_class decision
     \<and> ev_upstream ev = up \<and> ev_duration_ms ev = millis lasted
     \<and> ev_error ev = map_option ie_text (failure_of result)"

text \<open>What it says of the dial: the route, the carrying upstream and the cost, as the dial told them.\<close>

definition event_of_dial :: "event_view \<Rightarrow> 'stream dialled \<Rightarrow> duration \<Rightarrow> bool" where
  "event_of_dial ev d took \<longleftrightarrow>
     ev_hop ev = reported_hop d \<and> ev_via ev = reported_via d
     \<and> ev_connect_ms ev = (if refusal d = None then Some (millis took) else None)"

definition event_undialled :: "event_view \<Rightarrow> bool" where
  "event_undialled ev \<longleftrightarrow> ev_hop ev = None \<and> ev_via ev = None \<and> ev_connect_ms ev = None"

text \<open>The connection a dial produced, or its failure.\<close>

definition dial_result :: "'stream dialled \<Rightarrow> (io_error, 'stream) res" where
  "dial_result d = (case d of DialRefused e \<Rightarrow> Err e | DialAttempted hop via next \<Rightarrow> next)"

lemma snd_dialled_timed [simp]: "snd (dialled_timed d took) = dial_result d"
  by (cases d) (simp_all add: dialled_timed_def dial_result_def)

text \<open>
  The laws a front end keeps: a loop is refused without a dial, and a destination is dialled exactly
  once, its cost recorded, and relayed only over the connection that dial made.
\<close>

locale front_end =
  fixes dial :: "'s \<Rightarrow> host \<Rightarrow> port \<Rightarrow> decision \<Rightarrow> 's \<times> conn dialled"
    and took :: duration
    and refuse_loop :: "conn \<Rightarrow> 's \<Rightarrow> socket_addr \<Rightarrow> routed_conn \<Rightarrow> 's relayed"
    and relay :: "conn \<Rightarrow> host \<Rightarrow> port \<Rightarrow> decision \<Rightarrow> 's \<Rightarrow> routed_conn \<Rightarrow> 's relayed"
  assumes loop_hop: "re_hop (refuse_loop c s a rt) = s"
    and loop_next: "re_next (refuse_loop c s a rt) = None"
    and loop_routed: "re_routed (refuse_loop c s a rt) = routed_dialled rt ConnectRefused"
    and loop_failed: "failure_of (re_result (refuse_loop c s a rt)) \<noteq> None"
    and relay_hop: "re_hop (relay c h p d s rt) = fst (dial s h p d)"
    and relay_routed: "re_routed (relay c h p d s rt) =
      routed_dialled rt (fst (dialled_timed (snd (dial s h p d)) took))"
    and relay_failed: "dial_result (snd (dial s h p d)) = Inl e \<Longrightarrow>
      re_next (relay c h p d s rt) = None \<and> failure_of (re_result (relay c h p d s rt)) \<noteq> None"
begin

abbreviation serve where "serve \<equiv> serve_routed refuse_loop relay"

lemma loop_contract:
  assumes "own_address (cn_local c) h p = Own a"
  shows "so_hop (serve up lasted c h p d s) = s \<and> so_next (serve up lasted c h p d s) = None
    \<and> failure_of (so_result (serve up lasted c h p d s)) \<noteq> None
    \<and> (\<exists>ev. so_events (serve up lasted c h p d s) = [ev] \<and> event_undialled ev
         \<and> event_about ev h p d up lasted (so_result (serve up lasted c h p d s)))"
  using assms loop_hop loop_next loop_failed
  by (auto simp: serve_routed_def serve_ended_def loop_routed routed_ended_def routed_dialled_def
      routed_begun_def event_undialled_def event_about_def Let_def)

lemma dial_contract:
  assumes "own_address (cn_local c) h p = Elsewhere" and "dial s h p d = (s', dl)"
  shows "so_hop (serve up lasted c h p d s) = s'
    \<and> (\<exists>ev. so_events (serve up lasted c h p d s) = [ev] \<and> event_of_dial ev dl took
         \<and> event_about ev h p d up lasted (so_result (serve up lasted c h p d s)))
    \<and> (\<forall>e. dial_result dl = Inl e \<longrightarrow> so_next (serve up lasted c h p d s) = None
         \<and> failure_of (so_result (serve up lasted c h p d s)) \<noteq> None)"
proof -
  have "event_of_dial (routed_ended (routed_dialled (routed_begun up h p d)
      (fst (dialled_timed dl took))) lasted f) dl took" for f
    by (cases dl) (simp_all add: event_of_dial_def routed_ended_def routed_dialled_def
        routed_begun_def dialled_timed_def reported_hop_def reported_via_def refusal_def)
  moreover have "event_about (routed_ended (routed_dialled (routed_begun up h p d)
      (fst (dialled_timed dl took))) lasted (failure_of r)) h p d up lasted r" for r
    by (cases dl) (simp_all add: event_about_def routed_ended_def routed_dialled_def
        routed_begun_def dialled_timed_def)
  ultimately show ?thesis
    using assms relay_hop [of c h p d s] relay_routed [of c h p d s] relay_failed [of s h p d]
    by (auto simp: serve_routed_def serve_ended_def Let_def)
qed

end

interpretation fwd_end: front_end "hp_dial ops" took forward_refuse_loop "forward_relay ops io took"
  by unfold_locales
    (auto simp: forward_refuse_loop_def forward_relay_def failure_of_def dialled_timed_def
      dial_result_def Let_def split: prod.splits dialled.splits sum.splits)

lemma forward_serve_routed:
  "forward_serve net ops io tm rules client hop target =
     serve_routed forward_refuse_loop (forward_relay ops io (tm_dial tm)) (hp_verdict ops hop)
       (tm_total tm) client (t_host target) (t_port target)
       (decide net rules (t_host target) (t_port target)) hop"
  by (simp add: forward_serve_def serve_routed_def Let_def)


subsection \<open>Properties\<close>

text \<open>A connection of a forward front end.  It leaves exactly one event, about the forward's
  destination and the decision made for it.  A forward aimed at its own listening address is refused
  without a dial; any other is dialled once, the event reports the route, the carrying upstream and
  the cost that dial reported, a failed dial closes the client with nothing written to it, and bytes
  are relayed only over the connection the dial made.\<close>

theorem forward_serve_contract:
  "let r = forward_serve net ops io tm rules client hop target;
       host = t_host target; port = t_port target; decision = decide net rules host port
   in \<exists>ev. so_events r = [ev]
      \<and> event_about ev host port decision (hp_verdict ops hop) (tm_total tm) (so_result r)
      \<and> (case own_address (cn_local client) host port of
           Own a \<Rightarrow> so_hop r = hop \<and> so_next r = None \<and> so_client r = client \<and> event_undialled ev
             \<and> so_result r = Err (io_of_dials_itself \<lparr> di_listening = a \<rparr>)
         | Elsewhere \<Rightarrow>
             (case hp_dial ops hop host port decision of
                (hop', d) \<Rightarrow> so_hop r = hop' \<and> event_of_dial ev d (tm_dial tm)
                  \<and> (case dial_result d of
                       Inl e \<Rightarrow> so_result r = Err e \<and> so_client r = client \<and> so_next r = None
                     | Inr next \<Rightarrow>
                         (so_client r, the (so_next r), so_result r) = rl_both io client next)))"
proof (cases "own_address (cn_local client) (t_host target) (t_port target)")
  case (Own a)
  from fwd_end.loop_contract [OF this] Own show ?thesis
    by (fastforce simp: forward_serve_routed Let_def serve_routed_def serve_ended_def
        forward_refuse_loop_def)
next
  case Elsewhere
  obtain s' d where dial: "hp_dial ops hop (t_host target) (t_port target)
      (decide net rules (t_host target) (t_port target)) = (s', d)" by fastforce
  from fwd_end.dial_contract [OF Elsewhere dial, of io "tm_dial tm" "hp_verdict ops hop" "tm_total tm"]
  obtain ev where ev: "so_events (forward_serve net ops io tm rules client hop target) = [ev]"
    "event_of_dial ev d (tm_dial tm)"
    "event_about ev (t_host target) (t_port target) (decide net rules (t_host target) (t_port target))
      (hp_verdict ops hop) (tm_total tm) (so_result (forward_serve net ops io tm rules client hop target))"
    by (auto simp: forward_serve_routed)
  moreover have "dial_result d = snd (dialled_timed d (tm_dial tm))" by simp
  ultimately show ?thesis
    using Elsewhere dial
    by (auto simp: forward_serve_routed serve_routed_def serve_ended_def forward_relay_def Let_def
        simp del: snd_dialled_timed split: prod.splits sum.splits)
qed

end
