(* ===== verification/Socks5.thy ===== *)
theory Socks5
  imports Conn
begin

section \<open>The SOCKS5 front end: \<open>proxy/socks5.rs\<close>\<close>

text \<open>
  A byte of the protocol is a character; \<open>byte\<close> reads it as a number.  The steps read from and write
  to the client connection and thread it.
\<close>

definition byte :: "char \<Rightarrow> nat" where "byte c = of_char c"

definition VERSION :: char where "VERSION = CHR 0x05"
definition NO_AUTH :: char where "NO_AUTH = CHR 0x00"
definition NO_ACCEPTABLE_METHOD :: char where "NO_ACCEPTABLE_METHOD = CHR 0xFF"
definition RESERVED :: char where "RESERVED = CHR 0x00"
definition CONNECT :: char where "CONNECT = CHR 0x01"
definition ATYP_IPV4 :: char where "ATYP_IPV4 = CHR 0x01"
definition ATYP_DOMAIN :: char where "ATYP_DOMAIN = CHR 0x03"
definition ATYP_IPV6 :: char where "ATYP_IPV6 = CHR 0x04"

datatype greeting = NoAuth | Rejected

datatype reply =
    Granted | Failure | NotAllowed | ReplyHostUnreachable | ReplyCommandNotSupported | AddressNotSupported

fun reply_code :: "reply \<Rightarrow> char" where
  "reply_code Granted = CHR 0x00"
| "reply_code Failure = CHR 0x01"
| "reply_code NotAllowed = CHR 0x02"
| "reply_code ReplyHostUnreachable = CHR 0x04"
| "reply_code ReplyCommandNotSupported = CHR 0x07"
| "reply_code AddressNotSupported = CHR 0x08"

datatype requested = ReqConnect host port | ReqRefused reply

definition of_octets4 :: "string \<Rightarrow> ipv4" where
  "of_octets4 o4 =
     IPv4 (of_nat (byte (o4 ! 0))) (of_nat (byte (o4 ! 1))) (of_nat (byte (o4 ! 2)))
       (of_nat (byte (o4 ! 3)))"

definition be_u16 :: "char \<Rightarrow> char \<Rightarrow> u16" where
  "be_u16 hi lo = of_nat (byte hi * 256 + byte lo)"

definition of_octets16 :: "string \<Rightarrow> ipv6" where
  "of_octets16 os =
     IPv6 (be_u16 (os ! 0) (os ! 1)) (be_u16 (os ! 2) (os ! 3)) (be_u16 (os ! 4) (os ! 5))
       (be_u16 (os ! 6) (os ! 7)) (be_u16 (os ! 8) (os ! 9)) (be_u16 (os ! 10) (os ! 11))
       (be_u16 (os ! 12) (os ! 13)) (be_u16 (os ! 14) (os ! 15))"

subsection \<open>Greeting and request\<close>

definition greet :: "conn \<Rightarrow> conn \<times> (io_error, greeting) res" where
  "greet client =
     io_bind (read_exact client 2) (\<lambda>client greeting.
       if greeting ! 0 \<noteq> VERSION then (client, Ok Rejected)
       else
         io_bind (read_exact client (byte (greeting ! 1))) (\<lambda>client offered.
           (client, Ok (if NO_AUTH \<in> set offered then NoAuth else Rejected))))"

definition request_port :: "conn \<Rightarrow> host \<Rightarrow> conn \<times> (io_error, requested) res" where
  "request_port client host =
     io_bind (read_exact client 2) (\<lambda>client port.
       (client, Ok (ReqConnect host (be_u16 (port ! 0) (port ! 1)))))"

definition request :: "conn \<Rightarrow> conn \<times> (io_error, requested) res" where
  "request client =
     io_bind (read_exact client 4) (\<lambda>client head.
       if head ! 0 \<noteq> VERSION then (client, Ok (ReqRefused Failure))
       else if head ! 1 \<noteq> CONNECT then (client, Ok (ReqRefused ReplyCommandNotSupported))
       else if head ! 3 = ATYP_IPV4 then
         io_bind (read_exact client 4) (\<lambda>client octets.
           request_port client (show_ipv4 (of_octets4 octets)))
       else if head ! 3 = ATYP_DOMAIN then
         io_bind (read_exact client 1) (\<lambda>client len.
           io_bind (read_exact client (byte (len ! 0))) (\<lambda>client name.
             if \<not> utf8 name then (client, Ok (ReqRefused Failure))
             else if name = [] then (client, Ok (ReqRefused Failure))
             else request_port client name))
       else if head ! 3 = ATYP_IPV6 then
         io_bind (read_exact client 16) (\<lambda>client octets.
           request_port client (show_ipv6 (of_octets16 octets)))
       else (client, Ok (ReqRefused AddressNotSupported)))"

subsection \<open>Answers\<close>

definition refusal_reply :: "io_error \<Rightarrow> reply" where
  "refusal_reply failure =
     (case carried_by failure of None \<Rightarrow> Failure | Some down \<Rightarrow> ReplyHostUnreachable)"

definition socks_chosen :: "conn \<Rightarrow> char \<Rightarrow> conn \<times> (io_error, unit) res" where
  "socks_chosen client method = write_all client [VERSION, method]"

definition answer_bytes :: "reply \<Rightarrow> string" where
  "answer_bytes reply =
     [VERSION, reply_code reply, RESERVED, ATYP_IPV4, CHR 0x00, CHR 0x00, CHR 0x00, CHR 0x00,
      CHR 0x00, CHR 0x00]"

definition socks_answer :: "conn \<Rightarrow> reply \<Rightarrow> conn \<times> (io_error, unit) res" where
  "socks_answer client reply = write_all client (answer_bytes reply)"

subsection \<open>Serving\<close>

definition socks_refuse_loop :: "conn \<Rightarrow> 's \<Rightarrow> socket_addr \<Rightarrow> routed_conn \<Rightarrow> 's relayed" where
  "socks_refuse_loop client hop listening rt =
     (let (client, answered) = socks_answer client NotAllowed
      in \<lparr> re_client = client, re_next = None, re_hop = hop,
           re_routed = routed_dialled rt ConnectRefused,
           re_result = (case answered of
                          Inl e \<Rightarrow> Err e
                        | Inr _ \<Rightarrow> Err (io_of_dials_itself \<lparr> di_listening = listening \<rparr>)) \<rparr>)"

definition socks_relay ::
  "'s hop_ops \<Rightarrow> relays \<Rightarrow> duration \<Rightarrow> conn \<Rightarrow> host \<Rightarrow> port \<Rightarrow> decision \<Rightarrow> 's \<Rightarrow> routed_conn
     \<Rightarrow> 's relayed" where
  "socks_relay ops io took client host port decision hop rt =
     (let (hop, dialled) = hp_dial ops hop host port decision;
          (connect, dialled) = dialled_timed dialled took;
          rt = routed_dialled rt connect
      in case dialled of
           Inl failure \<Rightarrow>
             (let (client, answered) = socks_answer client (refusal_reply failure)
              in \<lparr> re_client = client, re_next = None, re_hop = hop, re_routed = rt,
                   re_result = (case answered of Inl e \<Rightarrow> Err e | Inr _ \<Rightarrow> Err failure) \<rparr>)
         | Inr next \<Rightarrow>
             (case socks_answer client Granted of
                (client, Inl e) \<Rightarrow>
                  \<lparr> re_client = client, re_next = Some next, re_hop = hop, re_routed = rt,
                    re_result = Err e \<rparr>
              | (client, Inr _) \<Rightarrow>
                  (let (client, next, result) = rl_both io client next
                   in \<lparr> re_client = client, re_next = Some next, re_hop = hop, re_routed = rt,
                        re_result = result \<rparr>)))"

definition socks_serve ::
  "('net, 'a) ipnet_scheme \<Rightarrow> 's hop_ops \<Rightarrow> relays \<Rightarrow> timing \<Rightarrow> 'net ruleset \<Rightarrow> conn \<Rightarrow> 's
     \<Rightarrow> 's served" where
  "socks_serve net ops io tm rules client hop =
     (case greet client of
        (client, Inl e) \<Rightarrow> unrouted hop (client, Err e)
      | (client, Inr Rejected) \<Rightarrow> unrouted hop (socks_chosen client NO_ACCEPTABLE_METHOD)
      | (client, Inr NoAuth) \<Rightarrow>
          (case socks_chosen client NO_AUTH of
             (client, Inl e) \<Rightarrow> unrouted hop (client, Err e)
           | (client, Inr _) \<Rightarrow>
               (case request client of
                  (client, Inl e) \<Rightarrow> unrouted hop (client, Err e)
                | (client, Inr (ReqRefused reply)) \<Rightarrow> unrouted hop (socks_answer client reply)
                | (client, Inr (ReqConnect host port)) \<Rightarrow>
                    (let decision = decide net rules host port;
                         rt = routed_begun (hp_verdict ops hop) host port decision
                     in serve_ended
                          (case own_address (cn_local client) host port of
                             Own listening \<Rightarrow> socks_refuse_loop client hop listening rt
                           | Elsewhere \<Rightarrow>
                               socks_relay ops io (tm_dial tm) client host port decision hop rt)
                          (tm_total tm)))))"

interpretation socks_end: front_end "hp_dial ops" took socks_refuse_loop "socks_relay ops io took"
  by unfold_locales
    (auto simp: socks_refuse_loop_def socks_relay_def failure_of_def dialled_timed_def
      dial_result_def Let_def split: prod.splits dialled.splits sum.splits)


subsection \<open>The request on the wire\<close>

text \<open>The encoding of RFC 1928, as a client writes it.\<close>

datatype socks_address = AddrV4 ipv4 | AddrName string | AddrV6 ipv6

fun spelled :: "socks_address \<Rightarrow> host" where
  "spelled (AddrV4 a) = show_ipv4 a"
| "spelled (AddrName name) = name"
| "spelled (AddrV6 a) = show_ipv6 a"

definition char_of_u8 :: "u8 \<Rightarrow> char" where "char_of_u8 w = char_of (unat w)"

definition be_bytes :: "u16 \<Rightarrow> string" where
  "be_bytes w = [char_of_u8 (hi_byte w), char_of_u8 (lo_byte w)]"

fun encode_address :: "socks_address \<Rightarrow> string" where
  "encode_address (AddrV4 (IPv4 a b c d)) = ATYP_IPV4 # map char_of_u8 [a, b, c, d]"
| "encode_address (AddrName name) = ATYP_DOMAIN # char_of (length name) # name"
| "encode_address (AddrV6 a) = ATYP_IPV6 # concat (map be_bytes (segments a))"

definition encode_request :: "socks_address \<Rightarrow> port \<Rightarrow> string" where
  "encode_request a port = [VERSION, CONNECT, RESERVED] @ encode_address a @ be_bytes port"

fun encodable :: "socks_address \<Rightarrow> bool" where
  "encodable (AddrName name) = (name \<noteq> [] \<and> length name \<le> 255 \<and> utf8 name)"
| "encodable _ = True"

lemma byte_char_of_u8: "of_nat (byte (char_of_u8 w)) = w"
proof -
  have "unat w < 256" by (rule unat_u8)
  then show ?thesis by (simp add: byte_def char_of_u8_def of_char_mod_256)
qed

lemma byte_char_of_u8_nat: "byte (char_of_u8 w) = unat w"
proof -
  have "unat w < 256" by (rule unat_u8)
  then show ?thesis by (simp add: byte_def char_of_u8_def)
qed

lemma be_u16_be_bytes: "be_u16 (char_of_u8 (hi_byte w)) (char_of_u8 (lo_byte w)) = w"
proof -
  have w: "unat w < 65536" by (rule unat_u16)
  then have "unat (hi_byte w) = unat w div 256" "unat (lo_byte w) = unat w mod 256"
    by (simp_all add: hi_byte_def lo_byte_def unat_of_nat_u8)
  then have "byte (char_of_u8 (hi_byte w)) * 256 + byte (char_of_u8 (lo_byte w)) = unat w"
    by (simp add: byte_char_of_u8_nat)
  then show ?thesis unfolding be_u16_def by simp
qed

lemma of_octets4_encoded: "of_octets4 (map char_of_u8 [a, b, c, d]) = IPv4 a b c d"
  by (simp add: of_octets4_def byte_char_of_u8)

lemma of_octets16_encoded: "of_octets16 (concat (map be_bytes (segments a))) = a"
  by (cases a) (simp add: of_octets16_def be_bytes_def be_u16_be_bytes)

lemma length_encoded_v6: "length (concat (map be_bytes (segments a))) = 16"
  by (cases a) (simp add: be_bytes_def)

text \<open>Reading the bytes of a known prefix off the stream.\<close>

lemma read_exact_prefix:
  assumes "wf_conn c" and "conn_bytes c = xs @ rest" and "length xs = n"
  shows "\<exists>c'. read_exact c n = (c', Ok xs) \<and> wf_conn c' \<and> conn_bytes c' = rest
    \<and> cn_failed c' = cn_failed c \<and> cn_local c' = cn_local c \<and> cn_out c' = cn_out c
    \<and> cn_writes c' = cn_writes c"
  using read_exact_enough [OF assms(1), of n] assms(2,3) by (auto simp: after_read_def)

lemma request_port_read:
  assumes "wf_conn c" and "conn_bytes c = be_bytes p @ rest"
  shows "\<exists>c'. request_port c host = (c', Ok (ReqConnect host p)) \<and> wf_conn c' \<and> conn_bytes c' = rest
    \<and> cn_failed c' = cn_failed c \<and> cn_local c' = cn_local c \<and> cn_out c' = cn_out c
    \<and> cn_writes c' = cn_writes c"
proof -
  obtain c' where "read_exact c 2 = (c', Ok (be_bytes p))" "wf_conn c'" "conn_bytes c' = rest"
    "cn_failed c' = cn_failed c" "cn_local c' = cn_local c" "cn_out c' = cn_out c"
    "cn_writes c' = cn_writes c"
    using read_exact_prefix [OF assms, of 2] by (auto simp: be_bytes_def)
  then show ?thesis by (simp add: request_port_def be_bytes_def be_u16_be_bytes)
qed

lemma request_read:
  assumes wf: "wf_conn c" and bytes: "conn_bytes c = encode_request a p @ rest" and enc: "encodable a"
  shows "\<exists>c'. request c = (c', Ok (ReqConnect (spelled a) p)) \<and> wf_conn c' \<and> conn_bytes c' = rest
    \<and> cn_failed c' = cn_failed c \<and> cn_local c' = cn_local c \<and> cn_out c' = cn_out c
    \<and> cn_writes c' = cn_writes c"
proof -
  obtain atyp addr where addr: "encode_address a = atyp # addr"
    by (cases a rule: encode_address.cases) auto
  have "conn_bytes c = [VERSION, CONNECT, RESERVED, atyp] @ addr @ be_bytes p @ rest"
    by (simp add: bytes encode_request_def addr)
  then obtain c1 where c1: "read_exact c 4 = (c1, Ok [VERSION, CONNECT, RESERVED, atyp])" "wf_conn c1"
    "conn_bytes c1 = addr @ be_bytes p @ rest" "cn_failed c1 = cn_failed c"
    "cn_local c1 = cn_local c" "cn_out c1 = cn_out c" "cn_writes c1 = cn_writes c"
    using read_exact_prefix [OF wf, of "[VERSION, CONNECT, RESERVED, atyp]" _ 4] by auto
  note heads = CONNECT_def ATYP_IPV4_def ATYP_DOMAIN_def ATYP_IPV6_def VERSION_def RESERVED_def
  show ?thesis
  proof (cases a)
    case (AddrV4 v)
    obtain x y z w where v: "v = IPv4 x y z w" by (cases v)
    with AddrV4 addr have "addr = map char_of_u8 [x, y, z, w]" and atyp: "atyp = ATYP_IPV4" by auto
    then obtain c2 where c2: "read_exact c1 4 = (c2, Ok (map char_of_u8 [x, y, z, w]))" "wf_conn c2"
      "conn_bytes c2 = be_bytes p @ rest" "cn_failed c2 = cn_failed c1"
      "cn_local c2 = cn_local c1" "cn_out c2 = cn_out c1" "cn_writes c2 = cn_writes c1"
      using read_exact_prefix [OF c1(2,3), of 4] by auto
    with request_port_read [OF c2(2,3), of "show_ipv4 v"] c1 AddrV4 v show ?thesis
      unfolding request_def c1(1) io_bind_simps
      by (simp add: heads atyp of_octets4_encoded [unfolded list.map])
  next
    case (AddrName name)
    with addr have "addr = char_of (length name) # name" and atyp: "atyp = ATYP_DOMAIN" by auto
    with c1(3) have b1: "conn_bytes c1 = [char_of (length name)] @ name @ be_bytes p @ rest" by simp
    from AddrName enc have len: "byte (char_of (length name)) = length name"
      by (simp add: byte_def)
    obtain c2 where c2: "read_exact c1 1 = (c2, Ok [char_of (length name)])" "wf_conn c2"
      "conn_bytes c2 = name @ be_bytes p @ rest" "cn_failed c2 = cn_failed c1"
      "cn_local c2 = cn_local c1" "cn_out c2 = cn_out c1" "cn_writes c2 = cn_writes c1"
      using read_exact_prefix [OF c1(2) b1, of 1] by auto
    obtain c3 where c3: "read_exact c2 (length name) = (c3, Ok name)" "wf_conn c3"
      "conn_bytes c3 = be_bytes p @ rest" "cn_failed c3 = cn_failed c2"
      "cn_local c3 = cn_local c2" "cn_out c3 = cn_out c2" "cn_writes c3 = cn_writes c2"
      using read_exact_prefix [OF c2(2,3) refl] by auto
    from request_port_read [OF c3(2,3), of name] c1 c2 c3 AddrName enc show ?thesis
      unfolding request_def c1(1) io_bind_simps
      by (simp add: heads atyp c2(1) [unfolded One_nat_def] len)
  next
    case (AddrV6 v)
    with addr have "addr = concat (map be_bytes (segments v))" and atyp: "atyp = ATYP_IPV6" by auto
    then obtain c2 where c2: "read_exact c1 16 = (c2, Ok (concat (map be_bytes (segments v))))"
      "wf_conn c2" "conn_bytes c2 = be_bytes p @ rest" "cn_failed c2 = cn_failed c1"
      "cn_local c2 = cn_local c1" "cn_out c2 = cn_out c1" "cn_writes c2 = cn_writes c1"
      using read_exact_prefix [OF c1(2,3), of 16] length_encoded_v6 by auto
    with request_port_read [OF c2(2,3), of "show_ipv6 v"] c1 AddrV6 show ?thesis
      unfolding request_def c1(1) io_bind_simps
      by (simp add: heads atyp of_octets16_encoded)
  qed
qed


subsection \<open>What the client is answered\<close>

lemma greet_only: "only_read c (fst (greet c))"
  unfolding greet_def by (intro read_exact_bind_only) (auto intro!: read_exact_bind_only)

lemma request_only: "only_read c (fst (request c))"
  unfolding request_def request_port_def by (auto intro!: read_exact_bind_only)

lemma write_all_open: "cn_writes c = [] \<Longrightarrow> write_all c bytes = (c\<lparr> cn_out := cn_out c @ bytes \<rparr>, Ok ())"
  by (simp add: write_all_def)

text \<open>The code a request that named a destination is answered with.\<close>

definition socks_reply :: "loop \<Rightarrow> conn dialled \<Rightarrow> reply" where
  "socks_reply guard d =
     (case guard of
        Own a \<Rightarrow> NotAllowed
      | Elsewhere \<Rightarrow>
          (case dial_result d of
             Inr next \<Rightarrow> Granted
           | Inl e \<Rightarrow> (if carried_by e = None then Failure else ReplyHostUnreachable)))"

lemma socks_serve_connect:
  assumes "greet client = (c1, Ok NoAuth)" and "cn_writes client = []"
    and "request (c1\<lparr> cn_out := cn_out client @ [VERSION, NO_AUTH] \<rparr>) = (c2, Ok (ReqConnect host port))"
  shows "socks_serve net ops io tm rules client hop =
    serve_routed socks_refuse_loop (socks_relay ops io (tm_dial tm)) (hp_verdict ops hop) (tm_total tm)
      c2 host port (decide net rules host port) hop"
proof -
  have "cn_writes c1 = []" "cn_out c1 = cn_out client"
    using greet_only [of client] assms(1,2) by (simp_all add: only_read_def)
  with assms show ?thesis
    by (simp add: socks_serve_def socks_chosen_def write_all_open serve_routed_def Let_def)
qed

subsection \<open>Properties\<close>

text \<open>C33: a SOCKS5 request reads back as it was written.  However the bytes are cut into reads, a
  request a client encodes for an IPv4 address, an IPv6 address or a name is read as exactly that
  destination - a name as the client spelled it, unresolved - and the bytes behind it are left for
  the relay.\<close>

theorem request_roundtrip:
  assumes "wf_conn client" and "encodable a"
    and "conn_bytes client = encode_request a port @ behind"
  shows "\<exists>client'. request client = (client', Ok (ReqConnect (spelled a) port))
    \<and> conn_bytes client' = behind \<and> only_read client client'"
  using request_read [OF assms(1,3,2)] by (auto simp: only_read_def)

text \<open>A request for \<open>a.io:443\<close> that arrives in three pieces.\<close>

definition example_request :: conn where
  "example_request =
     \<lparr> cn_in = [[CHR 0x05], [CHR 0x01, CHR 0x00, CHR 0x03, CHR 0x04, CHR ''a''],
               ''.io'' @ [CHR 0x01, CHR 0xBB, CHR ''G'']],
       cn_failed = None, cn_local = None, cn_out = [], cn_writes = [] \<rparr>"

theorem request_roundtrip_witness:
  "snd (request example_request) = Ok (ReqConnect ''a.io'' 443)"
proof -
  have "wf_conn example_request" by (simp add: wf_conn_def example_request_def)
  moreover have "encodable (AddrName ''a.io'')" by code_simp
  moreover have "conn_bytes example_request = encode_request (AddrName ''a.io'') 443 @ ''G''"
    by code_simp
  ultimately obtain c where "request example_request = (c, Ok (ReqConnect (spelled (AddrName ''a.io'')) 443))"
    using request_roundtrip by blast
  then show ?thesis by simp
qed



text \<open>A client that greets and asks for \<open>a.io:443\<close>, and a hop whose upstream is down.\<close>

definition example_client :: conn where
  "example_client =
     example_request\<lparr> cn_in := [CHR 0x05, CHR 0x01] # [CHR 0x00] # cn_in example_request \<rparr>"

definition example_down_error :: io_error where
  "example_down_error = io_of_upstream_down \<lparr> ud_addr = NO_UPSTREAM, ud_rule = 0 \<rparr>"

definition down_ops :: "unit hop_ops" where
  "down_ops =
     \<lparr> hp_dial = (\<lambda>s host port decision. (s, DialRefused example_down_error)), hp_verdict = (\<lambda>s. Down) \<rparr>"

definition example_relays :: relays where
  "example_relays = \<lparr> rl_both = (\<lambda>c n. (c, n, Ok ())), rl_limited = (\<lambda>k c n. (c, n, Ok ())) \<rparr>"

definition example_timing :: timing where
  "example_timing = \<lparr> tm_dial = 0, tm_total = 0 \<rparr>"


end
