(* ===== verification/Http.thy ===== *)
theory Http
  imports Conn
begin

section \<open>The HTTP front end: \<open>proxy/http.rs\<close>\<close>

text \<open>
  A request head is a byte string; the slices the code takes of it are the pieces the splitting
  functions of the prelude return.
\<close>

definition HEAD_LIMIT :: nat where "HEAD_LIMIT = 8192"

definition ESTABLISHED :: string where
  "ESTABLISHED = ''HTTP/1.1 200 Connection established'' @ CRLF @ CRLF"

definition BAD_REQUEST :: string where "BAD_REQUEST = ''400 Bad Request''"
definition BAD_GATEWAY :: string where "BAD_GATEWAY = ''502 Bad Gateway''"
definition DEFAULT_PORT :: port where "DEFAULT_PORT = 80"

definition HOP_BY_HOP :: "string list" where
  "HOP_BY_HOP =
     [''connection'', ''proxy-connection'', ''keep-alive'', ''proxy-authenticate'',
      ''proxy-authorization'', ''te'', ''trailer'', ''upgrade'']"

datatype http_method = MethodConnect | MethodAbsolute

datatype body = Sized nat | Streamed

record http_request =
  rq_method :: http_method
  rq_host :: host
  rq_port :: port
  rq_body :: body

datatype rest = RestBytes nat | RestStreamed

fun rest_limit :: "rest \<Rightarrow> nat" where
  "rest_limit (RestBytes bytes) = clamp64 bytes"
| "rest_limit RestStreamed = u64_max"

record http_forward =
  hf_method :: http_method
  hf_head :: string
  hf_behind :: string
  hf_rest :: rest

subsection \<open>Reading the head\<close>

fun head_end_from :: "nat \<Rightarrow> string \<Rightarrow> nat option" where
  "head_end_from i buffer =
     (if take 4 buffer = CRLF @ CRLF then Some (i + 4)
      else case buffer of [] \<Rightarrow> None | b # rest \<Rightarrow> head_end_from (Suc i) rest)"

definition head_end :: "string \<Rightarrow> nat option" where
  "head_end buffer = head_end_from 0 buffer"

text \<open>The buffer holds what was read so far; \<open>None\<close> is a head that never ends within it.\<close>

function read_head_from :: "conn \<Rightarrow> string \<Rightarrow> conn \<times> (io_error, (nat \<times> string) option) res" where
  "read_head_from client buffer =
     (if HEAD_LIMIT \<le> length buffer then (client, Ok None)
      else
        (case conn_read client (HEAD_LIMIT - length buffer) of
           (client, Inl e) \<Rightarrow> (client, Err e)
         | (client, Inr []) \<Rightarrow> (client, Ok None)
         | (client, Inr (b # bytes)) \<Rightarrow>
             (case head_end (buffer @ b # bytes) of
                None \<Rightarrow> read_head_from client (buffer @ b # bytes)
              | Some end \<Rightarrow> (client, Ok (Some (end, buffer @ b # bytes))))))"
  by pat_completeness auto
termination by (relation "measure (\<lambda>(client, buffer). HEAD_LIMIT - length buffer)") auto

declare read_head_from.simps [simp del]

definition read_head :: "conn \<Rightarrow> conn \<times> (io_error, (nat \<times> string) option) res" where
  "read_head client = read_head_from client []"

subsection \<open>Parsing the head\<close>

fun header_in :: "string list \<Rightarrow> string \<Rightarrow> string option" where
  "header_in [] name = None"
| "header_in (line # headers) name =
     (case split_once (CHR '':'') line of
        None \<Rightarrow> header_in headers name
      | Some (field, v) \<Rightarrow>
          if eq_ignore_ascii_case (trim field) name then Some (trim v) else header_in headers name)"

definition header :: "string \<Rightarrow> string \<Rightarrow> string option" where
  "header headers name = header_in (split_crlf headers) name"

definition body_of :: "string \<Rightarrow> body" where
  "body_of headers =
     (if header headers ''transfer-encoding'' \<noteq> None then Streamed
      else case header headers ''content-length'' of
             None \<Rightarrow> Sized 0
           | Some len \<Rightarrow> (case parse_u64 len of None \<Rightarrow> Sized 0 | Some len \<Rightarrow> Sized len))"

definition HTTP_SCHEME :: string where "HTTP_SCHEME = ''http://''"

definition absolute_authority :: "string \<Rightarrow> string option" where
  "absolute_authority target =
     (case strip_prefix HTTP_SCHEME target of
        None \<Rightarrow> None
      | Some rest \<Rightarrow>
          (case split_once (CHR ''/'') rest of
             None \<Rightarrow> Some rest
           | Some (authority, path) \<Rightarrow> Some authority))"

definition named :: "string \<Rightarrow> port \<Rightarrow> (host \<times> port) option" where
  "named host port = (if host = [] then None else Some (host, port))"

definition split_authority :: "string \<Rightarrow> port option \<Rightarrow> (host \<times> port) option" where
  "split_authority authority fallback =
     (case strip_prefix ''['' authority of
        None \<Rightarrow>
          (case rsplit_once (CHR '':'') authority of
             None \<Rightarrow> Option.bind fallback (named authority)
           | Some (host, port) \<Rightarrow> Option.bind (parse_u16 port) (named host))
      | Some bracketed \<Rightarrow>
          Option.bind (split_once (CHR '']'') bracketed) (\<lambda>(host, rest).
            case strip_prefix '':'' rest of
              None \<Rightarrow> Option.bind fallback (named host)
            | Some port \<Rightarrow> Option.bind (parse_u16 port) (named host)))"

text \<open>The three fields of a request line, when it has exactly three.\<close>

definition three_fields :: "string \<Rightarrow> (string \<times> string \<times> string) option" where
  "three_fields line =
     (case split_char (CHR '' '') line of [a, b, c] \<Rightarrow> Some (a, b, c) | _ \<Rightarrow> None)"

definition parse_head :: "string \<Rightarrow> http_request option" where
  "parse_head head =
     (if \<not> utf8 head then None
      else
        Option.bind (split_once_crlf head) (\<lambda>(line, headers).
        Option.bind (three_fields line) (\<lambda>(meth, target, version).
          if strip_prefix ''HTTP/'' version = None then None
          else if meth = ''CONNECT'' then
            map_option
              (\<lambda>(host, port). \<lparr> rq_method = MethodConnect, rq_host = host, rq_port = port,
                               rq_body = Streamed \<rparr>)
              (split_authority target None)
          else
            Option.bind
              (case absolute_authority target of
                 Some authority \<Rightarrow> Some authority
               | None \<Rightarrow> header headers ''host'')
              (\<lambda>authority.
                map_option
                  (\<lambda>(host, port). \<lparr> rq_method = MethodAbsolute, rq_host = host, rq_port = port,
                                   rq_body = body_of headers \<rparr>)
                  (split_authority authority (Some DEFAULT_PORT))))))"

subsection \<open>Rebuilding the head\<close>

definition origin_form :: "string \<Rightarrow> string" where
  "origin_form target =
     (case strip_prefix HTTP_SCHEME target of
        None \<Rightarrow> target
      | Some rest \<Rightarrow>
          (case dropWhile (\<lambda>c. c \<noteq> CHR ''/'') rest of [] \<Rightarrow> ''/'' | path \<Rightarrow> path))"

definition kept_field :: "string \<Rightarrow> bool" where
  "kept_field field =
     (case split_once (CHR '':'') field of
        None \<Rightarrow> False
      | Some (label, v) \<Rightarrow>
          (let label = to_lowercase (trim label)
           in \<not> (label = ''host'' \<or> label \<in> set HOP_BY_HOP)))"

definition host_text :: "host \<Rightarrow> port \<Rightarrow> string" where
  "host_text host port = host @ (if port \<noteq> 80 then '':'' @ show_u16 port else [])"

definition rewritten :: "string \<Rightarrow> host \<Rightarrow> port \<Rightarrow> string option" where
  "rewritten head host port =
     (if \<not> utf8 head then None
      else
        Option.bind (split_once_crlf head) (\<lambda>(line, headers).
          case split_char (CHR '' '') line of
            meth # target # others \<Rightarrow>
              Some (meth @ '' '' @ origin_form target @ '' HTTP/1.1'' @ CRLF @ ''Host: ''
                @ host_text host port @ CRLF
                @ concat (map (\<lambda>field. field @ CRLF) (filter kept_field (split_crlf headers)))
                @ ''Connection: close'' @ CRLF @ CRLF)
          | _ \<Rightarrow> None))"

subsection \<open>The body\<close>

fun behind_the_head :: "string \<Rightarrow> http_method \<Rightarrow> body \<Rightarrow> string" where
  "behind_the_head rest MethodConnect body = rest"
| "behind_the_head rest MethodAbsolute Streamed = rest"
| "behind_the_head rest MethodAbsolute (Sized len) = take (min len (length rest)) rest"

fun rest_of_body :: "http_method \<Rightarrow> body \<Rightarrow> string \<Rightarrow> rest" where
  "rest_of_body MethodConnect body behind = RestStreamed"
| "rest_of_body MethodAbsolute Streamed behind = RestStreamed"
| "rest_of_body MethodAbsolute (Sized len) behind = RestBytes (len - length behind)"

subsection \<open>Answers\<close>

definition respond_bytes :: "string \<Rightarrow> string \<Rightarrow> string \<times> string" where
  "respond_bytes status body =
     (''HTTP/1.1 '' @ status @ CRLF @ ''Content-Type: text/plain'' @ CRLF @ ''Content-Length: ''
        @ show_nat (length body) @ CRLF @ ''Connection: close'' @ CRLF @ CRLF, body)"

definition respond :: "conn \<Rightarrow> string \<Rightarrow> string \<Rightarrow> conn \<times> (io_error, unit) res" where
  "respond client status body =
     io_bind (write_all client (fst (respond_bytes status body))) (\<lambda>client _.
       write_all client (snd (respond_bytes status body)))"

definition refuse_text :: "io_error \<Rightarrow> host \<Rightarrow> port \<Rightarrow> string" where
  "refuse_text failure host port =
     (case carried_by failure of
        None \<Rightarrow> ''nhop: cannot reach '' @ host @ '':'' @ show_u16 port
      | Some down \<Rightarrow> show_upstream_down down)"

definition refuse :: "conn \<Rightarrow> io_error \<Rightarrow> host \<Rightarrow> port \<Rightarrow> conn \<times> (io_error, unit) res" where
  "refuse client failure host port = respond client BAD_GATEWAY (refuse_text failure host port)"

subsection \<open>Relaying\<close>

definition tunnel :: "relays \<Rightarrow> conn \<Rightarrow> conn \<Rightarrow> string \<Rightarrow> conn \<times> conn \<times> (io_error, unit) res" where
  "tunnel io client next behind =
     (case write_all client ESTABLISHED of
        (client, Inl e) \<Rightarrow> (client, next, Err e)
      | (client, Inr _) \<Rightarrow>
          (case write_all next behind of
             (next, Inl e) \<Rightarrow> (client, next, Err e)
           | (next, Inr _) \<Rightarrow> rl_both io client next))"

definition forwarded ::
  "relays \<Rightarrow> conn \<Rightarrow> conn \<Rightarrow> string \<Rightarrow> string \<Rightarrow> rest \<Rightarrow> conn \<times> conn \<times> (io_error, unit) res" where
  "forwarded io client next head behind rest =
     (case write_all next head of
        (next, Inl e) \<Rightarrow> (client, next, Err e)
      | (next, Inr _) \<Rightarrow>
          (case write_all next behind of
             (next, Inl e) \<Rightarrow> (client, next, Err e)
           | (next, Inr _) \<Rightarrow> rl_limited io (rest_limit rest) client next))"

definition http_refuse_loop :: "conn \<Rightarrow> 's \<Rightarrow> socket_addr \<Rightarrow> routed_conn \<Rightarrow> 's relayed" where
  "http_refuse_loop client hop listening rt =
     (let refusal = \<lparr> di_listening = listening \<rparr>;
          (client, responded) = respond client BAD_GATEWAY (show_dials_itself refusal)
      in \<lparr> re_client = client, re_next = None, re_hop = hop,
           re_routed = routed_dialled rt ConnectRefused,
           re_result = (case responded of Inl e \<Rightarrow> Err e | Inr _ \<Rightarrow> Err (io_of_dials_itself refusal)) \<rparr>)"

definition http_relay ::
  "'s hop_ops \<Rightarrow> relays \<Rightarrow> duration \<Rightarrow> http_forward \<Rightarrow> conn \<Rightarrow> host \<Rightarrow> port \<Rightarrow> decision \<Rightarrow> 's
     \<Rightarrow> routed_conn \<Rightarrow> 's relayed" where
  "http_relay ops io took fw client host port decision hop rt =
     (let (hop, dialled) = hp_dial ops hop host port decision;
          (connect, dialled) = dialled_timed dialled took;
          rt = routed_dialled rt connect
      in case dialled of
           Inl failure \<Rightarrow>
             (let (client, refused) = refuse client failure host port
              in \<lparr> re_client = client, re_next = None, re_hop = hop, re_routed = rt,
                   re_result = (case refused of Inl e \<Rightarrow> Err e | Inr _ \<Rightarrow> Err failure) \<rparr>)
         | Inr next \<Rightarrow>
             (let (client, next, result) =
                    (case hf_method fw of
                       MethodConnect \<Rightarrow> tunnel io client next (hf_behind fw)
                     | MethodAbsolute \<Rightarrow>
                         forwarded io client next (hf_head fw) (hf_behind fw) (hf_rest fw))
              in \<lparr> re_client = client, re_next = Some next, re_hop = hop, re_routed = rt,
                   re_result = result \<rparr>))"

text \<open>What is forwarded of a request, absent when its head cannot be rebuilt.\<close>

definition http_forward_of :: "http_request \<Rightarrow> string \<Rightarrow> string \<Rightarrow> http_forward option" where
  "http_forward_of rq head rest =
     (let behind = behind_the_head rest (rq_method rq) (rq_body rq)
      in map_option
           (\<lambda>rebuilt. \<lparr> hf_method = rq_method rq, hf_head = rebuilt, hf_behind = behind,
                        hf_rest = rest_of_body (rq_method rq) (rq_body rq) behind \<rparr>)
           (case rq_method rq of
              MethodConnect \<Rightarrow> Some []
            | MethodAbsolute \<Rightarrow> rewritten head (rq_host rq) (rq_port rq)))"

definition http_serve ::
  "('net, 'a) ipnet_scheme \<Rightarrow> 's hop_ops \<Rightarrow> relays \<Rightarrow> timing \<Rightarrow> 'net ruleset \<Rightarrow> conn \<Rightarrow> 's
     \<Rightarrow> 's served" where
  "http_serve net ops io tm rules client hop =
     (case read_head client of
        (client, Inl e) \<Rightarrow> unrouted hop (client, Err e)
      | (client, Inr None) \<Rightarrow> unrouted hop (client, Ok ())
      | (client, Inr (Some (end, buffer))) \<Rightarrow>
          (case parse_head (take end buffer) of
             None \<Rightarrow> unrouted hop (respond client BAD_REQUEST ''nhop: malformed request'')
           | Some rq \<Rightarrow>
               (case http_forward_of rq (take end buffer) (drop end buffer) of
                  None \<Rightarrow> unrouted hop (respond client BAD_REQUEST ''nhop: malformed request'')
                | Some fw \<Rightarrow>
                    (let host = rq_host rq; port = rq_port rq;
                         decision = decide net rules host port;
                         rt = routed_begun (hp_verdict ops hop) host port decision
                     in serve_ended
                          (case own_address (cn_local client) host port of
                             Own listening \<Rightarrow> http_refuse_loop client hop listening rt
                           | Elsewhere \<Rightarrow>
                               http_relay ops io (tm_dial tm) fw client host port decision hop rt)
                          (tm_total tm)))))"

interpretation http_end: front_end "hp_dial ops" took http_refuse_loop "http_relay ops io took fw"
  by unfold_locales
    (auto simp: http_refuse_loop_def http_relay_def failure_of_def dialled_timed_def
      dial_result_def Let_def split: prod.splits dialled.splits sum.splits)


subsection \<open>The end of the head does not depend on how it arrives\<close>

declare head_end_from.simps [simp del]

lemma head_end_from_skip:
  assumes "take 4 (b # rest) \<noteq> CRLF @ CRLF"
  shows "head_end_from i (b # rest) = head_end_from (Suc i) rest"
  using assms by (subst head_end_from.simps) (simp only: if_False list.case)

lemma head_end_from_Some:
  "head_end_from i s = Some e \<Longrightarrow> i + 4 \<le> e \<and> e \<le> i + length s \<and> head_end_from i (s @ t) = Some e"
proof (induction i s rule: head_end_from.induct)
  case (1 i s)
  show ?case
  proof (cases "take 4 s = CRLF @ CRLF")
    case True
    then have "length (take 4 s) = 4" by simp
    then have "4 \<le> length s" by simp
    with True "1.prems" show ?thesis
      by (simp add: head_end_from.simps [of i s] head_end_from.simps [of i "s @ t"])
  next
    case False
    with "1.prems" obtain b rest where s: "s = b # rest" and more: "head_end_from (Suc i) rest = Some e"
      by (subst (asm) head_end_from.simps) (auto split: list.splits)
    from "1.IH" [OF False s more] have IH: "Suc i + 4 \<le> e" "e \<le> Suc i + length rest"
      "head_end_from (Suc i) (rest @ t) = Some e" by auto
    then have "4 \<le> length s" using s by simp
    with False have "take 4 (s @ t) \<noteq> CRLF @ CRLF" by simp
    with IH s head_end_from_skip [of b "rest @ t" i] show ?thesis by simp
  qed
qed

lemma head_end_from_prefix:
  "head_end_from i (s @ t) = Some e \<Longrightarrow> e \<le> i + length s \<Longrightarrow> head_end_from i s = Some e"
proof (induction i s rule: head_end_from.induct)
  case (1 i s)
  have len: "4 \<le> length s"
    using head_end_from_Some [OF "1.prems"(1), of "[]"] "1.prems"(2) by simp
  then have same: "take 4 (s @ t) = take 4 s" by simp
  show ?case
  proof (cases "take 4 s = CRLF @ CRLF")
    case True
    with same "1.prems"(1) show ?thesis
      by (simp add: head_end_from.simps [of i s] head_end_from.simps [of i "s @ t"])
  next
    case False
    from len obtain b rest where s: "s = b # rest" by (cases s) auto
    from False same s have "take 4 (b # rest @ t) \<noteq> CRLF @ CRLF" by (metis append_Cons)
    from head_end_from_skip [OF this, of i] have "head_end_from (Suc i) (rest @ t) = Some e"
      using "1.prems"(1) s by simp
    with "1.IH" [OF False s] "1.prems"(2) s have "head_end_from (Suc i) rest = Some e" by simp
    with False s head_end_from_skip [of b rest i] show ?thesis by metis
  qed
qed

lemma head_end_Some: "head_end s = Some e \<Longrightarrow> 4 \<le> e \<and> e \<le> length s \<and> head_end (s @ t) = Some e"
  using head_end_from_Some [of 0 s e t] by (simp add: head_end_def)

lemma head_end_prefix: "head_end (s @ t) = Some e \<Longrightarrow> e \<le> length s \<Longrightarrow> head_end s = Some e"
  using head_end_from_prefix [of 0 s t e] by (simp add: head_end_def)

text \<open>What \<open>read_head\<close> comes to on a stream whose first bytes are already in the buffer.\<close>

definition head_read :: "conn \<Rightarrow> string \<Rightarrow> conn \<times> (io_error, (nat \<times> string) option) res \<Rightarrow> bool" where
  "head_read c buffer result \<longleftrightarrow>
     (case head_end (take HEAD_LIMIT (buffer @ conn_bytes c)) of
        Some e \<Rightarrow>
          (\<exists>c' got. result = (c', Ok (Some (e, got))) \<and> got @ conn_bytes c' = buffer @ conn_bytes c
             \<and> e \<le> length got \<and> length got \<le> HEAD_LIMIT \<and> only_read c c' \<and> wf_conn c')
      | None \<Rightarrow>
          snd result =
            (if HEAD_LIMIT \<le> length (buffer @ conn_bytes c) then Ok None
             else case cn_failed c of None \<Rightarrow> Ok None | Some e \<Rightarrow> Err e)
          \<and> only_read c (fst result))"

lemma head_read_from:
  "wf_conn c \<Longrightarrow> length buffer \<le> HEAD_LIMIT \<Longrightarrow> head_end buffer = None \<Longrightarrow>
     head_read c buffer (read_head_from c buffer)"
proof (induction "HEAD_LIMIT - length buffer" arbitrary: c buffer rule: less_induct)
  case less
  show ?case
  proof (cases "HEAD_LIMIT \<le> length buffer")
    case True
    with less.prems show ?thesis
      by (simp add: read_head_from.simps [of c buffer] head_read_def)
  next
    case False
    let ?n = "HEAD_LIMIT - length buffer"
    show ?thesis
    proof (cases "cn_in c")
      case Nil
      then have bytes: "conn_bytes c = []" by (simp add: conn_bytes_def)
      from Nil have read: "conn_read c ?n = (c, case cn_failed c of None \<Rightarrow> Ok [] | Some e \<Rightarrow> Err e)"
        by (simp add: conn_read_def)
      with False less.prems show ?thesis
        by (cases "cn_failed c")
          (simp_all add: read_head_from.simps [of c buffer] head_read_def bytes)
    next
      case (Cons chunk rest)
      obtain c1 where read: "conn_read c ?n = (c1, Ok (take ?n chunk))"
        and after: "after_read c (length (take ?n chunk)) c1" and got: "take ?n chunk \<noteq> []"
        using conn_read_some [OF less.prems(1) Cons, of ?n] False by auto
      let ?b = "buffer @ take ?n chunk"
      have "take (length (take ?n chunk)) (conn_bytes c) = take ?n chunk"
        by (simp add: conn_bytes_def Cons min_def)
      then have bytes: "?b @ conn_bytes c1 = buffer @ conn_bytes c"
        using after by (simp add: after_read_def) (metis append_take_drop_id)
      have len: "length ?b \<le> HEAD_LIMIT" using False by simp
      have only: "only_read c c1" and wf1: "wf_conn c1"
        using after by (simp_all add: after_read_def only_read_def)
      from got obtain x xs where xs: "take ?n chunk = x # xs" by (cases "take ?n chunk") auto
      have step: "read_head_from c buffer =
          (case head_end ?b of None \<Rightarrow> read_head_from c1 ?b | Some e \<Rightarrow> (c1, Ok (Some (e, ?b))))"
        using False read unfolding xs by (subst read_head_from.simps) (simp split: option.split)
      have split: "take HEAD_LIMIT (buffer @ conn_bytes c) =
          ?b @ take (HEAD_LIMIT - length ?b) (conn_bytes c1)"
        using len by (simp only: bytes [symmetric] take_append) simp
      show ?thesis
      proof (cases "head_end ?b")
        case (Some e)
        have "head_end (take HEAD_LIMIT (buffer @ conn_bytes c)) = Some e"
          unfolding split using head_end_Some [OF Some] by blast
        moreover have "e \<le> length ?b" using head_end_Some [OF Some] by blast
        ultimately show ?thesis
          using Some step bytes len only wf1 by (auto simp: head_read_def)
      next
        case None
        from got False have "HEAD_LIMIT - length ?b < HEAD_LIMIT - length buffer"
          by (cases chunk) auto
        from less.hyps [OF this wf1 len None] have IH: "head_read c1 ?b (read_head_from c1 ?b)" .
        moreover have "cn_failed c1 = cn_failed c" using only by (simp add: only_read_def)
        ultimately show ?thesis
          using only unfolding head_read_def bytes step None
          by (auto split: option.splits intro: only_read_trans)
      qed
    qed
  qed
qed


lemma read_head_only: "only_read client (fst (read_head_from client buffer))"
proof (induction "HEAD_LIMIT - length buffer" arbitrary: client buffer rule: less_induct)
  case less
  obtain c1 q where read: "conn_read client (HEAD_LIMIT - length buffer) = (c1, q)" by fastforce
  then have only: "only_read client c1" using conn_read_only [of client "HEAD_LIMIT - length buffer"] by simp
  show ?case
  proof (cases "\<exists>b bytes. q = Inr (b # bytes) \<and> \<not> HEAD_LIMIT \<le> length buffer
      \<and> head_end (buffer @ b # bytes) = None")
    case False
    with only read show ?thesis
      by (subst read_head_from.simps) (auto split: sum.split list.split option.split)
  next
    case True
    then obtain b bytes where q: "q = Inr (b # bytes)" "\<not> HEAD_LIMIT \<le> length buffer"
      "head_end (buffer @ b # bytes) = None" by blast
    then have step: "read_head_from client buffer = read_head_from c1 (buffer @ b # bytes)"
      using read by (subst read_head_from.simps) simp
    have "only_read c1 (fst (read_head_from c1 (buffer @ b # bytes)))"
      using q(2) by (intro less) simp
    with only show ?thesis unfolding step by (rule only_read_trans)
  qed
qed

subsection \<open>Lines and fields\<close>

definition no_crlf :: "string \<Rightarrow> bool" where
  "no_crlf s \<longleftrightarrow> \<not> sublist CRLF s"

lemma sublist_CRLF_Cons:
  "sublist CRLF (x # y # s) \<longleftrightarrow> x = CR \<and> y = LF \<or> sublist CRLF (y # s)"
  by (auto simp: sublist_Cons_right)

lemma no_crlf_sublist: "no_crlf s \<Longrightarrow> sublist t s \<Longrightarrow> no_crlf t"
  by (auto simp: no_crlf_def intro: sublist_order.order_trans)

lemma no_crlf_Cons: "no_crlf (x # s) \<longleftrightarrow> no_crlf s \<and> \<not> (x = CR \<and> s \<noteq> [] \<and> hd s = LF)"
proof (cases s)
  case Nil
  have "\<not> sublist CRLF [x]" by (simp add: sublist_Cons_right)
  with Nil show ?thesis by (simp add: no_crlf_def)
next
  case (Cons y t)
  show ?thesis unfolding no_crlf_def Cons sublist_CRLF_Cons list.sel by blast
qed

text \<open>Two texts that do not meet in a line end.\<close>

lemma no_crlf_append:
  "no_crlf a \<Longrightarrow> no_crlf b \<Longrightarrow> a = [] \<or> last a \<noteq> CR \<or> b = [] \<or> hd b \<noteq> LF \<Longrightarrow> no_crlf (a @ b)"
  by (induction a) (auto simp: no_crlf_Cons hd_append split: if_splits)

lemma no_crlf_Nil [simp]: "no_crlf []"
  by (simp add: no_crlf_def)

lemma no_crlf_plain: "\<forall>c \<in> set s. c \<noteq> CR \<Longrightarrow> no_crlf s"
  by (induction s) (simp_all add: no_crlf_Cons)

lemma split_once_crlf_Some:
  "split_once_crlf s = Some (a, b) \<Longrightarrow> s = a @ CRLF @ b \<and> no_crlf a"
proof (induction s arbitrary: a rule: split_once_crlf.induct)
  case (3 x y xs)
  show ?case
  proof (cases "x = CR \<and> y = LF")
    case True
    with "3.prems" show ?thesis by auto
  next
    case False
    with "3.prems" obtain a' where a: "a = x # a'" "split_once_crlf (y # xs) = Some (a', b)"
      by (auto split: option.splits)
    with "3.IH" False have IH: "y # xs = a' @ CRLF @ b" "no_crlf a'" by auto
    have "no_crlf (x # a')"
    proof (cases a')
      case Nil
      then show ?thesis by (auto simp: no_crlf_def sublist_Cons_right)
    next
      case (Cons z zs)
      with IH(1) have "z = y" by simp
      with False IH(2) Cons show ?thesis by (auto simp: no_crlf_def sublist_CRLF_Cons)
    qed
    with IH a show ?thesis by simp
  qed
qed simp_all

lemma no_crlf_ConsD: "no_crlf (x # s) \<Longrightarrow> no_crlf s"
  by (auto simp: no_crlf_def sublist_Cons_right)

lemma split_once_crlf_app: "no_crlf a \<Longrightarrow> split_once_crlf (a @ CRLF @ b) = Some (a, b)"
proof (induction a)
  case (Cons x a)
  note IH = Cons.IH [OF no_crlf_ConsD [OF Cons.prems]]
  show ?case
  proof (cases a)
    case Nil
    then show ?thesis by simp
  next
    case (Cons y ys)
    with Cons.prems have "\<not> (x = CR \<and> y = LF)" by (auto simp: no_crlf_def sublist_CRLF_Cons)
    with IH Cons show ?thesis by auto
  qed
qed simp

lemma split_crlf_app: "no_crlf a \<Longrightarrow> split_crlf (a @ CRLF @ b) = a # split_crlf b"
proof (induction a)
  case (Cons x a)
  note IH = Cons.IH [OF no_crlf_ConsD [OF Cons.prems]]
  show ?case
  proof (cases a)
    case Nil
    then show ?thesis by simp
  next
    case (Cons y ys)
    with Cons.prems have "\<not> (x = CR \<and> y = LF)" by (auto simp: no_crlf_def sublist_CRLF_Cons)
    with IH Cons show ?thesis by auto
  qed
qed simp

lemma split_crlf_plain: "no_crlf a \<Longrightarrow> split_crlf a = [a]"
proof (induction a rule: split_crlf.induct)
  case (3 x y xs)
  then have "\<not> (x = CR \<and> y = LF)" by (auto simp: no_crlf_def sublist_CRLF_Cons)
  moreover from 3 no_crlf_ConsD have "no_crlf (y # xs)" by blast
  ultimately show ?case using 3 by auto
qed simp_all

lemma split_crlf_sublist: "f \<in> set (split_crlf s) \<Longrightarrow> no_crlf f \<and> sublist f s"
proof (induction s arbitrary: f rule: split_crlf.induct)
  case (3 x y xs)
  show ?case
  proof (cases "x = CR \<and> y = LF")
    case True
    with 3 show ?thesis by (auto simp: sublist_Cons_right)
  next
    case False
    obtain g gs where gs: "split_crlf (y # xs) = g # gs" using split_crlf_ne by (cases "split_crlf (y # xs)") auto
    with False "3.IH" have IH: "\<forall>h \<in> set (g # gs). no_crlf h \<and> sublist h (y # xs)" by auto
    have pre: "prefix g (y # xs)" if "split_crlf (y # xs) = g # gs" for g gs xs y
      using that
    proof (induction "y # xs" arbitrary: g gs y xs rule: split_crlf.induct)
      case (3 u v us)
      then show ?case by (auto split: if_splits list.splits)
    qed auto
    show ?thesis
    proof (cases "f = x # g")
      case True
      have "prefix (x # g) (x # y # xs)" using pre [OF gs] by simp
      then have "sublist (x # g) (x # y # xs)" by (rule prefix_imp_sublist)
      moreover have "no_crlf (x # g)"
      proof (cases g)
        case Nil
        then show ?thesis by (auto simp: no_crlf_def sublist_Cons_right)
      next
        case (Cons z zs)
        with pre [OF gs] have "z = y" by simp
        with False IH Cons show ?thesis by (auto simp: no_crlf_def sublist_CRLF_Cons)
      qed
      ultimately show ?thesis using True by simp
    next
      case other: False
      with "3.prems" False gs have "f \<in> set gs" by simp
      with IH have "no_crlf f" "sublist f (y # xs)" by auto
      then show ?thesis by (auto simp: sublist_Cons_right)
    qed
  qed
qed (simp_all add: no_crlf_Cons)

lemma split_char_sublist: "f \<in> set (split_char c s) \<Longrightarrow> sublist f s"
proof -
  have pre: "\<exists>g gs. split_char c s = g # gs \<and> prefix g s \<and> (\<forall>h \<in> set gs. sublist h s)"
    by (induction s) (auto simp: sublist_Cons_right intro: prefix_imp_sublist)
  then show "f \<in> set (split_char c s) \<Longrightarrow> sublist f s" by (auto dest: prefix_imp_sublist)
qed


subsection \<open>Looking up a field\<close>

lemma header_in_append:
  "header_in (fs @ gs) n = (case header_in fs n of Some v \<Rightarrow> Some v | None \<Rightarrow> header_in gs n)"
  by (induction fs) (auto split: option.splits)

text \<open>The fields a rebuilt head drops, and the lookups that cannot see the difference.\<close>

definition dropped_name :: "string \<Rightarrow> bool" where
  "dropped_name n \<longleftrightarrow> to_lowercase n = ''host'' \<or> to_lowercase n \<in> set HOP_BY_HOP"

lemma header_in_kept:
  "header_in (filter kept_field fs) n = (if dropped_name n then None else header_in fs n)"
proof (induction fs)
  case (Cons f fs)
  show ?case
  proof (cases "split_once (CHR '':'') f")
    case None
    with Cons show ?thesis by (simp add: kept_field_def)
  next
    case (Some lv)
    obtain l v where lv: "lv = (l, v)" by (cases lv)
    have "kept_field f \<longleftrightarrow> \<not> dropped_name (trim l)"
      using Some lv by (simp add: kept_field_def dropped_name_def Let_def)
    moreover have "dropped_name (trim l) = dropped_name n" if "eq_ignore_ascii_case (trim l) n"
      using that by (simp add: dropped_name_def eq_ignore_ascii_case_def)
    ultimately show ?thesis using Cons Some lv by auto
  qed
qed simp

text \<open>The header block of a rebuilt head.\<close>

definition rebuilt_fields :: "string \<Rightarrow> host \<Rightarrow> port \<Rightarrow> string list" where
  "rebuilt_fields headers host port =
     (''Host: '' @ host_text host port) # filter kept_field (split_crlf headers)"

definition rebuilt_headers :: "string \<Rightarrow> host \<Rightarrow> port \<Rightarrow> string" where
  "rebuilt_headers headers host port =
     concat (map (\<lambda>f. f @ CRLF) (rebuilt_fields headers host port)) @ ''Connection: close'' @ CRLF @ CRLF"

lemma split_crlf_concat:
  "\<forall>f \<in> set fs. no_crlf f \<Longrightarrow> split_crlf (concat (map (\<lambda>f. f @ CRLF) fs) @ b) = fs @ split_crlf b"
proof (induction fs)
  case (Cons f fs)
  then show ?case using split_crlf_app [of f "concat (map (\<lambda>f. f @ CRLF) fs) @ b"] by simp
qed simp

lemma show_u16_plain: "\<forall>c \<in> set (show_u16 p). c \<noteq> CR \<and> c \<noteq> LF"
proof -
  have "is_dec c" if "c \<in> set (show_u16 p)" for c
    using that by (auto simp: show_u16_def dest: show_nat_digits)
  moreover have "\<not> is_dec CR" "\<not> is_dec LF" by code_simp+
  ultimately show ?thesis by metis
qed

lemma no_crlf_host_text:
  assumes "no_crlf host"
  shows "no_crlf (''Host: '' @ host_text host port)"
proof -
  have "no_crlf ('':'' @ show_u16 port)"
    using show_u16_plain [of port] by (intro no_crlf_plain) auto
  with assms have "no_crlf (host_text host port)"
    unfolding host_text_def by (intro no_crlf_append) auto
  then show ?thesis by (intro no_crlf_append) (simp_all add: no_crlf_plain)
qed

lemma header_rebuilt:
  assumes "no_crlf host"
  shows "header (rebuilt_headers headers host port) n =
    (if to_lowercase n = ''host'' then Some (trim (host_text host port))
     else if to_lowercase n = ''connection'' then Some ''close''
     else if to_lowercase n \<in> set HOP_BY_HOP then None
     else header headers n)"
proof -
  let ?kept = "filter kept_field (split_crlf headers)"
  have "\<forall>f \<in> set (rebuilt_fields headers host port). no_crlf f"
    using no_crlf_host_text [OF assms] split_crlf_sublist by (auto simp: rebuilt_fields_def)
  then have fields: "split_crlf (rebuilt_headers headers host port) =
      (''Host: '' @ host_text host port) # ?kept @ [''Connection: close'', [], []]"
    unfolding rebuilt_headers_def
    by (subst split_crlf_concat)
      (simp_all add: rebuilt_fields_def split_crlf_app [of "''Connection: close''", simplified]
        no_crlf_plain)
  have host: "split_once (CHR '':'') (''Host: '' @ host_text host port) =
      Some (''Host'', '' '' @ host_text host port)"
    by simp
  have trims: "trim ''Host'' = ''Host''" "trim ('' '' @ t) = trim t" "trim ''Connection'' = ''Connection''"
    "trim '' close'' = ''close''" for t
    by (code_simp, simp add: trim_def trim_start_def is_whitespace_def, code_simp, code_simp)
  have lower: "to_lowercase ''Host'' = ''host''" "to_lowercase ''Connection'' = ''connection''"
    by code_simp+
  have last: "header_in [''Connection: close'', [], []] n =
      (if to_lowercase n = ''connection'' then Some ''close'' else None)"
    using trims lower by (simp add: eq_ignore_ascii_case_def)
  have conn: "to_lowercase n = ''connection'' \<Longrightarrow> dropped_name n"
    by (simp add: dropped_name_def HOP_BY_HOP_def)
  show ?thesis
    unfolding header_def fields header_in.simps(2) host
    using trims lower conn
    by (simp add: header_in_append header_in_kept last eq_ignore_ascii_case_def dropped_name_def
        split: option.splits)
qed


subsection \<open>The destination is a piece of the head\<close>

lemma trim_sublist: "sublist (trim s) s"
proof -
  have "suffix (trim_start s) s" by (simp add: trim_start_def suffix_dropWhile)
  moreover have "prefix (trim_end t) t" for t
    using suffix_dropWhile [of is_whitespace "rev t"] by (simp add: trim_end_def suffix_to_prefix)
  ultimately show ?thesis
    unfolding trim_def by (meson prefix_imp_sublist sublist_order.order_trans suffix_imp_sublist)
qed

lemma header_in_piece: "header_in fs n = Some v \<Longrightarrow> \<exists>f \<in> set fs. sublist v f"
proof (induction fs)
  case (Cons f fs)
  show ?case
  proof (cases "header_in fs n = Some v")
    case True
    with Cons.IH show ?thesis by auto
  next
    case False
    with Cons.prems obtain l w where "split_once (CHR '':'') f = Some (l, w)" "v = trim w"
      by (auto split: option.splits if_splits)
    then have "f = (l @ [CHR '':'']) @ w" by (simp add: split_once_Some)
    then have "sublist w f" by (metis sublist_appendI append_Nil2)
    with \<open>v = trim w\<close> trim_sublist [of w] show ?thesis
      by (metis list.set_intros(1) sublist_order.order_trans)
  qed
qed simp

lemma header_no_crlf: "header headers n = Some v \<Longrightarrow> no_crlf v"
  unfolding header_def using header_in_piece split_crlf_sublist no_crlf_sublist by blast

lemma authority_piece:
  assumes "split_authority authority fallback = Some (host, port)"
  shows "sublist host authority"
proof (cases "strip_prefix ''['' authority")
  case None
  show ?thesis
  proof (cases "rsplit_once (CHR '':'') authority")
    case None
    with assms \<open>strip_prefix ''['' authority = None\<close> show ?thesis
      by (auto simp: split_authority_def named_def bind_eq_Some_conv split: if_splits)
  next
    case (Some hp)
    obtain h p where hp: "hp = (h, p)" by (cases hp)
    with Some assms \<open>strip_prefix ''['' authority = None\<close> have "host = h"
      by (auto simp: split_authority_def named_def bind_eq_Some_conv split: if_splits)
    moreover have "authority = h @ CHR '':'' # p" using Some hp by (simp add: rsplit_once_Some)
    ultimately show ?thesis by (auto intro: prefix_imp_sublist)
  qed
next
  case (Some bracketed)
  with assms obtain rest where "split_once (CHR '']'') bracketed = Some (host, rest)"
    by (auto simp: split_authority_def named_def bind_eq_Some_conv split: option.splits if_splits)
  then have "bracketed = host @ CHR '']'' # rest" by (simp add: split_once_Some)
  with Some have "authority = [CHR ''[''] @ host @ CHR '']'' # rest" by (simp add: strip_prefix_Some)
  then show ?thesis by (metis sublist_appendI)
qed

lemma absolute_authority_piece: "absolute_authority target = Some a \<Longrightarrow> sublist a target"
proof -
  assume "absolute_authority target = Some a"
  then obtain rest where "target = HTTP_SCHEME @ rest" and
    "split_once (CHR ''/'') rest = None \<and> a = rest \<or> (\<exists>path. split_once (CHR ''/'') rest = Some (a, path))"
    by (auto simp: absolute_authority_def strip_prefix_Some split: option.splits)
  then obtain path where "target = HTTP_SCHEME @ a @ path"
    by (auto simp: split_once_Some)
  then show ?thesis by (metis sublist_appendI)
qed

lemma three_fields_Some:
  assumes "three_fields line = Some (a, b, c)"
  shows "split_char (CHR '' '') line = [a, b, c]"
proof -
  have "split_char (CHR '' '') line = fs \<Longrightarrow> fs = [a, b, c]" for fs
    using assms by (cases fs rule: remdups_adj.cases)
      (auto simp: three_fields_def split: list.splits)
  then show ?thesis by blast
qed

lemma parse_head_absolute:
  assumes "parse_head head = Some rq" and "rq_method rq = MethodAbsolute"
  obtains line headers meth target version
  where "utf8 head" and "split_once_crlf head = Some (line, headers)"
    and "split_char (CHR '' '') line = [meth, target, version]" and "no_crlf (rq_host rq)"
    and "rq_body rq = body_of headers"
proof -
  obtain line headers meth target version authority where parts: "utf8 head"
    "split_once_crlf head = Some (line, headers)" "three_fields line = Some (meth, target, version)"
    "(case absolute_authority target of Some a \<Rightarrow> Some a | None \<Rightarrow> header headers ''host'') = Some authority"
    "split_authority authority (Some DEFAULT_PORT) = Some (rq_host rq, rq_port rq)"
    "rq_body rq = body_of headers"
    using assms by (auto simp: parse_head_def bind_eq_Some_conv split: if_splits)
  note fields = three_fields_Some [OF parts(3)]
  have "no_crlf line" using split_once_crlf_Some [OF parts(2)] by simp
  moreover have "sublist target line"
    using split_char_sublist [of target "CHR '' ''" line] by (simp add: fields)
  ultimately have "no_crlf target" by (rule no_crlf_sublist)
  then have "no_crlf authority"
    using parts(4) header_no_crlf absolute_authority_piece no_crlf_sublist
    by (auto split: option.splits)
  with authority_piece [OF parts(5)] have "no_crlf (rq_host rq)" by (rule no_crlf_sublist [rotated])
  with parts fields show ?thesis by (intro that)
qed

lemma origin_form_no_crlf: "no_crlf target \<Longrightarrow> no_crlf (origin_form target)"
proof (cases "strip_prefix HTTP_SCHEME target")
  case (Some rest)
  assume "no_crlf target"
  moreover have "target = HTTP_SCHEME @ rest" using Some by (simp add: strip_prefix_Some)
  then have "suffix (dropWhile (\<lambda>c. c \<noteq> CHR ''/'') rest) target"
    using suffix_dropWhile suffixI suffix_order.order_trans by blast
  ultimately have "no_crlf (dropWhile (\<lambda>c. c \<noteq> CHR ''/'') rest)"
    by (metis no_crlf_sublist suffix_imp_sublist)
  with Some show ?thesis
    by (auto simp: origin_form_def no_crlf_plain split: list.split)
qed (simp add: origin_form_def)

subsection \<open>What reaches the next hop\<close>

text \<open>What the library promises of a copy limited to \<open>k\<close> bytes: a piece of the stream of at most \<open>k\<close>.\<close>

definition copies_at_most :: "relays \<Rightarrow> bool" where
  "copies_at_most io \<longleftrightarrow>
     (\<forall>k c n. \<exists>moved. cn_out (fst (snd (rl_limited io k c n))) = cn_out n @ moved
        \<and> length moved \<le> k \<and> prefix moved (conn_bytes c))"

lemma write_all_result:
  "conn_bytes (fst (write_all c bytes)) = conn_bytes c
   \<and> ((\<exists>e. snd (write_all c bytes) = Err e) \<and> cn_out (fst (write_all c bytes)) = cn_out c
      \<or> snd (write_all c bytes) = Ok () \<and> cn_out (fst (write_all c bytes)) = cn_out c @ bytes)"
  by (simp add: write_all_def conn_bytes_def split: list.split option.split)

text \<open>The body as it was read behind the head, and the rest of it, make one piece of the stream.\<close>

lemma body_piece:
  assumes "behind = take (min len (length rest)) rest" and "length moved \<le> len - length behind"
    and "prefix moved bytes"
  shows "prefix (behind @ moved) (take len (rest @ bytes))"
proof (cases "length rest \<le> len")
  case True
  with assms(1) have b: "behind = rest" by simp
  obtain tail where bytes: "bytes = moved @ tail" using assms(3) by (auto simp: prefix_def)
  with b assms(2) True show ?thesis by simp
next
  case False
  with assms(1,2) have "moved = []" by simp
  with assms(1) False show ?thesis by simp
qed

lemma forwarded_sent:
  fixes client "next" :: conn and head rest behind :: string
  assumes law: "copies_at_most io" and behind: "behind = take (min len (length rest)) rest"
  defines "result \<equiv> forwarded io client next head behind (RestBytes (len - length behind))"
  shows "\<exists>sent. cn_out (fst (snd result)) = cn_out next @ sent
    \<and> prefix sent (head @ take len (rest @ conn_bytes client))"
proof -
  obtain n1 r1 where w1: "write_all next head = (n1, r1)" by fastforce
  obtain n2 r2 where w2: "write_all n1 behind = (n2, r2)" by fastforce
  note one = write_all_result [of "next" head, unfolded w1 fst_conv snd_conv]
  note two = write_all_result [of n1 behind, unfolded w2 fst_conv snd_conv]
  have piece: "prefix behind (take len (rest @ conn_bytes client))"
    using body_piece [OF behind, of "[]" "conn_bytes client"] by simp
  show ?thesis
  proof (cases "r1 = Ok () \<and> r2 = Ok ()")
    case False
    then show ?thesis
    proof (cases "r1 = Ok ()")
      case True
      with False one two obtain e where "r2 = Err e" "cn_out n2 = cn_out next @ head" by auto
      with True w1 w2 show ?thesis by (simp add: result_def forwarded_def)
    next
      case r1: False
      with one obtain e where "r1 = Err e" "cn_out n1 = cn_out next" by auto
      with w1 show ?thesis by (simp add: result_def forwarded_def)
    qed
  next
    case True
    let ?k = "rest_limit (RestBytes (len - length behind))"
    obtain moved where moved: "cn_out (fst (snd (rl_limited io ?k client n2))) = cn_out n2 @ moved"
      "length moved \<le> ?k" "prefix moved (conn_bytes client)"
      using law unfolding copies_at_most_def by blast
    from True one two have "cn_out n2 = cn_out next @ head @ behind" by auto
    moreover from moved(2) have "length moved \<le> len - length behind" by (simp add: clamp64_def)
    then have "prefix (behind @ moved) (take len (rest @ conn_bytes client))"
      using body_piece [OF behind _ moved(3)] by blast
    ultimately show ?thesis
      using True w1 w2 moved(1) by (simp add: result_def forwarded_def)
  qed
qed

subsection \<open>Properties\<close>

text \<open>C36: the head of a request is found wherever the reads cut it.  If the first blank line of the
  stream ends within the 8192 bytes the front end is ready to read, it is found at its place, and
  what was read with it is a prefix of the stream, none of it lost; otherwise the connection is given
  up without an answer once the buffer is full or the client has closed, and a failed read is
  reported as it is.  Nothing is written meanwhile.\<close>

theorem read_head_outcome:
  assumes "wf_conn client"
  shows "case head_end (take HEAD_LIMIT (conn_bytes client)) of
      Some e \<Rightarrow>
        (\<exists>client' got. read_head client = (client', Ok (Some (e, got)))
           \<and> got @ conn_bytes client' = conn_bytes client
           \<and> e \<le> length got \<and> length got \<le> HEAD_LIMIT \<and> only_read client client')
    | None \<Rightarrow>
        snd (read_head client) =
          (if HEAD_LIMIT \<le> length (conn_bytes client) then Ok None
           else case cn_failed client of None \<Rightarrow> Ok None | Some e \<Rightarrow> Err e)
        \<and> only_read client (fst (read_head client))"
proof -
  have "head_end [] = None" by (simp add: head_end_def head_end_from.simps)
  with head_read_from [OF assms, of "[]"] have "head_read client [] (read_head client)"
    by (simp add: read_head_def)
  then show ?thesis
    by (auto simp: head_read_def split: option.splits)
qed

text \<open>
  For the examples: a request with a two-byte body and a second request pipelined behind it, arriving
  in two pieces; a hop that dials directly; and a library that copies what it may.
\<close>

definition example_head :: string where
  "example_head =
     ''GET http://a.io/x HTTP/1.1'' @ CRLF @ ''TE: trailers'' @ CRLF @ ''Content-Length: 2'' @ CRLF @ CRLF"

definition example_http :: conn where
  "example_http =
     \<lparr> cn_in = [take 20 example_head, drop 20 example_head @ ''h'', ''iGET /y''],
       cn_failed = None, cn_local = None, cn_out = [], cn_writes = [] \<rparr>"

definition fresh_conn :: conn where
  "fresh_conn = \<lparr> cn_in = [], cn_failed = None, cn_local = None, cn_out = [], cn_writes = [] \<rparr>"

definition direct_ops :: "unit hop_ops" where
  "direct_ops =
     \<lparr> hp_dial = (\<lambda>s host port decision. (s, DialAttempted HopDirect None (Ok fresh_conn))),
       hp_verdict = (\<lambda>s. Down) \<rparr>"

definition copying_relays :: relays where
  "copying_relays =
     \<lparr> rl_both = (\<lambda>c n. (c, n, Ok ())),
       rl_limited = (\<lambda>k c n. (c, n\<lparr> cn_out := cn_out n @ take k (conn_bytes c) \<rparr>, Ok ())) \<rparr>"

definition example_rq :: http_request where
  "example_rq = \<lparr> rq_method = MethodAbsolute, rq_host = ''a.io'', rq_port = 80, rq_body = Sized 2 \<rparr>"

lemma example_http_wf: "wf_conn example_http"
  by code_simp

lemma example_http_read:
  "read_head example_http =
     (example_http\<lparr> cn_in := [''iGET /y''] \<rparr>, Ok (Some (length example_head, example_head @ ''h'')))"
  by code_simp

lemma example_parse: "parse_head example_head = Some example_rq"
  by code_simp

theorem read_head_outcome_witness:
  "\<exists>client' got. read_head example_http = (client', Ok (Some (63, got)))
     \<and> got @ conn_bytes client' = conn_bytes example_http"
proof -
  have "head_end (take HEAD_LIMIT (conn_bytes example_http)) = Some 63" by code_simp
  with read_head_outcome [OF example_http_wf] show ?thesis by auto
qed





lemma http_serve_request:
  assumes "read_head client = (c1, Ok (Some (e, buffer)))" and "parse_head (take e buffer) = Some rq"
    and "http_forward_of rq (take e buffer) (drop e buffer) = Some fw"
  shows "http_serve net ops io tm rules client hop =
    serve_routed http_refuse_loop (http_relay ops io (tm_dial tm) fw) (hp_verdict ops hop) (tm_total tm)
      c1 (rq_host rq) (rq_port rq) (decide net rules (rq_host rq) (rq_port rq)) hop"
  using assms by (simp add: http_serve_def serve_routed_def Let_def)

lemma head_read_client: "wf_conn client \<Longrightarrow> head_read client [] (read_head client)"
  using head_read_from [of client "[]"]
  by (simp add: read_head_def head_end_def head_end_from.simps)

lemma http_forward_absolute:
  assumes "parse_head head = Some rq" and "rq_method rq = MethodAbsolute" and "rq_body rq = Sized len"
  obtains out where "rewritten head (rq_host rq) (rq_port rq) = Some out"
    and "http_forward_of rq head rest =
      Some \<lparr> hf_method = MethodAbsolute, hf_head = out, hf_behind = take (min len (length rest)) rest,
             hf_rest = RestBytes (len - length (take (min len (length rest)) rest)) \<rparr>"
proof -
  obtain line headers meth target version where "utf8 head" "split_once_crlf head = Some (line, headers)"
    "split_char (CHR '' '') line = [meth, target, version]"
    using parse_head_absolute [OF assms(1,2)] by metis
  then obtain out where "rewritten head (rq_host rq) (rq_port rq) = Some out"
    by (simp add: rewritten_def)
  with assms(2,3) show ?thesis by (intro that) (simp_all add: http_forward_of_def Let_def)
qed

text \<open>C16: one request per connection.  When an absolute-form request with a \<open>Content-Length\<close> body is
  dialled, what the next hop is sent is a beginning of the rebuilt head followed by that many bytes
  of the client's stream behind its head, and never a byte more: a second request pipelined behind
  the body, or sent later on the connection, cannot inherit the first one's next hop.  The premise
  on the library is that a copy limited to \<open>k\<close> bytes passes on at most the next \<open>k\<close> bytes.\<close>

theorem one_request_per_connection:
  assumes wf: "wf_conn client" and law: "copies_at_most io"
    and read: "read_head client = (c1, Ok (Some (e, buffer)))"
    and parsed: "parse_head (take e buffer) = Some rq"
    and absolute: "rq_method rq = MethodAbsolute" "rq_body rq = Sized len"
    and elsewhere: "own_address (cn_local client) (rq_host rq) (rq_port rq) = Elsewhere"
    and dial: "hp_dial ops hop (rq_host rq) (rq_port rq) (decide net rules (rq_host rq) (rq_port rq)) =
      (hop', DialAttempted way via (Ok next))"
  shows "\<exists>out next' sent.
      rewritten (take e buffer) (rq_host rq) (rq_port rq) = Some out
    \<and> so_next (http_serve net ops io tm rules client hop) = Some next'
    \<and> cn_out next' = cn_out next @ sent
    \<and> prefix sent (out @ take len (drop e (conn_bytes client)))"
proof -
  from head_read_client [OF wf] read have stream: "buffer @ conn_bytes c1 = conn_bytes client"
    and e: "e \<le> length buffer" and local: "cn_local c1 = cn_local client"
    by (auto simp: head_read_def only_read_def split: option.splits if_splits)
  let ?rest = "drop e buffer"
  let ?behind = "take (min len (length ?rest)) ?rest"
  obtain out where out: "rewritten (take e buffer) (rq_host rq) (rq_port rq) = Some out"
    and fw: "http_forward_of rq (take e buffer) ?rest =
      Some \<lparr> hf_method = MethodAbsolute, hf_head = out, hf_behind = ?behind,
             hf_rest = RestBytes (len - length ?behind) \<rparr>"
    using http_forward_absolute [OF parsed absolute] by metis
  obtain sent where sent: "cn_out (fst (snd (forwarded io c1 next out ?behind
        (RestBytes (len - length ?behind))))) = cn_out next @ sent"
      "prefix sent (out @ take len (?rest @ conn_bytes c1))"
    using forwarded_sent [OF law refl, of c1 "next" out len ?rest] by blast
  have "?rest @ conn_bytes c1 = drop e (conn_bytes client)"
    using e by (simp flip: stream)
  with sent(2) have "prefix sent (out @ take len (drop e (conn_bytes client)))" by simp
  moreover have "so_next (http_serve net ops io tm rules client hop) =
      Some (fst (snd (forwarded io c1 next out ?behind (RestBytes (len - length ?behind)))))"
    using http_serve_request [OF read parsed fw, of net ops io tm rules hop] elsewhere dial local
    by (simp add: serve_routed_def serve_ended_def http_relay_def dialled_timed_def Let_def
        split: prod.split)
  ultimately show ?thesis using out sent(1) by blast
qed

theorem one_request_per_connection_witness:
  "\<exists>out next' sent. rewritten example_head ''a.io'' 80 = Some out
     \<and> so_next (http_serve ipnet24 direct_ops copying_relays \<lparr> tm_dial = 0, tm_total = 0 \<rparr> []
         example_http ()) = Some next'
     \<and> cn_out next' = sent \<and> prefix sent (out @ ''hi'')"
proof -
  have law: "copies_at_most copying_relays"
    unfolding copies_at_most_def copying_relays_def by (auto simp: take_is_prefix)
  have parsed: "parse_head (take (length example_head) (example_head @ ''h'')) = Some example_rq"
    by (simp add: example_parse)
  have absolute: "rq_method example_rq = MethodAbsolute" "rq_body example_rq = Sized 2"
    by (simp_all add: example_rq_def)
  have elsewhere: "own_address (cn_local example_http) (rq_host example_rq) (rq_port example_rq) = Elsewhere"
    by code_simp
  have dial: "hp_dial direct_ops () (rq_host example_rq) (rq_port example_rq)
      (decide ipnet24 [] (rq_host example_rq) (rq_port example_rq)) =
      ((), DialAttempted HopDirect None (Ok fresh_conn))"
    by (simp add: direct_ops_def)
  have body: "take 2 (drop (length example_head) (conn_bytes example_http)) = ''hi''" by code_simp
  have "cn_out fresh_conn = []" by (simp add: fresh_conn_def)
  with one_request_per_connection [OF example_http_wf law example_http_read parsed absolute elsewhere dial,
      of "\<lparr> tm_dial = 0, tm_total = 0 \<rparr>"] body
  show ?thesis by (simp add: example_rq_def)
qed

text \<open>The bytes of an answer the front end makes itself.\<close>

definition answer_of :: "string \<Rightarrow> string \<Rightarrow> string" where
  "answer_of status body = fst (respond_bytes status body) @ snd (respond_bytes status body)"

lemma respond_open:
  "cn_writes c = [] \<Longrightarrow> respond c status body = (c\<lparr> cn_out := cn_out c @ answer_of status body \<rparr>, Ok ())"
  by (simp add: respond_def write_all_def answer_of_def)

lemma http_forward_of_Some:
  assumes "parse_head head = Some rq"
  shows "\<exists>fw. http_forward_of rq head rest = Some fw \<and> hf_method fw = rq_method rq
    \<and> hf_behind fw = behind_the_head rest (rq_method rq) (rq_body rq)"
proof (cases "rq_method rq")
  case MethodConnect
  then show ?thesis by (simp add: http_forward_of_def Let_def)
next
  case MethodAbsolute
  obtain line headers meth target version where "utf8 head" "split_once_crlf head = Some (line, headers)"
    "split_char (CHR '' '') line = [meth, target, version]"
    using parse_head_absolute [OF assms MethodAbsolute] by metis
  then have "\<exists>out. rewritten head (rq_host rq) (rq_port rq) = Some out" by (simp add: rewritten_def)
  with MethodAbsolute show ?thesis by (auto simp: http_forward_of_def Let_def)
qed





subsection \<open>Heads the rebuilding gets wrong\<close>

text \<open>
  The brackets of an IPv6 literal are not put back into \<open>Host\<close>; a target with a query and no path
  keeps the query in the authority and loses it from the origin form; and a field the client's own
  \<open>Connection\<close> field nominates as belonging to this hop is passed on.
\<close>

lemma host_field_of_ipv6_literal:
  "parse_head (''GET http://[::1]:8080/ HTTP/1.1'' @ CRLF @ CRLF) =
     Some \<lparr> rq_method = MethodAbsolute, rq_host = ''::1'', rq_port = 8080, rq_body = Sized 0 \<rparr>
   \<and> rewritten (''GET http://[::1]:8080/ HTTP/1.1'' @ CRLF @ CRLF) ''::1'' 8080 =
     Some (''GET / HTTP/1.1'' @ CRLF @ ''Host: ::1:8080'' @ CRLF @ ''Connection: close'' @ CRLF @ CRLF)"
  by code_simp

lemma query_without_path:
  "parse_head (''GET http://a.io?q=1 HTTP/1.1'' @ CRLF @ CRLF) =
     Some \<lparr> rq_method = MethodAbsolute, rq_host = ''a.io?q=1'', rq_port = 80, rq_body = Sized 0 \<rparr>
   \<and> origin_form ''http://a.io?q=1'' = ''/''"
  by code_simp

lemma nominated_field_survives:
  "rewritten (''GET http://a.io/ HTTP/1.1'' @ CRLF @ ''Connection: X-Hop'' @ CRLF @ ''X-Hop: 1'' @ CRLF @ CRLF)
     ''a.io'' 80 =
   Some (''GET / HTTP/1.1'' @ CRLF @ ''Host: a.io'' @ CRLF @ ''X-Hop: 1'' @ CRLF
     @ ''Connection: close'' @ CRLF @ CRLF)"
  by code_simp

end
