(* ===== verification/Serving.thy ===== *)
theory Serving
  imports Loads Socks5 Http
begin

section \<open>Accepting clients while the daemon changes\<close>

text \<open>
  The accept loops of \<open>daemon/mod.rs\<close> and \<open>daemon/ipc_server.rs\<close> beside the state task.  Each
  listener of theory Frontends has a loop that takes the next client and serves it with the rules
  in force at that instant (\<open>Live::accepted\<close>) and, on a forward, the target in force.  The state task
  moves listeners and publishes in several steps, and a client may be accepted between any two.
\<close>

subsection \<open>The loops\<close>

definition ACCEPT_BACKOFF :: duration where "ACCEPT_BACKOFF = 100000000"

text \<open>\<open>next_client\<close>: the first accept that succeeds, and the failures it outlived, each logged and
  followed by a wait; absent while none has.\<close>

fun next_client ::
  "(io_error, 'c) res list \<Rightarrow> (io_error \<times> duration) list \<times> ('c \<times> (io_error, 'c) res list) option" where
  "next_client [] = ([], None)"
| "next_client (Inr client # accepts) = ([], Some (client, accepts))"
| "next_client (Inl failure # accepts) =
     (let (failures, found) = next_client accepts in ((failure, ACCEPT_BACKOFF) # failures, found))"

text \<open>The loop of one front end: the clients it serves, in order, and the failures it outlived.\<close>

fun accept_loop :: "(io_error, 'c) res list \<Rightarrow> (io_error \<times> duration) list \<times> 'c list" where
  "accept_loop [] = ([], [])"
| "accept_loop (Inr client # accepts) =
     (let (failures, clients) = accept_loop accepts in (failures, client # clients))"
| "accept_loop (Inl failure # accepts) =
     (let (failures, clients) = accept_loop accepts in ((failure, ACCEPT_BACKOFF) # failures, clients))"

lemma accept_loop_next:
  "accept_loop accepts =
     (case next_client accepts of
        (failures, None) \<Rightarrow> (failures, [])
      | (failures, Some (client, accepts')) \<Rightarrow>
          (failures @ fst (accept_loop accepts'), client # snd (accept_loop accepts')))"
  by (induction accepts rule: next_client.induct) (auto split: prod.splits option.splits)

text \<open>\<open>ipc_server::serve\<close>: the same until the shutdown signal, which also ends the wait after a failure.\<close>

datatype 'c ipc_event = ShutdownSignal | IpcAccepted 'c | IpcAcceptFailed io_error

fun ipc_serve :: "'c ipc_event list \<Rightarrow> 'c list \<times> bool" where
  "ipc_serve [] = ([], False)"
| "ipc_serve (ShutdownSignal # evs) = ([], True)"
| "ipc_serve (IpcAccepted client # evs) = (let (clients, ended) = ipc_serve evs in (client # clients, ended))"
| "ipc_serve (IpcAcceptFailed failure # evs) = ipc_serve evs"

text \<open>No failed accept ends the service of commands; the signal does, and nobody is served after it.\<close>

lemma ipc_serve_outlives_failures:
  "ipc_serve (map IpcAcceptFailed failures @ evs) = ipc_serve evs"
  "ShutdownSignal \<notin> set evs \<Longrightarrow> snd (ipc_serve evs) = False"
  "ShutdownSignal \<notin> set evs \<Longrightarrow> ipc_serve (evs @ ShutdownSignal # later) = (fst (ipc_serve evs), True)"
proof -
  show "ipc_serve (map IpcAcceptFailed failures @ evs) = ipc_serve evs"
    by (induction failures) simp_all
  show "ShutdownSignal \<notin> set evs \<Longrightarrow> snd (ipc_serve evs) = False"
    by (induction evs rule: ipc_serve.induct) (auto split: prod.splits)
  show "ShutdownSignal \<notin> set evs \<Longrightarrow> ipc_serve (evs @ ShutdownSignal # later) = (fst (ipc_serve evs), True)"
    by (induction evs rule: ipc_serve.induct) (auto split: prod.splits)
qed

subsection \<open>What a client is served with\<close>

datatype front = FrontHttp | FrontSocks | FrontForward target

text \<open>The loop that accepts at an address, if any listener is held there.\<close>

definition front_at :: "frontends \<Rightarrow> socket_addr \<Rightarrow> front option" where
  "front_at frontends addr =
     (case frontends of
        Unbound \<Rightarrow> None
      | Bound b \<Rightarrow>
          if ac_addr (bd_http b) = addr then Some FrontHttp
          else if ac_addr (bd_socks b) = addr then Some FrontSocks
          else map_option (\<lambda>fg. FrontForward (fg_target fg))
                 (List.find (\<lambda>fg. ac_addr (fg_accepting fg) = addr) (bd_forwards b)))"

record 'net accepted =
  an_front :: front
  an_rules :: "'net ruleset"
  an_client :: conn

definition accept_at :: "'net daemon \<Rightarrow> socket_addr \<Rightarrow> conn \<Rightarrow> 'net accepted option" where
  "accept_at st addr client =
     map_option (\<lambda>front. \<lparr> an_front = front, an_rules = dm_rules st, an_client = client \<rparr>)
       (front_at (dm_frontends st) addr)"

definition serve_accepted ::
  "('net, 'a) ipnet_scheme \<Rightarrow> 's hop_ops \<Rightarrow> relays \<Rightarrow> timing \<Rightarrow> 'net accepted \<Rightarrow> 's \<Rightarrow> 's served" where
  "serve_accepted ipnet ops io tm a hop =
     (case an_front a of
        FrontHttp \<Rightarrow> http_serve ipnet ops io tm (an_rules a) (an_client a) hop
      | FrontSocks \<Rightarrow> socks_serve ipnet ops io tm (an_rules a) (an_client a) hop
      | FrontForward target \<Rightarrow> forward_serve ipnet ops io tm (an_rules a) (an_client a) hop target)"

subsection \<open>Clients between requests\<close>

datatype server_event = AtTask task_event | AtListener socket_addr "(io_error, conn) res"

fun serve_events ::
  "'net env \<Rightarrow> 'net daemon \<Rightarrow> server_event list \<Rightarrow> 'net daemon \<times> 'net accepted list" where
  "serve_events env st [] = (st, [])"
| "serve_events env st (AtTask ev # evs) = serve_events env (fst (task_step env st ev)) evs"
| "serve_events env st (AtListener addr (Inl failure) # evs) = serve_events env st evs"
| "serve_events env st (AtListener addr (Inr client) # evs) =
     (let (st', served) = serve_events env st evs in
      (st', (case accept_at st addr client of None \<Rightarrow> served | Some a \<Rightarrow> a # served)))"

text \<open>
  The states other tasks can observe while a load is committed: before it, with the front ends moved,
  with the forwards opened, with the rules published, and with the upstreams published.
\<close>

definition commit_states :: "'net env \<Rightarrow> clock \<Rightarrow> 'net daemon \<Rightarrow> 'net staging \<Rightarrow> 'net daemon list" where
  "commit_states env ck st staging =
     (let c = staging_commit staging;
          (st1, moved) = (case cm_listen c of None \<Rightarrow> (st, Ok ()) | Some addrs \<Rightarrow> rebind env st addrs)
      in [st, st1] @
         (case moved of
            Inl failure \<Rightarrow> []
          | Inr _ \<Rightarrow>
              (let (st2, opened) = rebind_forwards env st1 (cm_forwards c) in
               st2 #
               (case opened of
                  Inl failure \<Rightarrow> []
                | Inr _ \<Rightarrow>
                    [publish_rules st2 (cm_rules c),
                     adopt_upstream ck (publish_rules st2 (cm_rules c)) (cm_upstream c)]))))"

definition end_states :: "'net env \<Rightarrow> clock \<Rightarrow> 'net daemon \<Rightarrow> script_outcome \<Rightarrow> 'net daemon list" where
  "end_states env ck st outcome =
     (case dm_load st of
        None \<Rightarrow> [st]
      | Some f \<Rightarrow>
          if outcome = Succeeded \<and> staging_failure (if_staged f) = None
          then commit_states env ck (st\<lparr> dm_load := None \<rparr>) (if_staged f)
          else [st])"

lemma commit_states_last: "last (commit_states env ck st staging) = fst (commit env ck st staging)"
  by (simp add: commit_states_def commit_def publish_def Let_def
      split: option.split prod.split sum.split)

text \<open>The rules traffic sees change in one step, and before the upstreams that go with them.\<close>

lemma commit_states_parts:
  assumes "s \<in> set (commit_states env ck st staging)"
  shows "dm_rules s = dm_rules st \<and> dm_upstream s = dm_upstream st \<and> dm_heap s = dm_heap st
    \<or> dm_rules s = sg_rules staging"
proof -
  define moved where "moved = (case sg_listen staging of None \<Rightarrow> (st, Ok ()) | Some addrs \<Rightarrow> rebind env st addrs)"
  obtain st1 r1 where m: "moved = (st1, r1)" by (cases moved)
  have keeps: "dm_rules st1 = dm_rules st \<and> dm_heap st1 = dm_heap st \<and> dm_upstream st1 = dm_upstream st"
    using m rebind_keeps [of env st] by (auto simp: moved_def split: option.splits)
  obtain st2 r2 where fw: "rebind_forwards env st1 (sg_forwards staging) = (st2, r2)" by fastforce
  note keeps2 = rebind_forwards_keeps [OF fw]
  show ?thesis
    using assms m fw keeps keeps2
    unfolding commit_states_def staging_commit_def moved_def
    by (cases r1; cases r2) (auto simp: Let_def)
qed

subsection \<open>Connections see whole loads\<close>

text \<open>The requests among the events, in order.\<close>

fun task_requests :: "server_event list \<Rightarrow> request list" where
  "task_requests [] = []"
| "task_requests (AtTask (TakeRequest ck cmd reply) # evs) = (ck, cmd, reply) # task_requests evs"
| "task_requests (ev # evs) = task_requests evs"

fun ends_no_run :: "server_event \<Rightarrow> bool" where
  "ends_no_run (AtTask (TakeCompletion ck outcome)) = False"
| "ends_no_run ev = True"

lemma serve_events_state:
  "list_all ends_no_run evs \<Longrightarrow> fst (serve_events env st evs) = run_requests env st (task_requests evs)"
proof (induction env st evs rule: serve_events.induct)
  case (2 env st ev evs)
  then show ?case by (cases ev) (simp_all add: run_requests_def)
qed (auto simp: run_requests_def split: prod.splits)

text \<open>While a run is in flight every client is served as one that came before it.\<close>

lemma served_in_flight:
  assumes "list_all ends_no_run evs" and "dm_load st = Some f"
  shows "list_all (\<lambda>a. an_rules a = dm_rules st
      \<and> (\<exists>addr. front_at (dm_frontends st) addr = Some (an_front a))) (snd (serve_events env st evs))"
  using assms
proof (induction env st evs arbitrary: f rule: serve_events.induct)
  case (2 env st ev evs)
  then obtain ck cmd reply where ev: "ev = TakeRequest ck cmd reply" by (cases ev) auto
  define g where "g = (if load_of_command cmd = Some (if_id f)
    then f\<lparr> if_staged := stage_command (en_ipnet env) (if_staged f) cmd \<rparr> else f)"
  have "fst (handle env ck st cmd reply) = st\<lparr> dm_load := Some g \<rparr>"
    using handle_in_flight [OF "2.prems"(2), of env ck cmd reply] "2.prems"(2) by (simp add: g_def)
  then have step: "fst (task_step env st ev) = st\<lparr> dm_load := Some g \<rparr>" by (simp add: ev)
  from "2.IH" [of g] "2.prems"(1) show ?case by (simp add: step)
next
  case (4 env st addr client evs)
  then show ?case
    by (auto simp: accept_at_def split: prod.splits option.splits)
qed simp_all

lemma run_in_flight:
  assumes "dm_load st = Some f" and "run_requests env st reqs = st'"
  shows "dm_load st' = Some (f\<lparr> if_staged := staged_by env f reqs \<rparr>)" and "dm_rules st' = dm_rules st"
    and "dm_upstream st' = dm_upstream st" and "dm_heap st' = dm_heap st"
  using run_requests_in_flight [OF assms(1), of env reqs] assms(2) by auto


text \<open>A daemon with its front ends up, running a script that declares a rule while a client arrives.\<close>

definition serving_daemon :: "ipv4 daemon" where
  "serving_daemon =
     (case frontends_bind free_os 0 DEFAULT_LISTEN of
        (n, Inr front) \<Rightarrow>
          fst (reload example_env (daemon_new front n DEFAULT_LISTEN LOAD_TIMEOUT RETURN_HOLD 0) None 0)
      | (n, Inl failure) \<Rightarrow> example_daemon)"

definition serving_client :: conn where
  "serving_client =
     \<lparr> cn_in = [], cn_failed = None, cn_local = Some DEFAULT_HTTP_LISTEN, cn_out = [], cn_writes = [] \<rparr>"

definition serving_events :: "server_event list" where
  "serving_events =
     [AtTask (TakeRequest example_clock (AddRule Require Suffix ''example.com'' (Some 1)) 1),
      AtListener DEFAULT_HTTP_LISTEN (Err (io_other ''too many open files'')),
      AtListener DEFAULT_HTTP_LISTEN (Ok serving_client)]"


end
