(* ===== verification/Logging.thy ===== *)
theory Logging
  imports Daemon "HOL-Library.List_Lexorder" "HOL-Library.Char_ord"
begin

section \<open>The log: \<open>logging.rs\<close> and \<open>nhop logs\<close>\<close>

text \<open>
  What a decision leaves in the log, how a line is read back, which lines of a file are complete
  and how \<open>nhop logs\<close> follows a file that grows.  Reading JSON and the text of an instant belong to
  libraries: the parameter \<open>json\<close> reads a line as a value and a value as one of the record shapes.
\<close>

subsection \<open>Names\<close>

fun decision_name :: "decision_kind \<Rightarrow> string" where
  "decision_name KDirect = ''direct''"
| "decision_name KNever = ''never''"
| "decision_name KUpstream = ''upstream''"

fun class_name :: "rule_class \<Rightarrow> string" where
  "class_name Require = ''require''"
| "class_name Prefer = ''prefer''"
| "class_name Never = ''never''"

fun hop_name :: "effective_hop \<Rightarrow> string" where
  "hop_name HopDirect = ''direct''"
| "hop_name HopUpstream = ''upstream''"
| "hop_name HopFallbackDirect = ''fallback_direct''"

fun health_name :: "health_state \<Rightarrow> string" where
  "health_name Up = ''up''"
| "health_name Down = ''down''"

fun cause_name :: "verdict_cause \<Rightarrow> string" where
  "cause_name Probe = ''probe''"
| "cause_name Dial = ''dial''"

fun switch_cause_name :: "switch_cause \<Rightarrow> string" where
  "switch_cause_name CauseDown = ''down''"
| "switch_cause_name CauseHeld = ''held''"
| "switch_cause_name CauseRecovered = ''recovered''"
| "switch_cause_name CauseReload = ''reload''"

subsection \<open>The line of a decision\<close>

datatype log_field = FText string | FNumber nat

text \<open>The fields of the one record a connection leaves; an absent option records no field.\<close>

definition decision_fields :: "event_view \<Rightarrow> (string \<times> log_field) list" where
  "decision_fields e =
     List.map_filter (\<lambda>(key, field). map_option (\<lambda>f. (key, f)) field)
       [(''host'', Some (FText (ev_host e))),
        (''port'', Some (FNumber (unat (ev_port e)))),
        (''decision'', Some (FText (decision_name (ev_decision e)))),
        (''rule_index'', map_option FNumber (ev_rule_index e)),
        (''class'', map_option (\<lambda>c. FText (class_name c)) (ev_class e)),
        (''upstream'', Some (FText (health_name (ev_upstream e)))),
        (''connect_ms'', map_option FNumber (ev_connect_ms e)),
        (''hop'', map_option (\<lambda>h. FText (hop_name h)) (ev_hop e)),
        (''via'', map_option FText (ev_via e)),
        (''duration_ms'', Some (FNumber (ev_duration_ms e))),
        (''error'', map_option FText (ev_error e))]"

subsection \<open>Reading a line back\<close>

record logged_decision =
  ld_at :: time
  ld_event :: event_view

record logged_verdict =
  lv_at :: time
  lv_upstream :: "upstream_addr option"
  lv_from :: health_state
  lv_to :: health_state
  lv_cause :: verdict_cause

record logged_switch =
  ls_at :: time
  ls_from :: "upstream_addr option"
  ls_to :: "upstream_addr option"
  ls_cause :: switch_cause

datatype logged =
    LoggedDecision logged_decision
  | LoggedVerdict logged_verdict
  | LoggedSwitch logged_switch

record verdict_fields =
  vf_upstream :: "upstream_addr option"
  vf_from :: health_state
  vf_to :: health_state
  vf_cause :: verdict_cause

record switch_fields =
  sf_from :: upstream_addr
  sf_to :: upstream_addr
  sf_cause :: switch_cause

text \<open>What the reader takes from the JSON and the time library.\<close>

record 'v json =
  js_parse :: "string \<Rightarrow> 'v option"
  js_get :: "'v \<Rightarrow> string \<Rightarrow> 'v option"
  js_str :: "'v \<Rightarrow> string option"
  js_event :: "'v \<Rightarrow> event_view option"
  js_verdict :: "'v \<Rightarrow> verdict_fields option"
  js_switch :: "'v \<Rightarrow> switch_fields option"
  js_instant :: "string \<Rightarrow> time option"

definition stamped_value :: "'v json \<Rightarrow> 'v \<Rightarrow> time option" where
  "stamped_value json line =
     Option.bind (js_get json line ''timestamp'') (\<lambda>at.
       Option.bind (js_str json at) (js_instant json))"

definition stamped_line :: "'v json \<Rightarrow> string \<Rightarrow> time option" where
  "stamped_line json line = Option.bind (js_parse json line) (stamped_value json)"

definition named_side :: "upstream_addr \<Rightarrow> upstream_addr option" where
  "named_side addr = (if addr = [] then None else Some addr)"

definition read_logged :: "'v json \<Rightarrow> string \<Rightarrow> logged option" where
  "read_logged json line =
     Option.bind (js_parse json line) (\<lambda>line.
       Option.bind (stamped_value json line) (\<lambda>at.
         Option.bind (js_get json line ''fields'') (\<lambda>fs.
           case js_event json fs of
             Some event \<Rightarrow> Some (LoggedDecision \<lparr> ld_at = at, ld_event = event \<rparr>)
           | None \<Rightarrow>
               (case js_verdict json fs of
                  Some v \<Rightarrow>
                    Some (LoggedVerdict
                      \<lparr> lv_at = at, lv_upstream = vf_upstream v, lv_from = vf_from v,
                        lv_to = vf_to v, lv_cause = vf_cause v \<rparr>)
                | None \<Rightarrow>
                    map_option
                      (\<lambda>s. LoggedSwitch
                        \<lparr> ls_at = at, ls_from = named_side (sf_from s), ls_to = named_side (sf_to s),
                          ls_cause = sf_cause s \<rparr>)
                      (js_switch json fs)))))"

subsection \<open>Windows\<close>

datatype window = WindowAll | WindowSince time

text \<open>\<open>checked_sub\<close>: the clock cannot be taken back before its earliest instant.\<close>

definition reaching_back :: "time \<Rightarrow> time \<Rightarrow> duration \<Rightarrow> window" where
  "reaching_back earliest now back =
     (if now - int back < earliest then WindowAll else WindowSince (now - int back))"

definition window_holds :: "'v json \<Rightarrow> window \<Rightarrow> string \<Rightarrow> bool" where
  "window_holds json window line =
     (case window of
        WindowAll \<Rightarrow> True
      | WindowSince cutoff \<Rightarrow>
          (case stamped_line json line of None \<Rightarrow> False | Some at \<Rightarrow> cutoff \<le> at))"

subsection \<open>The complete lines of a file\<close>

text \<open>\<open>split_inclusive('\n')\<close>.\<close>

fun split_inclusive :: "string \<Rightarrow> string list" where
  "split_inclusive [] = []"
| "split_inclusive (c # cs) =
     (if c = LF then [c] # split_inclusive cs
      else case split_inclusive cs of [] \<Rightarrow> [[c]] | l # ls \<Rightarrow> (c # l) # ls)"

definition complete_lines :: "string \<Rightarrow> string list" where
  "complete_lines text = takeWhile (\<lambda>l. suffix [LF] l) (split_inclusive text)"

text \<open>
  \<open>read_from\<close> on the bytes of the file: the lines past the offset and the offset they end at, or no
  result where the bytes past it are not UTF-8.
\<close>

definition read_from :: "string \<Rightarrow> nat \<Rightarrow> (string list \<times> nat) option" where
  "read_from content offset =
     (let offset = (if length content < offset then 0 else offset);
          text = drop offset content
      in if utf8 text then
           let ls = complete_lines text in
           Some (map trim_end ls, offset + clamp64 (sum_list (map length ls)))
         else None)"

text \<open>The kept files: those of the state directory whose names are texts that begin as the log file's does.\<close>

definition log_files :: "string \<Rightarrow> string list \<Rightarrow> string list" where
  "log_files name entries = sort (filter (\<lambda>entry. utf8 entry \<and> prefix name entry) entries)"

subsection \<open>Following a file\<close>

text \<open>
  One turn of \<open>keep_reading\<close>: the files of the directory as they are now, each with its content; the
  result is what is printed and where the next turn goes on.  \<open>Inl\<close> ends the command.
\<close>

type_synonym snapshot = "(string \<times> string) list option"

definition keep_reading_turn ::
  "(string \<Rightarrow> bool) \<Rightarrow> string \<times> nat \<Rightarrow> snapshot \<Rightarrow> (exit, string list \<times> (string \<times> nat)) res" where
  "keep_reading_turn keeps at snapshot =
     (let (current, offset) = at in
      case snapshot of
        None \<Rightarrow> Err Missing
      | Some files \<Rightarrow>
          if files = [] then Ok ([], at)
          else
            (let (newest, content) = last files;
                 (current, offset) = (if newest \<noteq> current then (newest, 0) else (current, offset))
             in case read_from content offset of
                  None \<Rightarrow> Err Failed
                | Some (ls, next) \<Rightarrow> Ok (filter keeps ls, (current, next))))"

fun keep_reading ::
  "(string \<Rightarrow> bool) \<Rightarrow> string \<times> nat \<Rightarrow> snapshot list \<Rightarrow> string list \<times> (exit, string \<times> nat) res" where
  "keep_reading keeps at [] = ([], Ok at)"
| "keep_reading keeps at (s # snapshots) =
     (case keep_reading_turn keeps at s of
        Inl exit \<Rightarrow> ([], Err exit)
      | Inr (printed, next) \<Rightarrow>
          (let (later, ended) = keep_reading keeps next snapshots in (printed @ later, ended)))"

subsection \<open>Lines are read once\<close>

lemma split_inclusive_concat: "concat (split_inclusive s) = s"
  by (induction s) (auto split: list.splits)

lemma split_inclusive_line: "LF \<notin> set l \<Longrightarrow> split_inclusive (l @ LF # r) = (l @ [LF]) # split_inclusive r"
  by (induction l) auto

lemma split_inclusive_rest: "LF \<notin> set l \<Longrightarrow> l \<noteq> [] \<Longrightarrow> split_inclusive l = [l]"
proof (induction l)
  case (Cons c l)
  then show ?case by (cases "l = []") auto
qed simp

lemma complete_lines_line: "LF \<notin> set l \<Longrightarrow> complete_lines (l @ LF # r) = (l @ [LF]) # complete_lines r"
  by (simp add: complete_lines_def split_inclusive_line)

lemma complete_lines_rest: "LF \<notin> set l \<Longrightarrow> complete_lines l = []"
  by (cases "l = []") (auto simp: complete_lines_def split_inclusive_rest suffix_def)

text \<open>The complete lines are a run of bytes from the start; what is left has no line end.\<close>

lemma complete_lines_parts:
  "\<exists>rest. s = concat (complete_lines s) @ rest \<and> LF \<notin> set rest"
proof (induction "length s" arbitrary: s rule: less_induct)
  case less
  show ?case
  proof (cases "LF \<in> set s")
    case True
    then obtain l r where s: "s = l @ LF # r" and l: "LF \<notin> set l" by (blast dest: split_list_first)
    then obtain rest where "r = concat (complete_lines r) @ rest" "LF \<notin> set rest"
      using less [of r] by auto
    then show ?thesis using s complete_lines_line [OF l, of r]
      by (metis append_Cons append_Nil append_assoc concat.simps(2))
  qed (simp add: complete_lines_rest)
qed

lemma complete_lines_append:
  "complete_lines (concat (complete_lines s) @ t) = complete_lines s @ complete_lines t"
proof (induction "length s" arbitrary: s rule: less_induct)
  case less
  show ?case
  proof (cases "LF \<in> set s")
    case True
    then obtain l r where s: "s = l @ LF # r" and l: "LF \<notin> set l" by (blast dest: split_list_first)
    with less [of r] show ?thesis by (simp add: complete_lines_line)
  next
    case False
    then have "complete_lines s = []" by (rule complete_lines_rest)
    then show ?thesis by simp
  qed
qed

text \<open>Reading on from where a first read ended gives the lines the first read left.\<close>

lemma complete_lines_resume:
  "complete_lines (s @ t) =
     complete_lines s @ complete_lines (drop (sum_list (map length (complete_lines s))) (s @ t))"
proof -
  obtain rest where s: "s = concat (complete_lines s) @ rest" using complete_lines_parts by blast
  define n where "n = sum_list (map length (complete_lines s))"
  have n: "n = length (concat (complete_lines s))" by (simp add: n_def length_concat)
  have "drop n (s @ t) = rest @ t" by (subst s) (simp add: n)
  moreover have "complete_lines (s @ t) = complete_lines s @ complete_lines (rest @ t)"
    using complete_lines_append [of s "rest @ t"] s by (metis append_assoc)
  ultimately show ?thesis by (simp add: n_def)
qed

text \<open>A line end is never inside a character, so what follows one is UTF-8 by itself.\<close>

lemma LF_no_continuation [simp]:
  "\<not> cont_byte LF" "byte_in 0 127 LF" "\<not> byte_in 160 191 LF" "\<not> byte_in 128 159 LF"
  "\<not> byte_in 144 191 LF" "\<not> byte_in 128 143 LF"
  by (simp_all add: cont_byte_def byte_in_def)

lemma utf8_step:
  assumes "utf8 (x # s)"
  obtains p u where "s = p @ u" and "LF \<notin> set p" and "utf8 u"
proof -
  have cont: "c \<noteq> LF" if "cont_byte c \<or> byte_in 160 191 c \<or> byte_in 128 159 c \<or> byte_in 144 191 c
      \<or> byte_in 128 143 c" for c
    using that LF_no_continuation by metis
  from assms consider "utf8 s"
    | b t where "s = [b] @ t" "cont_byte b" "utf8 t"
    | b c t where "s = [b, c] @ t" "cont_byte b \<or> byte_in 160 191 b \<or> byte_in 128 159 b"
        "cont_byte c" "utf8 t"
    | b c d t where "s = [b, c, d] @ t" "cont_byte b \<or> byte_in 144 191 b \<or> byte_in 128 143 b"
        "cont_byte c" "cont_byte d" "utf8 t"
    unfolding utf8.simps(2) [of x s]
    by (auto simp del: utf8.simps(2) split: if_splits list.splits)
  then show thesis
  proof cases
    case 1
    then show thesis using that [of "[]" s] by simp
  next
    case (2 b t)
    then show thesis using that [of "[b]" t] cont by auto
  next
    case (3 b c t)
    then show thesis using that [of "[b, c]" t] cont by auto
  next
    case (4 b c d t)
    then show thesis using that [of "[b, c, d]" t] cont by auto
  qed
qed

lemma utf8_after_LF: "utf8 (a @ LF # r) \<Longrightarrow> utf8 r"
proof (induction "length a" arbitrary: a rule: less_induct)
  case less
  show ?case
  proof (cases a)
    case Nil
    with less.prems show ?thesis by simp
  next
    case (Cons x b)
    with less.prems have "utf8 (x # (b @ LF # r))" by (simp del: utf8.simps)
    then obtain p u where p: "b @ LF # r = p @ u" "LF \<notin> set p" "utf8 u" by (rule utf8_step)
    then obtain b' where b': "b = p @ b'" "u = b' @ LF # r"
      by (auto simp: append_eq_append_conv2 Cons_eq_append_conv)
    with less.hyps [of b'] Cons p(3) show ?thesis by simp
  qed
qed

lemma utf8_after_lines:
  assumes "utf8 (concat (complete_lines s) @ t)"
  shows "utf8 t"
proof (cases "complete_lines s" rule: rev_cases)
  case (snoc ls l)
  then have "l \<in> set (takeWhile (\<lambda>l. suffix [LF] l) (split_inclusive s))"
    by (simp add: complete_lines_def)
  then have "suffix [LF] l" by (blast dest: set_takeWhileD)
  then obtain l' where "l = l' @ [LF]" by (auto simp: suffix_def)
  with assms snoc utf8_after_LF [of "concat ls @ l'" t] show ?thesis by simp
qed (use assms in simp)

text \<open>Where the complete lines of a text end.\<close>

definition lines_end :: "string \<Rightarrow> nat" where
  "lines_end s = length (concat (complete_lines s))"

lemma lines_end_le: "lines_end s \<le> length s"
proof -
  obtain rest where "s = concat (complete_lines s) @ rest" using complete_lines_parts by blast
  then have "length s = lines_end s + length rest" unfolding lines_end_def by (metis length_append)
  then show ?thesis by simp
qed

lemma read_from_resume:
  assumes "utf8 (s @ t)" and "length (s @ t) \<le> u64_max"
  shows "\<exists>new. read_from (s @ t) (lines_end s) = Some (map trim_end new, lines_end (s @ t))
    \<and> complete_lines (s @ t) = complete_lines s @ new"
proof -
  obtain rest where s: "s = concat (complete_lines s) @ rest" using complete_lines_parts by blast
  have drop: "drop (lines_end s) (s @ t) = rest @ t"
    unfolding lines_end_def by (subst (2) s) simp
  have new: "complete_lines (s @ t) = complete_lines s @ complete_lines (rest @ t)"
    using complete_lines_append [of s "rest @ t"] s by (metis append_assoc)
  have "utf8 (rest @ t)"
    using assms(1) utf8_after_lines [of s "rest @ t"] s by (metis append_assoc)
  moreover have "lines_end s \<le> length (s @ t)" using lines_end_le [of s] by simp
  moreover have "lines_end (s @ t) = lines_end s + sum_list (map length (complete_lines (rest @ t)))"
    unfolding lines_end_def new by (simp add: length_concat)
  moreover have "lines_end (s @ t) \<le> u64_max" using lines_end_le [of "s @ t"] assms(2) by simp
  ultimately have "read_from (s @ t) (lines_end s)
      = Some (map trim_end (complete_lines (rest @ t)), lines_end (s @ t))"
    by (simp add: read_from_def drop clamp64_def Let_def del: drop_append)
  with new show ?thesis by blast
qed

subsection \<open>Properties\<close>

text \<open>The snapshots of a log that only grows: other files before the one followed, its content last.\<close>

definition growing :: "string \<Rightarrow> ((string \<times> string) list \<times> string) list \<Rightarrow> snapshot list" where
  "growing name turns = map (\<lambda>(older, content). Some (older @ [(name, content)])) turns"

definition grows :: "string \<Rightarrow> ((string \<times> string) list \<times> string) list \<Rightarrow> bool" where
  "grows content turns \<longleftrightarrow>
     sorted_wrt prefix (content # map snd turns)
     \<and> list_all (\<lambda>c. utf8 c \<and> length c \<le> u64_max) (content # map snd turns)"

lemma grows_step:
  "grows content ((older, next) # turns) \<Longrightarrow>
     \<exists>t. next = content @ t \<and> utf8 next \<and> length next \<le> u64_max \<and> grows next turns"
  by (auto simp: grows_def prefix_def)

lemma keep_reading_grows:
  assumes "grows content turns"
  shows "\<exists>new. keep_reading keeps (name, lines_end content) (growing name turns)
      = (filter keeps (map trim_end new), Ok (name, lines_end (last (content # map snd turns))))
    \<and> complete_lines (last (content # map snd turns)) = complete_lines content @ new"
  using assms
proof (induction turns arbitrary: content)
  case Nil
  then show ?case by (simp add: growing_def)
next
  case (Cons turn turns)
  obtain older nxt where turn: "turn = (older, nxt)" by (cases turn)
  from grows_step Cons.prems obtain t where t: "nxt = content @ t" "utf8 nxt" "length nxt \<le> u64_max"
    and rest: "grows nxt turns" unfolding turn by blast
  from read_from_resume [of content t] t obtain new where
    new: "read_from nxt (lines_end content) = Some (map trim_end new, lines_end nxt)"
      "complete_lines nxt = complete_lines content @ new" by auto
  from Cons.IH [OF rest] obtain later where
    later: "keep_reading keeps (name, lines_end nxt) (growing name turns)
        = (filter keeps (map trim_end later), Ok (name, lines_end (last (nxt # map snd turns))))"
      "complete_lines (last (nxt # map snd turns)) = complete_lines nxt @ later" by blast
  have "keep_reading_turn keeps (name, lines_end content) (Some (older @ [(name, nxt)]))
      = Ok (filter keeps (map trim_end new), (name, lines_end nxt))"
    by (simp add: keep_reading_turn_def new)
  with new later show ?case by (auto simp: turn growing_def intro!: exI [of _ "new @ later"])
qed



text \<open>
  A rotation is not followed so closely.  What was appended to a file after the last turn read it is
  never printed once a newer file is there: the turn starts on the newer file alone.
\<close>

lemma rotation_skips_unread_tail:
  assumes "newer \<noteq> name"
  shows "keep_reading_turn keeps (name, offset) (Some (older @ [(name, old_content), (newer, content)]))
    = keep_reading_turn keeps (name, offset) (Some [(newer, content)])"
  using assms by (simp add: keep_reading_turn_def)

end
