(* ===== verification/Json.thy ===== *)
theory Json
  imports Prelude
begin

section \<open>Values on the wire and what serde derives for them\<close>

text \<open>
  The values a JSON text stands for and what the readers serde derives do with them: a field by its
  name, one that may be missing, a number of a width, a variant by its tag.  \<open>VOther\<close> is a number
  that is negative, fractional or past 64 bits, which no reader of this program takes.  An object
  has each of its names once; a record or a tagged variant is read from an object, the positional
  form serde also accepts is left out.  The text itself is written and read by the library.
\<close>

subsection \<open>Values\<close>

datatype val =
    VNull
  | VBool bool
  | VNumber nat
  | VText string
  | VArray "val list"
  | VObject "(string \<times> val) list"
  | VOther

fun val_get :: "val \<Rightarrow> string \<Rightarrow> val option" where
  "val_get (VObject fs) key = map_of fs key"
| "val_get _ key = None"

fun val_str :: "val \<Rightarrow> string option" where
  "val_str (VText s) = Some s"
| "val_str _ = None"

text \<open>\<open>u16\<close>, \<open>u32\<close> and \<open>u64\<close> take a number in range.\<close>

fun val_number :: "nat \<Rightarrow> val \<Rightarrow> nat option" where
  "val_number limit (VNumber n) = (if n \<le> limit then Some n else None)"
| "val_number limit _ = None"

text \<open>A unit variant is its name, or an object of its name and null.\<close>

fun variant_name :: "val \<Rightarrow> string option" where
  "variant_name (VText s) = Some s"
| "variant_name (VObject [(s, VNull)]) = Some s"
| "variant_name _ = None"

definition val_variant :: "('a \<Rightarrow> string) \<Rightarrow> 'a list \<Rightarrow> val \<Rightarrow> 'a option" where
  "val_variant name variants v =
     Option.bind (variant_name v) (\<lambda>s. List.find (\<lambda>x. name x = s) variants)"

text \<open>A field that must be there, and one of an \<open>Option\<close>, which may be missing or null.\<close>

definition field_of :: "(val \<Rightarrow> 'a option) \<Rightarrow> (string \<times> val) list \<Rightarrow> string \<Rightarrow> 'a option" where
  "field_of reads fs key = Option.bind (map_of fs key) reads"

definition optional_of :: "(val \<Rightarrow> 'a option) \<Rightarrow> (string \<times> val) list \<Rightarrow> string \<Rightarrow> 'a option option" where
  "optional_of reads fs key =
     (case map_of fs key of
        None \<Rightarrow> Some None
      | Some v \<Rightarrow> (if v = VNull then Some None else map_option Some (reads v)))"

subsection \<open>More readers and the writers\<close>

fun val_bool :: "val \<Rightarrow> bool option" where
  "val_bool (VBool b) = Some b"
| "val_bool _ = None"

fun read_all :: "('a \<Rightarrow> 'b option) \<Rightarrow> 'a list \<Rightarrow> 'b list option" where
  "read_all reads [] = Some []"
| "read_all reads (x # xs) =
     Option.bind (reads x) (\<lambda>y. Option.bind (read_all reads xs) (\<lambda>ys. Some (y # ys)))"

definition val_list :: "(val \<Rightarrow> 'a option) \<Rightarrow> val \<Rightarrow> 'a list option" where
  "val_list reads v = (case v of VArray vs \<Rightarrow> read_all reads vs | _ \<Rightarrow> None)"

text \<open>A field with \<open>serde(default)\<close>: empty where it is missing, and only there.\<close>

definition default_list_of :: "(val \<Rightarrow> 'a option) \<Rightarrow> (string \<times> val) list \<Rightarrow> string \<Rightarrow> 'a list option" where
  "default_list_of reads fs key =
     (case map_of fs key of None \<Rightarrow> Some [] | Some v \<Rightarrow> val_list reads v)"

definition option_val :: "('a \<Rightarrow> val) \<Rightarrow> 'a option \<Rightarrow> val" where
  "option_val writes x = (case x of None \<Rightarrow> VNull | Some a \<Rightarrow> writes a)"

definition list_val :: "('a \<Rightarrow> val) \<Rightarrow> 'a list \<Rightarrow> val" where
  "list_val writes xs = VArray (map writes xs)"

fun val_fields :: "val \<Rightarrow> (string \<times> val) list option" where
  "val_fields (VObject fs) = Some fs"
| "val_fields _ = None"

subsection \<open>The contract of a codec\<close>

text \<open>
  What a type on the wire promises: a value that fits its type reads back from what was written for
  it, up to \<open>mean\<close>, the part of it the wire carries.  No type writes null for itself, which is how
  an absent option is told from a present one.
\<close>

locale codec =
  fixes writes :: "'a \<Rightarrow> val"
    and reads :: "val \<Rightarrow> 'a option"
    and fits :: "'a \<Rightarrow> bool"
    and mean :: "'a \<Rightarrow> 'a"
  assumes reads_writes: "fits x \<Longrightarrow> reads (writes x) = Some (mean x)"
    and writes_not_null: "writes x \<noteq> VNull"
begin

lemma required: "map_of fs key = Some (writes x) \<Longrightarrow> fits x \<Longrightarrow> field_of reads fs key = Some (mean x)"
  by (simp add: field_of_def reads_writes)

lemma optional:
  "map_of fs key = Some (option_val writes x) \<Longrightarrow> pred_option fits x \<Longrightarrow>
     optional_of reads fs key = Some (map_option mean x)"
  by (cases x) (simp_all add: optional_of_def option_val_def reads_writes writes_not_null)

lemma absent: "map_of fs key = None \<Longrightarrow> optional_of reads fs key = Some None"
  by (simp add: optional_of_def)

lemma read_all_writes: "list_all fits xs \<Longrightarrow> read_all reads (map writes xs) = Some (map mean xs)"
  by (induction xs) (simp_all add: reads_writes)

lemma listed: "list_all fits xs \<Longrightarrow> val_list reads (list_val writes xs) = Some (map mean xs)"
  by (simp add: val_list_def list_val_def read_all_writes)

lemma defaulted:
  "map_of fs key = Some (list_val writes xs) \<Longrightarrow> list_all fits xs \<Longrightarrow>
     default_list_of reads fs key = Some (map mean xs)"
  by (simp add: default_list_of_def listed)

end

text \<open>The codecs of texts, flags and numbers.\<close>

interpretation text_codec: codec VText val_str "\<lambda>s. True" "\<lambda>s. s"
  by unfold_locales simp_all

interpretation flag_codec: codec VBool val_bool "\<lambda>b. True" "\<lambda>b. b"
  by unfold_locales simp_all

interpretation number_codec: codec VNumber "val_number limit" "\<lambda>n. n \<le> limit" "\<lambda>n. n"
  by unfold_locales simp_all

end
