(* ===== verification/Records.thy ===== *)
theory Records
  imports Logging Json
begin

section \<open>The records of the log, written and read back\<close>

text \<open>
  The three kinds of record the daemon writes - a decision (\<open>logging.rs\<close>), a verdict
  (\<open>upstream/health.rs\<close>) and a switch (\<open>upstream/select.rs\<close>) - field by field, and the readers the
  source derives for them with serde: which fields they ask for, under which names and of which type.
  The text of a line is read by the library, so a line is the value of theory Json it is read as.
\<close>

subsection \<open>The derived readers\<close>

definition read_decision_kind :: "val \<Rightarrow> decision_kind option" where
  "read_decision_kind = val_variant decision_name [KDirect, KNever, KUpstream]"

definition read_class :: "val \<Rightarrow> rule_class option" where
  "read_class = val_variant class_name [Require, Prefer, Never]"

definition read_health :: "val \<Rightarrow> health_state option" where
  "read_health = val_variant health_name [Up, Down]"

definition read_hop :: "val \<Rightarrow> effective_hop option" where
  "read_hop = val_variant hop_name [HopDirect, HopUpstream, HopFallbackDirect]"

definition read_cause :: "val \<Rightarrow> verdict_cause option" where
  "read_cause = val_variant cause_name [Probe, Dial]"

definition read_switch_cause :: "val \<Rightarrow> switch_cause option" where
  "read_switch_cause = val_variant switch_cause_name [CauseDown, CauseHeld, CauseRecovered, CauseReload]"

definition read_event_view :: "val \<Rightarrow> event_view option" where
  "read_event_view v =
     (case v of
        VObject fs \<Rightarrow>
          Option.bind (field_of val_str fs ''host'') (\<lambda>host.
          Option.bind (field_of (val_number u16_max) fs ''port'') (\<lambda>port.
          Option.bind (field_of read_decision_kind fs ''decision'') (\<lambda>decision.
          Option.bind (optional_of (val_number u32_max) fs ''rule_index'') (\<lambda>rule_index.
          Option.bind (optional_of read_class fs ''class'') (\<lambda>class.
          Option.bind (field_of read_health fs ''upstream'') (\<lambda>upstream.
          Option.bind (optional_of (val_number u64_max) fs ''connect_ms'') (\<lambda>connect_ms.
          Option.bind (optional_of read_hop fs ''hop'') (\<lambda>hop.
          Option.bind (optional_of val_str fs ''via'') (\<lambda>via.
          Option.bind (field_of (val_number u64_max) fs ''duration_ms'') (\<lambda>duration_ms.
          Option.bind (optional_of val_str fs ''error'') (\<lambda>error.
            Some \<lparr> ev_host = host, ev_port = of_nat port, ev_decision = decision,
                   ev_rule_index = rule_index, ev_class = class, ev_upstream = upstream,
                   ev_connect_ms = connect_ms, ev_hop = hop, ev_via = via,
                   ev_duration_ms = duration_ms, ev_error = error \<rparr>)))))))))))
      | _ \<Rightarrow> None)"

definition read_verdict_fields :: "val \<Rightarrow> verdict_fields option" where
  "read_verdict_fields v =
     (case v of
        VObject fs \<Rightarrow>
          Option.bind (optional_of val_str fs ''upstream'') (\<lambda>upstream.
          Option.bind (field_of read_health fs ''verdict_from'') (\<lambda>from_state.
          Option.bind (field_of read_health fs ''verdict_to'') (\<lambda>to_state.
          Option.bind (field_of read_cause fs ''cause'') (\<lambda>cause.
            Some \<lparr> vf_upstream = upstream, vf_from = from_state, vf_to = to_state, vf_cause = cause \<rparr>))))
      | _ \<Rightarrow> None)"

definition read_switch_fields :: "val \<Rightarrow> switch_fields option" where
  "read_switch_fields v =
     (case v of
        VObject fs \<Rightarrow>
          Option.bind (field_of val_str fs ''upstream_from'') (\<lambda>from_addr.
          Option.bind (field_of val_str fs ''upstream_to'') (\<lambda>to_addr.
          Option.bind (field_of read_switch_cause fs ''switch_cause'') (\<lambda>cause.
            Some \<lparr> sf_from = from_addr, sf_to = to_addr, sf_cause = cause \<rparr>)))
      | _ \<Rightarrow> None)"

text \<open>The reader of theory Logging on these values.\<close>

definition val_json :: "(string \<Rightarrow> val option) \<Rightarrow> (string \<Rightarrow> time option) \<Rightarrow> val json" where
  "val_json parse instant =
     \<lparr> js_parse = parse, js_get = val_get, js_str = val_str, js_event = read_event_view,
       js_verdict = read_verdict_fields, js_switch = read_switch_fields, js_instant = instant \<rparr>"

subsection \<open>What is written\<close>

text \<open>The fields of the lines of theory Health, as \<open>set_at\<close> and \<open>observe\<close> of the source name them.\<close>

definition verdict_record ::
  "upstream_addr \<Rightarrow> health_state \<Rightarrow> health_state \<Rightarrow> verdict_cause \<Rightarrow> (string \<times> log_field) list" where
  "verdict_record upstream previous state why =
     [(''upstream'', FText upstream), (''verdict_from'', FText (health_name previous)),
      (''verdict_to'', FText (health_name state)), (''cause'', FText (cause_name why))]"

definition switch_record :: "string \<Rightarrow> string \<Rightarrow> switch_cause \<Rightarrow> (string \<times> log_field) list" where
  "switch_record from_addr to_addr why =
     [(''upstream_from'', FText from_addr), (''upstream_to'', FText to_addr),
      (''switch_cause'', FText (switch_cause_name why))]"

fun line_fields :: "log_line \<Rightarrow> (string \<times> log_field) list" where
  "line_fields (VerdictLine upstream previous state why) = verdict_record upstream previous state why"
| "line_fields (SwitchLine from_addr to_addr why) = switch_record from_addr to_addr why"

fun field_val :: "log_field \<Rightarrow> val" where
  "field_val (FText s) = VText s"
| "field_val (FNumber n) = VNumber n"

definition record_val :: "(string \<times> log_field) list \<Rightarrow> val" where
  "record_val fs = VObject (map (\<lambda>(key, f). (key, field_val f)) fs)"

subsection \<open>Reading back\<close>

lemmas variant_readers = read_decision_kind_def read_class_def read_health_def read_hop_def
  read_cause_def read_switch_cause_def val_variant_def

lemma names_read:
  "read_decision_kind (VText (decision_name k)) = Some k"
  "read_class (VText (class_name c)) = Some c"
  "read_health (VText (health_name h)) = Some h"
  "read_hop (VText (hop_name p)) = Some p"
  "read_cause (VText (cause_name vc)) = Some vc"
  "read_switch_cause (VText (switch_cause_name sc)) = Some sc"
proof -
  show "read_decision_kind (VText (decision_name k)) = Some k"
    by (cases k) (simp_all add: variant_readers)
  show "read_class (VText (class_name c)) = Some c"
    by (cases c) (simp_all add: variant_readers)
  show "read_health (VText (health_name h)) = Some h"
    by (cases h) (simp_all add: variant_readers)
  show "read_hop (VText (hop_name p)) = Some p"
    by (cases p) (simp_all add: variant_readers)
  show "read_cause (VText (cause_name vc)) = Some vc"
    by (cases vc) (simp_all add: variant_readers)
  show "read_switch_cause (VText (switch_cause_name sc)) = Some sc"
    by (cases sc) (simp_all add: variant_readers)
qed

lemma map_of_written:
  "distinct (map fst xs) \<Longrightarrow>
     map_of (List.map_filter (\<lambda>(key, field). map_option (\<lambda>f. (key, f)) field) xs) k =
     Option.bind (map_of xs k) (\<lambda>f. f)"
proof (induction xs)
  case (Cons x xs)
  obtain key f where x: "x = (key, f)" by (cases x)
  have "map_of xs key = None" using Cons.prems x by (simp add: map_of_eq_None_iff)
  with Cons x show ?case by (cases f) (auto simp: List.map_filter_simps)
qed (simp add: List.map_filter_simps)

lemma record_val_get: "map_of (map (\<lambda>(key, f). (key, field_val f)) fs) k = map_option field_val (map_of fs k)"
  by (simp add: map_of_map)

definition event_in_range :: "event_view \<Rightarrow> bool" where
  "event_in_range e \<longleftrightarrow>
     (case ev_rule_index e of None \<Rightarrow> True | Some i \<Rightarrow> i \<le> u32_max)
     \<and> (case ev_connect_ms e of None \<Rightarrow> True | Some ms \<Rightarrow> ms \<le> u64_max)
     \<and> ev_duration_ms e \<le> u64_max"

lemma field_val_not_null [simp]: "field_val f \<noteq> VNull"
  by (cases f) simp_all

lemma decision_field:
  "map_of (decision_fields e) k =
    Option.bind (map_of
       [(''host'', Some (FText (ev_host e))),
        (''port'', Some (FNumber (unat (ev_port e)))),
        (''decision'', Some (FText (decision_name (ev_decision e)))),
        (''rule_index'', map_option FNumber (ev_rule_index e)),
        (''class'', map_option (\<lambda>c. FText (class_name c)) (ev_class e)),
        (''upstream'', Some (FText (health_name (ev_upstream e)))),
        (''connect_ms'', map_option FNumber (ev_connect_ms e)),
        (''hop'', map_option (\<lambda>h. FText (hop_name h)) (ev_hop e)),
        (''via'', map_option FText (ev_via e)),
        (''duration_ms'', Some (FNumber (ev_duration_ms e))),
        (''error'', map_option FText (ev_error e))] k) (\<lambda>f. f)"
  unfolding decision_fields_def by (rule map_of_written) simp

lemma optional_of_written:
  "optional_of reads (map (\<lambda>(key, f). (key, field_val f)) fs) k =
    (case map_of fs k of None \<Rightarrow> Some None | Some f \<Rightarrow> map_option Some (reads (field_val f)))"
  by (simp add: optional_of_def record_val_get split: option.split)

lemma field_of_written:
  "field_of reads (map (\<lambda>(key, f). (key, field_val f)) fs) k =
    Option.bind (map_of fs k) (\<lambda>f. reads (field_val f))"
  by (simp add: field_of_def record_val_get bind_map_option comp_def)

lemma port_in_range: "unat (p :: port) \<le> u16_max"
  using unat_u16 [of p] by (simp add: u16_max_def)

lemma event_reads_back:
  assumes "event_in_range e"
  shows "read_event_view (record_val (decision_fields e)) = Some e"
  using assms
  by (simp add: read_event_view_def record_val_def optional_of_written field_of_written decision_field
      names_read port_in_range event_in_range_def)
    (simp split: option.splits add: names_read)

lemma lines_are_no_events: "read_event_view (record_val (line_fields l)) = None"
  by (cases l) (simp_all add: read_event_view_def record_val_def field_of_def verdict_record_def switch_record_def)

lemma verdict_reads_back:
  "read_verdict_fields (record_val (line_fields (VerdictLine a f t c))) =
     Some \<lparr> vf_upstream = Some a, vf_from = f, vf_to = t, vf_cause = c \<rparr>"
  by (simp add: read_verdict_fields_def record_val_def field_of_def optional_of_def names_read verdict_record_def)

lemma switch_is_no_verdict: "read_verdict_fields (record_val (line_fields (SwitchLine f t c))) = None"
  by (simp add: read_verdict_fields_def record_val_def field_of_def optional_of_def switch_record_def)

lemma switch_reads_back:
  "read_switch_fields (record_val (line_fields (SwitchLine f t c))) =
     Some \<lparr> sf_from = f, sf_to = t, sf_cause = c \<rparr>"
  by (simp add: read_switch_fields_def record_val_def field_of_def names_read switch_record_def)

subsection \<open>Properties\<close>

text \<open>What the daemon writes a record for, the fields it writes, and what a reader is to make of it.\<close>

datatype entry =
    WroteDecision event_view
  | WroteVerdict upstream_addr health_state health_state verdict_cause
  | WroteSwitch switch

fun entry_fields :: "entry \<Rightarrow> (string \<times> log_field) list" where
  "entry_fields (WroteDecision e) = decision_fields e"
| "entry_fields (WroteVerdict upstream from_state to_state why) =
     line_fields (VerdictLine upstream from_state to_state why)"
| "entry_fields (WroteSwitch sw) =
     line_fields (SwitchLine (logged_addr (sw_from sw)) (logged_addr (sw_to sw)) (sw_cause sw))"

fun entry_meant :: "time \<Rightarrow> entry \<Rightarrow> logged" where
  "entry_meant at (WroteDecision e) = LoggedDecision \<lparr> ld_at = at, ld_event = e \<rparr>"
| "entry_meant at (WroteVerdict upstream from_state to_state why) =
     LoggedVerdict \<lparr> lv_at = at, lv_upstream = Some upstream, lv_from = from_state,
                     lv_to = to_state, lv_cause = why \<rparr>"
| "entry_meant at (WroteSwitch sw) =
     LoggedSwitch \<lparr> ls_at = at, ls_from = sw_from sw, ls_to = sw_to sw, ls_cause = sw_cause sw \<rparr>"

text \<open>Numbers that fit their types, and addresses that are not the empty text that means none.\<close>

fun entry_fits :: "entry \<Rightarrow> bool" where
  "entry_fits (WroteDecision e) = event_in_range e"
| "entry_fits (WroteVerdict upstream from_state to_state why) = True"
| "entry_fits (WroteSwitch sw) = (sw_from sw \<noteq> Some [] \<and> sw_to sw \<noteq> Some [])"

lemma named_side_logged: "addr \<noteq> Some [] \<Longrightarrow> named_side (logged_addr addr) = addr"
  by (cases addr) (auto simp: named_side_def)

text \<open>C38: a record of the log reads back as what it was written for.  Whatever else a line carries,
  when its fields are those the daemon writes for a decision, a verdict or a switch, the reader
  recovers it with every field, and never takes one kind of record for another.\<close>

theorem log_records_read_back:
  assumes "parse line = Some (VObject outer)"
    and "map_of outer ''timestamp'' = Some (VText at_text)" and "instant at_text = Some at"
    and "map_of outer ''fields'' = Some (record_val (entry_fields entry))" and "entry_fits entry"
  shows "read_logged (val_json parse instant) line = Some (entry_meant at entry)"
proof (cases entry)
  case (WroteDecision e)
  with assms show ?thesis
    by (simp add: read_logged_def val_json_def stamped_value_def event_reads_back)
next
  case (WroteVerdict a f t c)
  with assms show ?thesis
    by (simp add: read_logged_def val_json_def stamped_value_def lines_are_no_events verdict_reads_back
        del: line_fields.simps)
next
  case (WroteSwitch sw)
  with assms show ?thesis
    by (simp add: read_logged_def val_json_def stamped_value_def lines_are_no_events
        switch_is_no_verdict switch_reads_back named_side_logged del: line_fields.simps)
qed

definition example_event :: event_view where
  "example_event =
     \<lparr> ev_host = ''api.example.com'', ev_port = 443, ev_decision = KUpstream, ev_rule_index = Some 2,
       ev_class = Some Prefer, ev_upstream = Down, ev_connect_ms = Some 12,
       ev_hop = Some HopFallbackDirect, ev_via = None, ev_duration_ms = 40, ev_error = None \<rparr>"

theorem log_records_read_back_witness:
  "read_logged
     (val_json
       (\<lambda>line. Some (VObject
          [(''timestamp'', VText ''2026-08-01T00:00:00Z''), (''level'', VText ''INFO''),
           (''fields'', record_val (entry_fields (WroteDecision example_event)))]))
       (\<lambda>at_text. Some 7)) ''{}''
   = Some (LoggedDecision \<lparr> ld_at = 7, ld_event = example_event \<rparr>)"
proof -
  have "entry_fits (WroteDecision example_event)"
    by (simp add: event_in_range_def example_event_def u32_max_def u64_max_def)
  then show ?thesis
    using log_records_read_back [of "\<lambda>line. Some (VObject
          [(''timestamp'', VText ''2026-08-01T00:00:00Z''), (''level'', VText ''INFO''),
           (''fields'', record_val (entry_fields (WroteDecision example_event)))])" "''{}''" _
        "''2026-08-01T00:00:00Z''" "\<lambda>at_text. Some 7" 7 "WroteDecision example_event"]
    by simp
qed

end
