(* ===== verification/Codec.thy ===== *)
theory Codec
  imports Records Addresses
begin

section \<open>Commands, responses and views as JSON values\<close>

text \<open>
  What serde derives from the declarations of \<open>nhop-ipc/src/command.rs\<close> and \<open>view.rs\<close>: how a command,
  a response and each view is written as a value and read from one.  \<open>Command\<close> carries its tag beside
  its fields under \<open>cmd\<close>, \<open>Response\<close> names its variant under \<open>resp\<close> and holds the rest under \<open>data\<close>.
  A path is written only where it is UTF-8; an instant is written by the time library, the parameter
  \<open>stamps\<close>, to the second.
\<close>

subsection \<open>Tags and simple values\<close>

fun rule_kind_tag :: "rule_kind \<Rightarrow> string" where
  "rule_kind_tag Suffix = ''suffix''"
| "rule_kind_tag Cidr = ''cidr''"
| "rule_kind_tag Port = ''port''"
| "rule_kind_tag Keyword = ''keyword''"

fun err_kind_tag :: "err_kind \<Rightarrow> string" where
  "err_kind_tag NotFound = ''not_found''"
| "err_kind_tag UpstreamDown = ''upstream_down''"
| "err_kind_tag InvalidArgs = ''invalid_args''"
| "err_kind_tag LoadInProgress = ''load_in_progress''"
| "err_kind_tag Internal = ''internal''"

fun load_outcome_tag :: "load_outcome \<Rightarrow> string" where
  "load_outcome_tag LoadOk = ''ok''"
| "load_outcome_tag LoadFailed = ''failed''"
| "load_outcome_tag LoadTimedOut = ''timed_out''"

definition variant_val :: "('a \<Rightarrow> string) \<Rightarrow> 'a \<Rightarrow> val" where
  "variant_val name x = VText (name x)"

definition read_kind :: "val \<Rightarrow> rule_kind option" where
  "read_kind = val_variant rule_kind_tag [Suffix, Cidr, Port, Keyword]"

definition read_err_kind :: "val \<Rightarrow> err_kind option" where
  "read_err_kind = val_variant err_kind_tag [NotFound, UpstreamDown, InvalidArgs, LoadInProgress, Internal]"

definition read_load_outcome :: "val \<Rightarrow> load_outcome option" where
  "read_load_outcome = val_variant load_outcome_tag [LoadOk, LoadFailed, LoadTimedOut]"

definition port_val :: "port \<Rightarrow> val" where
  "port_val p = VNumber (unat p)"

definition read_port_number :: "val \<Rightarrow> port option" where
  "read_port_number v = map_option of_nat (val_number u16_max v)"

definition socket_val :: "socket_addr \<Rightarrow> val" where
  "socket_val a = VText (show_socket a)"

definition read_socket_addr :: "val \<Rightarrow> socket_addr option" where
  "read_socket_addr v = Option.bind (val_str v) parse_socket"

record stamps =
  st_write :: "time \<Rightarrow> string"
  st_read :: "string \<Rightarrow> time option"

definition whole_seconds :: "time \<Rightarrow> time" where
  "whole_seconds t = t div 1000000000 * 1000000000"

definition stamp_val :: "stamps \<Rightarrow> time \<Rightarrow> val" where
  "stamp_val st t = VText (st_write st t)"

definition read_stamp :: "stamps \<Rightarrow> val \<Rightarrow> time option" where
  "read_stamp st v = Option.bind (val_str v) (st_read st)"

text \<open>The time library reads an instant it wrote to the second.\<close>

definition stamp_reads :: "stamps \<Rightarrow> time \<Rightarrow> bool" where
  "stamp_reads st t \<longleftrightarrow> st_read st (st_write st t) = Some (whole_seconds t)"

text \<open>A path is a text where it is UTF-8; otherwise nothing is written and the whole value fails.\<close>

definition path_val :: "path option \<Rightarrow> val option" where
  "path_val path =
     (case path of None \<Rightarrow> Some VNull | Some p \<Rightarrow> if utf8 p then Some (VText p) else None)"

subsection \<open>Commands\<close>

definition command_object :: "string \<Rightarrow> (string \<times> val) list \<Rightarrow> val" where
  "command_object tag fs = VObject ((''cmd'', VText tag) # fs)"

definition load_val :: "load_id option \<Rightarrow> val" where
  "load_val load = option_val VNumber load"

fun command_val :: "command \<Rightarrow> val option" where
  "command_val (AddRule class kind val load) =
     Some (command_object ''add_rule''
       [(''class'', variant_val class_name class), (''kind'', variant_val rule_kind_tag kind),
        (''value'', VText val), (''load'', load_val load)])"
| "command_val (ClearRules load) = Some (command_object ''clear_rules'' [(''load'', load_val load)])"
| "command_val (SetUpstream addr load) =
     Some (command_object ''set_upstream'' [(''addr'', VText addr), (''load'', load_val load)])"
| "command_val (SetUpstreams addr fallbacks load) =
     Some (command_object ''set_upstreams''
       [(''addr'', VText addr), (''fallbacks'', list_val VText fallbacks), (''load'', load_val load)])"
| "command_val (SetListen http socks load) =
     Some (command_object ''set_listen''
       [(''http'', socket_val http), (''socks'', socket_val socks), (''load'', load_val load)])"
| "command_val (AddForward addr host port load) =
     Some (command_object ''add_forward''
       [(''listen'', socket_val addr), (''host'', VText host), (''port'', port_val port),
        (''load'', load_val load)])"
| "command_val (Reload path) =
     map_option (\<lambda>v. command_object ''reload'' [(''path'', v)]) (path_val path)"
| "command_val CmdOn = Some (command_object ''on'' [])"
| "command_val CmdOff = Some (command_object ''off'' [])"
| "command_val Status = Some (command_object ''status'' [])"
| "command_val Rules = Some (command_object ''rules'' [])"
| "command_val (Test host port) =
     Some (command_object ''test'' [(''host'', VText host), (''port'', port_val port)])"
| "command_val Doctor = Some (command_object ''doctor'' [])"
| "command_val Subscribe = Some (command_object ''subscribe'' [])"

definition read_load :: "(string \<times> val) list \<Rightarrow> load_id option option" where
  "read_load fs = optional_of (val_number u64_max) fs ''load''"

definition read_command_fields :: "string \<Rightarrow> (string \<times> val) list \<Rightarrow> command option" where
  "read_command_fields tag fs =
     (if tag = ''add_rule'' then
        Option.bind (field_of read_class fs ''class'') (\<lambda>class.
        Option.bind (field_of read_kind fs ''kind'') (\<lambda>kind.
        Option.bind (field_of val_str fs ''value'') (\<lambda>val.
        Option.bind (read_load fs) (\<lambda>load. Some (AddRule class kind val load)))))
      else if tag = ''clear_rules'' then map_option ClearRules (read_load fs)
      else if tag = ''set_upstream'' then
        Option.bind (field_of val_str fs ''addr'') (\<lambda>addr.
        Option.bind (read_load fs) (\<lambda>load. Some (SetUpstream addr load)))
      else if tag = ''set_upstreams'' then
        Option.bind (field_of val_str fs ''addr'') (\<lambda>addr.
        Option.bind (field_of (val_list val_str) fs ''fallbacks'') (\<lambda>fallbacks.
        Option.bind (read_load fs) (\<lambda>load. Some (SetUpstreams addr fallbacks load))))
      else if tag = ''set_listen'' then
        Option.bind (field_of read_socket_addr fs ''http'') (\<lambda>http.
        Option.bind (field_of read_socket_addr fs ''socks'') (\<lambda>socks.
        Option.bind (read_load fs) (\<lambda>load. Some (SetListen http socks load))))
      else if tag = ''add_forward'' then
        Option.bind (field_of read_socket_addr fs ''listen'') (\<lambda>addr.
        Option.bind (field_of val_str fs ''host'') (\<lambda>host.
        Option.bind (field_of read_port_number fs ''port'') (\<lambda>port.
        Option.bind (read_load fs) (\<lambda>load. Some (AddForward addr host port load)))))
      else if tag = ''reload'' then map_option Reload (optional_of val_str fs ''path'')
      else if tag = ''on'' then Some CmdOn
      else if tag = ''off'' then Some CmdOff
      else if tag = ''status'' then Some Status
      else if tag = ''rules'' then Some Rules
      else if tag = ''test'' then
        Option.bind (field_of val_str fs ''host'') (\<lambda>host.
        Option.bind (field_of read_port_number fs ''port'') (\<lambda>port. Some (Test host port)))
      else if tag = ''doctor'' then Some Doctor
      else if tag = ''subscribe'' then Some Subscribe
      else None)"

definition read_command :: "val \<Rightarrow> command option" where
  "read_command v =
     Option.bind (val_fields v) (\<lambda>fs.
       Option.bind (field_of val_str fs ''cmd'') (\<lambda>tag. read_command_fields tag fs))"

subsection \<open>The codecs of the simple values\<close>

lemma variant_codec:
  assumes "\<And>x. List.find (\<lambda>y. name y = name x) variants = Some x"
  shows "codec (variant_val name) (val_variant name variants) (\<lambda>x. True) (\<lambda>x. x)"
  using assms by unfold_locales (simp_all add: variant_val_def val_variant_def)

interpretation class_codec: codec "variant_val class_name" read_class "\<lambda>c. True" "\<lambda>c. c"
  unfolding read_class_def
proof (rule variant_codec)
  show "List.find (\<lambda>y. class_name y = class_name x) [Require, Prefer, Never] = Some x" for x
    by (cases x) simp_all
qed

interpretation kind_codec: codec "variant_val rule_kind_tag" read_kind "\<lambda>k. True" "\<lambda>k. k"
  unfolding read_kind_def
proof (rule variant_codec)
  show "List.find (\<lambda>y. rule_kind_tag y = rule_kind_tag x) [Suffix, Cidr, Port, Keyword] = Some x" for x
    by (cases x) simp_all
qed

interpretation decision_codec: codec "variant_val decision_name" read_decision_kind "\<lambda>k. True" "\<lambda>k. k"
  unfolding read_decision_kind_def
proof (rule variant_codec)
  show "List.find (\<lambda>y. decision_name y = decision_name x) [KDirect, KNever, KUpstream] = Some x" for x
    by (cases x) simp_all
qed

interpretation hop_codec: codec "variant_val hop_name" read_hop "\<lambda>h. True" "\<lambda>h. h"
  unfolding read_hop_def
proof (rule variant_codec)
  show "List.find (\<lambda>y. hop_name y = hop_name x) [HopDirect, HopUpstream, HopFallbackDirect] = Some x" for x
    by (cases x) simp_all
qed

interpretation health_codec: codec "variant_val health_name" read_health "\<lambda>h. True" "\<lambda>h. h"
  unfolding read_health_def
proof (rule variant_codec)
  show "List.find (\<lambda>y. health_name y = health_name x) [Up, Down] = Some x" for x
    by (cases x) simp_all
qed

interpretation outcome_codec: codec "variant_val load_outcome_tag" read_load_outcome "\<lambda>o'. True" "\<lambda>o'. o'"
  unfolding read_load_outcome_def
proof (rule variant_codec)
  show "List.find (\<lambda>y. load_outcome_tag y = load_outcome_tag x) [LoadOk, LoadFailed, LoadTimedOut] = Some x" for x
    by (cases x) simp_all
qed

interpretation err_codec: codec "variant_val err_kind_tag" read_err_kind "\<lambda>k. True" "\<lambda>k. k"
  unfolding read_err_kind_def
proof (rule variant_codec)
  show "List.find (\<lambda>y. err_kind_tag y = err_kind_tag x)
      [NotFound, UpstreamDown, InvalidArgs, LoadInProgress, Internal] = Some x" for x
    by (cases x) simp_all
qed

interpretation port_codec: codec port_val read_port_number "\<lambda>p. True" "\<lambda>p. p"
  by unfold_locales (simp_all add: port_val_def read_port_number_def port_in_range)

interpretation socket_codec: codec socket_val read_socket_addr "\<lambda>a. True" "\<lambda>a. a"
  by unfold_locales (simp_all add: socket_val_def read_socket_addr_def parse_socket_show)

interpretation stamp_codec: codec "stamp_val st" "read_stamp st" "stamp_reads st" whole_seconds
  by unfold_locales (simp_all add: stamp_val_def read_stamp_def stamp_reads_def)

lemmas required_fields = text_codec.required flag_codec.required number_codec.required
  class_codec.required kind_codec.required decision_codec.required hop_codec.required
  health_codec.required outcome_codec.required err_codec.required port_codec.required
  socket_codec.required stamp_codec.required

lemmas optional_fields = text_codec.optional number_codec.optional class_codec.optional
  hop_codec.optional

lemma path_written: "path_val path = Some v \<Longrightarrow> v = option_val VText path"
  by (auto simp: path_val_def option_val_def split: option.splits if_splits)

lemma load_read:
  "map_of fs ''load'' = Some (load_val load) \<Longrightarrow> pred_option (\<lambda>i. i \<le> u64_max) load \<Longrightarrow>
     read_load fs = Some load"
  by (simp add: read_load_def load_val_def number_codec.optional option.map_ident)

text \<open>A command a client can send: its numbers fit their types and its path is a text.\<close>

definition command_fits :: "command \<Rightarrow> bool" where
  "command_fits cmd \<longleftrightarrow>
     pred_option (\<lambda>i. i \<le> u64_max) (load_of_command cmd)
     \<and> (case cmd of Reload (Some path) \<Rightarrow> utf8 path | _ \<Rightarrow> True)"

lemma fallbacks_read:
  "map_of fs ''fallbacks'' = Some (list_val VText fallbacks) \<Longrightarrow>
     field_of (val_list val_str) fs ''fallbacks'' = Some fallbacks"
  using text_codec.listed [of fallbacks] by (simp add: field_of_def list.map_ident list_all_iff)

lemma command_reads_back:
  assumes "command_fits cmd"
  shows "\<exists>v. command_val cmd = Some v \<and> read_command v = Some cmd"
proof -
  have load: "pred_option (\<lambda>i. i \<le> u64_max) (load_of_command cmd)"
    using assms by (simp add: command_fits_def)
  show ?thesis
  proof (cases cmd)
    case (Reload path)
    then obtain v where v: "path_val path = Some v"
      using assms by (auto simp: command_fits_def path_val_def split: option.splits)
    then have "optional_of val_str [(''cmd'', VText ''reload''), (''path'', v)] ''path'' = Some path"
      using path_written [OF v] by (cases path) (simp_all add: optional_of_def option_val_def)
    with Reload v show ?thesis
      by (simp add: read_command_def command_object_def field_of_def read_command_fields_def)
  qed (use load in \<open>simp_all add: read_command_def command_object_def read_command_fields_def
         required_fields load_read fallbacks_read\<close>)
qed

subsection \<open>Properties\<close>

text \<open>C34: every command survives the wire.  A command is written unless it carries a path that is no
  text, which is the one thing that cannot be; whatever is written reads back as the very command,
  with its addresses, its ports, its load and every fallback in order; and two commands written
  alike are the same command.\<close>

theorem commands_round_trip:
  assumes "pred_option (\<lambda>i. i \<le> u64_max) (load_of_command cmd)"
  shows "case command_val cmd of
      None \<Rightarrow> \<exists>path. cmd = Reload (Some path) \<and> \<not> utf8 path
    | Some v \<Rightarrow> read_command v = Some cmd
        \<and> (\<forall>other. command_fits other \<and> command_val other = Some v \<longrightarrow> other = cmd)"
proof (cases "command_fits cmd")
  case True
  then obtain v where "command_val cmd = Some v" "read_command v = Some cmd"
    using command_reads_back by blast
  moreover have "other = cmd" if "command_fits other" "command_val other = Some v" for other
    using command_reads_back [OF that(1)] that(2) calculation by simp
  ultimately show ?thesis by simp
next
  case False
  then obtain path where "cmd = Reload (Some path)" "\<not> utf8 path"
    using assms by (auto simp: command_fits_def split: command.splits option.splits)
  then show ?thesis by (simp add: path_val_def)
qed

theorem commands_round_trip_witness:
  "Option.bind (command_val (SetUpstreams ''127.0.0.1:1080'' [''127.0.0.1:1081''] (Some 7))) read_command
     = Some (SetUpstreams ''127.0.0.1:1080'' [''127.0.0.1:1081''] (Some 7))"
  using commands_round_trip [of "SetUpstreams ''127.0.0.1:1080'' [''127.0.0.1:1081''] (Some 7)"]
  by (simp add: u64_max_def)

end
