(* ===== verification/Replies.thy ===== *)
theory Replies
  imports Codec
begin

section \<open>Responses and the views they carry as JSON values\<close>

text \<open>
  The derived writers and readers of \<open>nhop-ipc/src/view.rs\<close> and of \<open>Response\<close>.  A list field with
  \<open>serde(default)\<close> is empty where an older daemon leaves it out.  What an instant means on the wire is
  its whole seconds, so a view reads back with its instants cut to them.
\<close>

subsection \<open>Views\<close>

definition rule_view_val :: "rule_view \<Rightarrow> val" where
  "rule_view_val r = VObject
     [(''index'', VNumber (rv_index r)), (''class'', variant_val class_name (rv_class r)),
      (''kind'', variant_val rule_kind_tag (rv_kind r)), (''value'', VText (rv_value r))]"

definition read_rule_view :: "val \<Rightarrow> rule_view option" where
  "read_rule_view v =
     Option.bind (val_fields v) (\<lambda>fs.
     Option.bind (field_of (val_number u32_max) fs ''index'') (\<lambda>index.
     Option.bind (field_of read_class fs ''class'') (\<lambda>class.
     Option.bind (field_of read_kind fs ''kind'') (\<lambda>kind.
     Option.bind (field_of val_str fs ''value'') (\<lambda>val.
       Some \<lparr> rv_index = index, rv_class = class, rv_kind = kind, rv_value = val \<rparr>)))))"

definition rule_view_fits :: "rule_view \<Rightarrow> bool" where
  "rule_view_fits r \<longleftrightarrow> rv_index r \<le> u32_max"

definition decision_view_val :: "decision_view \<Rightarrow> val" where
  "decision_view_val d = VObject
     [(''decision'', variant_val decision_name (dv_decision d)),
      (''rule_index'', option_val VNumber (dv_rule_index d)),
      (''class'', option_val (variant_val class_name) (dv_class d)), (''next_hop'', VText (dv_next_hop d))]"

definition read_decision_view :: "val \<Rightarrow> decision_view option" where
  "read_decision_view v =
     Option.bind (val_fields v) (\<lambda>fs.
     Option.bind (field_of read_decision_kind fs ''decision'') (\<lambda>decision.
     Option.bind (optional_of (val_number u32_max) fs ''rule_index'') (\<lambda>rule_index.
     Option.bind (optional_of read_class fs ''class'') (\<lambda>class.
     Option.bind (field_of val_str fs ''next_hop'') (\<lambda>next_hop.
       Some \<lparr> dv_decision = decision, dv_rule_index = rule_index, dv_class = class,
              dv_next_hop = next_hop \<rparr>)))))"

definition decision_view_fits :: "decision_view \<Rightarrow> bool" where
  "decision_view_fits d \<longleftrightarrow> pred_option (\<lambda>i. i \<le> u32_max) (dv_rule_index d)"

definition last_load_val :: "stamps \<Rightarrow> last_load_view \<Rightarrow> val" where
  "last_load_val st l = VObject
     [(''at'', stamp_val st (ll_at l)), (''outcome'', variant_val load_outcome_tag (ll_outcome l)),
      (''command'', option_val VText (ll_command l))]"

definition read_last_load :: "stamps \<Rightarrow> val \<Rightarrow> last_load_view option" where
  "read_last_load st v =
     Option.bind (val_fields v) (\<lambda>fs.
     Option.bind (field_of (read_stamp st) fs ''at'') (\<lambda>at.
     Option.bind (field_of read_load_outcome fs ''outcome'') (\<lambda>outcome.
     Option.bind (optional_of val_str fs ''command'') (\<lambda>cmd.
       Some \<lparr> ll_at = at, ll_outcome = outcome, ll_command = cmd \<rparr>))))"

definition counts_val :: "rule_counts_view \<Rightarrow> val" where
  "counts_val c = VObject
     [(''require'', VNumber (rc_require c)), (''prefer'', VNumber (rc_prefer c)),
      (''never'', VNumber (rc_never c))]"

definition read_counts :: "val \<Rightarrow> rule_counts_view option" where
  "read_counts v =
     Option.bind (val_fields v) (\<lambda>fs.
     Option.bind (field_of (val_number u32_max) fs ''require'') (\<lambda>require.
     Option.bind (field_of (val_number u32_max) fs ''prefer'') (\<lambda>prefer.
     Option.bind (field_of (val_number u32_max) fs ''never'') (\<lambda>never.
       Some \<lparr> rc_require = require, rc_prefer = prefer, rc_never = never \<rparr>))))"

definition counts_fit :: "rule_counts_view \<Rightarrow> bool" where
  "counts_fit c \<longleftrightarrow> rc_require c \<le> u32_max \<and> rc_prefer c \<le> u32_max \<and> rc_never c \<le> u32_max"

definition forward_view_val :: "forward_view \<Rightarrow> val" where
  "forward_view_val f = VObject
     [(''listen'', socket_val (fv_listen f)), (''host'', VText (fv_host f)),
      (''port'', port_val (fv_port f))]"

definition read_forward_view :: "val \<Rightarrow> forward_view option" where
  "read_forward_view v =
     Option.bind (val_fields v) (\<lambda>fs.
     Option.bind (field_of read_socket_addr fs ''listen'') (\<lambda>addr.
     Option.bind (field_of val_str fs ''host'') (\<lambda>host.
     Option.bind (field_of read_port_number fs ''port'') (\<lambda>port.
       Some \<lparr> fv_listen = addr, fv_host = host, fv_port = port \<rparr>))))"

definition upstream_view_val :: "stamps \<Rightarrow> upstream_view \<Rightarrow> val" where
  "upstream_view_val st u = VObject
     [(''addr'', VText (uv_addr u)), (''health'', variant_val health_name (uv_health u)),
      (''health_changed_at'', stamp_val st (uv_health_changed_at u)),
      (''selected'', VBool (uv_selected u))]"

definition read_upstream_view :: "stamps \<Rightarrow> val \<Rightarrow> upstream_view option" where
  "read_upstream_view st v =
     Option.bind (val_fields v) (\<lambda>fs.
     Option.bind (field_of val_str fs ''addr'') (\<lambda>addr.
     Option.bind (field_of read_health fs ''health'') (\<lambda>health.
     Option.bind (field_of (read_stamp st) fs ''health_changed_at'') (\<lambda>changed.
     Option.bind (field_of val_bool fs ''selected'') (\<lambda>selected.
       Some \<lparr> uv_addr = addr, uv_health = health, uv_health_changed_at = changed,
              uv_selected = selected \<rparr>)))))"

definition system_proxy_val :: "system_proxy_view \<Rightarrow> val" where
  "system_proxy_val p = VObject
     [(''http'', option_val VText (spv_http p)), (''https'', option_val VText (spv_https p)),
      (''socks'', option_val VText (spv_socks p))]"

definition read_system_proxy :: "val \<Rightarrow> system_proxy_view option" where
  "read_system_proxy v =
     Option.bind (val_fields v) (\<lambda>fs.
     Option.bind (optional_of val_str fs ''http'') (\<lambda>http.
     Option.bind (optional_of val_str fs ''https'') (\<lambda>https.
     Option.bind (optional_of val_str fs ''socks'') (\<lambda>socks.
       Some \<lparr> spv_http = http, spv_https = https, spv_socks = socks \<rparr>))))"

definition check_view_val :: "check_view \<Rightarrow> val" where
  "check_view_val c = VObject
     [(''name'', VText (cv_name c)), (''ok'', VBool (cv_ok c)), (''detail'', VText (cv_detail c))]"

definition read_check_view :: "val \<Rightarrow> check_view option" where
  "read_check_view v =
     Option.bind (val_fields v) (\<lambda>fs.
     Option.bind (field_of val_str fs ''name'') (\<lambda>name.
     Option.bind (field_of val_bool fs ''ok'') (\<lambda>ok.
     Option.bind (field_of val_str fs ''detail'') (\<lambda>detail.
       Some \<lparr> cv_name = name, cv_ok = ok, cv_detail = detail \<rparr>))))"

text \<open>\<open>via\<close> is left out where it is absent; the other options are written as null.\<close>

definition event_val :: "event_view \<Rightarrow> val" where
  "event_val e = VObject
     ([(''host'', VText (ev_host e)), (''port'', port_val (ev_port e)),
       (''decision'', variant_val decision_name (ev_decision e)),
       (''rule_index'', option_val VNumber (ev_rule_index e)),
       (''class'', option_val (variant_val class_name) (ev_class e)),
       (''upstream'', variant_val health_name (ev_upstream e)),
       (''connect_ms'', option_val VNumber (ev_connect_ms e)),
       (''hop'', option_val (variant_val hop_name) (ev_hop e))]
      @ (case ev_via e of None \<Rightarrow> [] | Some via \<Rightarrow> [(''via'', VText via)])
      @ [(''duration_ms'', VNumber (ev_duration_ms e)), (''error'', option_val VText (ev_error e))])"

definition status_val :: "stamps \<Rightarrow> status_view \<Rightarrow> val option" where
  "status_val st s =
     map_option (\<lambda>path. VObject
       [(''uptime_secs'', VNumber (sv_uptime_secs s)), (''http_listen'', socket_val (sv_http_listen s)),
        (''http_bound'', VBool (sv_http_bound s)), (''socks_listen'', socket_val (sv_socks_listen s)),
        (''socks_bound'', VBool (sv_socks_bound s)),
        (''forwards'', list_val forward_view_val (sv_forwards s)),
        (''upstream'', VText (sv_upstream s)), (''health'', variant_val health_name (sv_health s)),
        (''health_changed_at'', stamp_val st (sv_health_changed_at s)),
        (''upstreams'', list_val (upstream_view_val st) (sv_upstreams s)), (''init_path'', path),
        (''last_load'', option_val (last_load_val st) (sv_last_load s)),
        (''rules'', counts_val (sv_rules s)), (''system_proxy'', system_proxy_val (sv_system_proxy s))])
       (path_val (sv_init_path s))"

definition read_status :: "stamps \<Rightarrow> val \<Rightarrow> status_view option" where
  "read_status st v =
     Option.bind (val_fields v) (\<lambda>fs.
     Option.bind (field_of (val_number u64_max) fs ''uptime_secs'') (\<lambda>uptime.
     Option.bind (field_of read_socket_addr fs ''http_listen'') (\<lambda>http.
     Option.bind (field_of val_bool fs ''http_bound'') (\<lambda>http_bound.
     Option.bind (field_of read_socket_addr fs ''socks_listen'') (\<lambda>socks.
     Option.bind (field_of val_bool fs ''socks_bound'') (\<lambda>socks_bound.
     Option.bind (default_list_of read_forward_view fs ''forwards'') (\<lambda>forwards.
     Option.bind (field_of val_str fs ''upstream'') (\<lambda>upstream.
     Option.bind (field_of read_health fs ''health'') (\<lambda>health.
     Option.bind (field_of (read_stamp st) fs ''health_changed_at'') (\<lambda>changed.
     Option.bind (default_list_of (read_upstream_view st) fs ''upstreams'') (\<lambda>upstreams.
     Option.bind (optional_of val_str fs ''init_path'') (\<lambda>path.
     Option.bind (optional_of (read_last_load st) fs ''last_load'') (\<lambda>last_load.
     Option.bind (field_of read_counts fs ''rules'') (\<lambda>rules.
     Option.bind (field_of read_system_proxy fs ''system_proxy'') (\<lambda>proxy.
       Some \<lparr> sv_uptime_secs = uptime, sv_http_listen = http, sv_http_bound = http_bound,
              sv_socks_listen = socks, sv_socks_bound = socks_bound, sv_forwards = forwards,
              sv_upstream = upstream, sv_health = health, sv_health_changed_at = changed,
              sv_upstreams = upstreams, sv_init_path = path, sv_last_load = last_load,
              sv_rules = rules, sv_system_proxy = proxy \<rparr>)))))))))))))))"

subsection \<open>Responses\<close>

definition reply_object :: "string \<Rightarrow> val \<Rightarrow> val" where
  "reply_object tag payload = VObject [(''resp'', VText tag), (''data'', payload)]"

fun response_val :: "stamps \<Rightarrow> response \<Rightarrow> val option" where
  "response_val st RespOk = Some (VObject [(''resp'', VText ''ok'')])"
| "response_val st (RespRules rules) = Some (reply_object ''rules'' (list_val rule_view_val rules))"
| "response_val st (RespStatus s) = map_option (reply_object ''status'') (status_val st s)"
| "response_val st (RespDecision d) = Some (reply_object ''decision'' (decision_view_val d))"
| "response_val st (RespDoctor checks) = Some (reply_object ''doctor'' (list_val check_view_val checks))"
| "response_val st (RespEvent e) = Some (reply_object ''event'' (event_val e))"
| "response_val st (RespErr kind message) =
     Some (reply_object ''err''
       (VObject [(''kind'', variant_val err_kind_tag kind), (''message'', VText message)]))"

definition read_err :: "val \<Rightarrow> response option" where
  "read_err v =
     Option.bind (val_fields v) (\<lambda>fs.
     Option.bind (field_of read_err_kind fs ''kind'') (\<lambda>kind.
     Option.bind (field_of val_str fs ''message'') (\<lambda>message. Some (RespErr kind message))))"

definition read_response :: "stamps \<Rightarrow> val \<Rightarrow> response option" where
  "read_response st v =
     Option.bind (val_fields v) (\<lambda>fs.
     Option.bind (field_of val_str fs ''resp'') (\<lambda>tag.
     if tag = ''ok'' then
       (if map_of fs ''data'' \<in> {None, Some VNull} then Some RespOk else None)
     else if tag = ''rules'' then map_option RespRules (field_of (val_list read_rule_view) fs ''data'')
     else if tag = ''status'' then map_option RespStatus (field_of (read_status st) fs ''data'')
     else if tag = ''decision'' then map_option RespDecision (field_of read_decision_view fs ''data'')
     else if tag = ''doctor'' then map_option RespDoctor (field_of (val_list read_check_view) fs ''data'')
     else if tag = ''event'' then map_option RespEvent (field_of read_event_view fs ''data'')
     else if tag = ''err'' then field_of read_err fs ''data''
     else None))"

subsection \<open>The codecs of the views\<close>

interpretation rule_codec: codec rule_view_val read_rule_view rule_view_fits "\<lambda>r. r"
  by unfold_locales
    (simp_all add: rule_view_val_def read_rule_view_def rule_view_fits_def required_fields)

interpretation decision_view_codec: codec decision_view_val read_decision_view decision_view_fits "\<lambda>d. d"
  by unfold_locales
    (simp_all add: decision_view_val_def read_decision_view_def decision_view_fits_def required_fields
      optional_fields option.map_ident option.pred_True)

definition last_load_fits :: "stamps \<Rightarrow> last_load_view \<Rightarrow> bool" where
  "last_load_fits st l \<longleftrightarrow> stamp_reads st (ll_at l)"

definition last_load_wire :: "last_load_view \<Rightarrow> last_load_view" where
  "last_load_wire l = l\<lparr> ll_at := whole_seconds (ll_at l) \<rparr>"

interpretation last_load_codec: codec "last_load_val st" "read_last_load st" "last_load_fits st" last_load_wire
  by unfold_locales
    (simp_all add: last_load_val_def read_last_load_def last_load_fits_def last_load_wire_def
      required_fields optional_fields option.map_ident option.pred_True)

interpretation counts_codec: codec counts_val read_counts counts_fit "\<lambda>c. c"
  by unfold_locales (simp_all add: counts_val_def read_counts_def counts_fit_def required_fields)

interpretation forward_codec: codec forward_view_val read_forward_view "\<lambda>f. True" "\<lambda>f. f"
  by unfold_locales (simp_all add: forward_view_val_def read_forward_view_def required_fields)

definition upstream_view_fits :: "stamps \<Rightarrow> upstream_view \<Rightarrow> bool" where
  "upstream_view_fits st u \<longleftrightarrow> stamp_reads st (uv_health_changed_at u)"

definition upstream_view_wire :: "upstream_view \<Rightarrow> upstream_view" where
  "upstream_view_wire u = u\<lparr> uv_health_changed_at := whole_seconds (uv_health_changed_at u) \<rparr>"

interpretation upstream_codec: codec "upstream_view_val st" "read_upstream_view st" "upstream_view_fits st"
    upstream_view_wire
  by unfold_locales
    (simp_all add: upstream_view_val_def read_upstream_view_def upstream_view_fits_def
      upstream_view_wire_def required_fields)

interpretation proxy_codec: codec system_proxy_val read_system_proxy "\<lambda>p. True" "\<lambda>p. p"
  by unfold_locales
    (simp_all add: system_proxy_val_def read_system_proxy_def optional_fields option.map_ident option.pred_True)

interpretation check_codec: codec check_view_val read_check_view "\<lambda>c. True" "\<lambda>c. c"
  by unfold_locales (simp_all add: check_view_val_def read_check_view_def required_fields)

lemma event_field:
  obtains fs where "event_val e = VObject fs" "map_of fs ''host'' = Some (VText (ev_host e))"
    "map_of fs ''port'' = Some (port_val (ev_port e))"
    "map_of fs ''decision'' = Some (variant_val decision_name (ev_decision e))"
    "map_of fs ''rule_index'' = Some (option_val VNumber (ev_rule_index e))"
    "map_of fs ''class'' = Some (option_val (variant_val class_name) (ev_class e))"
    "map_of fs ''upstream'' = Some (variant_val health_name (ev_upstream e))"
    "map_of fs ''connect_ms'' = Some (option_val VNumber (ev_connect_ms e))"
    "map_of fs ''hop'' = Some (option_val (variant_val hop_name) (ev_hop e))"
    "map_of fs ''via'' = map_option VText (ev_via e)"
    "map_of fs ''duration_ms'' = Some (VNumber (ev_duration_ms e))"
    "map_of fs ''error'' = Some (option_val VText (ev_error e))"
proof (cases "ev_via e")
  case None
  then show thesis by (intro that) (simp add: event_val_def, simp_all)
next
  case (Some via)
  then show thesis by (intro that) (simp add: event_val_def, simp_all)
qed

lemma via_read: "map_of fs ''via'' = map_option VText via \<Longrightarrow> optional_of val_str fs ''via'' = Some via"
  by (cases via) (simp_all add: optional_of_def)

lemma port_read:
  "map_of fs ''port'' = Some (port_val p) \<Longrightarrow> field_of (val_number u16_max) fs ''port'' = Some (unat p)"
  by (simp add: field_of_def port_val_def port_in_range)

interpretation event_codec: codec event_val read_event_view event_in_range "\<lambda>e. e"
proof
  fix e :: event_view
  assume range: "event_in_range e"
  then have "pred_option (\<lambda>i. i \<le> u32_max) (ev_rule_index e)"
    "pred_option (\<lambda>ms. ms \<le> u64_max) (ev_connect_ms e)" "ev_duration_ms e \<le> u64_max"
    by (simp_all add: event_in_range_def option.pred_set split: option.splits)
  moreover obtain fs where "event_val e = VObject fs" "map_of fs ''host'' = Some (VText (ev_host e))"
    "map_of fs ''port'' = Some (port_val (ev_port e))"
    "map_of fs ''decision'' = Some (variant_val decision_name (ev_decision e))"
    "map_of fs ''rule_index'' = Some (option_val VNumber (ev_rule_index e))"
    "map_of fs ''class'' = Some (option_val (variant_val class_name) (ev_class e))"
    "map_of fs ''upstream'' = Some (variant_val health_name (ev_upstream e))"
    "map_of fs ''connect_ms'' = Some (option_val VNumber (ev_connect_ms e))"
    "map_of fs ''hop'' = Some (option_val (variant_val hop_name) (ev_hop e))"
    "map_of fs ''via'' = map_option VText (ev_via e)"
    "map_of fs ''duration_ms'' = Some (VNumber (ev_duration_ms e))"
    "map_of fs ''error'' = Some (option_val VText (ev_error e))"
    by (rule event_field)
  ultimately show "read_event_view (event_val e) = Some e"
    by (simp add: read_event_view_def required_fields optional_fields via_read port_read
        option.map_ident option.pred_True)
qed (simp add: event_val_def)

subsection \<open>A response reads back\<close>

definition status_fits :: "stamps \<Rightarrow> status_view \<Rightarrow> bool" where
  "status_fits st s \<longleftrightarrow>
     sv_uptime_secs s \<le> u64_max \<and> stamp_reads st (sv_health_changed_at s)
     \<and> list_all (upstream_view_fits st) (sv_upstreams s)
     \<and> pred_option (last_load_fits st) (sv_last_load s) \<and> counts_fit (sv_rules s)
     \<and> pred_option utf8 (sv_init_path s)"

definition status_wire :: "status_view \<Rightarrow> status_view" where
  "status_wire s =
     s\<lparr> sv_health_changed_at := whole_seconds (sv_health_changed_at s),
        sv_upstreams := map upstream_view_wire (sv_upstreams s),
        sv_last_load := map_option last_load_wire (sv_last_load s) \<rparr>"

lemma status_reads_back:
  assumes "status_fits st s"
  shows "\<exists>v. status_val st s = Some v \<and> v \<noteq> VNull \<and> read_status st v = Some (status_wire s)"
proof -
  have "path_val (sv_init_path s) = Some (option_val VText (sv_init_path s))"
    using assms by (cases "sv_init_path s") (simp_all add: status_fits_def path_val_def option_val_def)
  with assms show ?thesis
    by (simp add: status_val_def read_status_def status_fits_def status_wire_def required_fields
        optional_fields last_load_codec.optional upstream_codec.defaulted forward_codec.defaulted
        counts_codec.required proxy_codec.required option.map_ident option.pred_True list.map_ident
        list_all_iff)
qed

text \<open>What a status from a daemon older than forwards or upstream lists reads as.\<close>

lemma older_status_reads:
  assumes "status_val st s = Some (VObject fs)" and "status_fits st s"
    and "older = filter (\<lambda>(key, v). key \<notin> {''forwards'', ''upstreams''}) fs"
  shows "read_status st (VObject older) = Some ((status_wire s)\<lparr> sv_forwards := [], sv_upstreams := [] \<rparr>)"
proof -
  have path: "path_val (sv_init_path s) = Some (option_val VText (sv_init_path s))"
    using assms by (cases "sv_init_path s") (simp_all add: status_fits_def path_val_def option_val_def)
  show ?thesis
    using assms path
    by (auto simp: status_val_def read_status_def status_fits_def status_wire_def required_fields
        optional_fields last_load_codec.optional default_list_of_def
        counts_codec.required proxy_codec.required option.map_ident option.pred_True list.map_ident
        list_all_iff)
qed

definition response_fits :: "stamps \<Rightarrow> response \<Rightarrow> bool" where
  "response_fits st response \<longleftrightarrow>
     (case response of
        RespRules rules \<Rightarrow> list_all rule_view_fits rules
      | RespStatus s \<Rightarrow> status_fits st s
      | RespDecision d \<Rightarrow> decision_view_fits d
      | RespEvent e \<Rightarrow> event_in_range e
      | _ \<Rightarrow> True)"

definition response_wire :: "response \<Rightarrow> response" where
  "response_wire response =
     (case response of RespStatus s \<Rightarrow> RespStatus (status_wire s) | _ \<Rightarrow> response)"

lemma response_reads_back:
  assumes "response_fits st response"
  shows "\<exists>v. response_val st response = Some v \<and> read_response st v = Some (response_wire response)"
proof (cases response)
  case (RespStatus s)
  with assms status_reads_back [of st s] show ?thesis
    by (auto simp: response_fits_def response_wire_def reply_object_def read_response_def field_of_def)
next
  case (RespRules rules)
  with assms rule_codec.listed [of rules] show ?thesis
    by (simp add: response_fits_def response_wire_def reply_object_def read_response_def field_of_def
        list.map_ident)
next
  case (RespDoctor checks)
  with check_codec.listed [of checks] show ?thesis
    by (simp add: response_wire_def reply_object_def read_response_def field_of_def list.map_ident
        list_all_iff)
next
  case (RespErr kind message)
  then show ?thesis
    by (simp add: response_wire_def reply_object_def read_response_def field_of_def [of read_err]
        read_err_def required_fields)
qed (use assms in \<open>simp_all add: response_fits_def response_wire_def reply_object_def read_response_def
       field_of_def decision_view_codec.reads_writes event_codec.reads_writes\<close>)

subsection \<open>Properties\<close>

text \<open>C35: every response survives the wire.  A response that fits its type is written and reads back as
  itself, its instants cut to the second, whatever its variant and however many rules, upstreams,
  forwards or checks it lists; and a status that comes from a daemon too old to know forwards and
  upstream lists reads as one with neither.\<close>

theorem responses_round_trip:
  assumes "response_fits st response"
  shows "\<exists>v. response_val st response = Some v \<and> read_response st v = Some (response_wire response)
    \<and> (\<forall>s fs. response = RespStatus s \<and> status_val st s = Some (VObject fs) \<longrightarrow>
         read_response st (reply_object ''status''
           (VObject (filter (\<lambda>(key, v). key \<notin> {''forwards'', ''upstreams''}) fs)))
         = Some (RespStatus ((status_wire s)\<lparr> sv_forwards := [], sv_upstreams := [] \<rparr>)))"
proof -
  have older: "read_response st (reply_object ''status''
        (VObject (filter (\<lambda>(key, v). key \<notin> {''forwards'', ''upstreams''}) fs)))
      = Some (RespStatus ((status_wire s)\<lparr> sv_forwards := [], sv_upstreams := [] \<rparr>))"
    if "response = RespStatus s" and "status_val st s = Some (VObject fs)" for s fs
    using older_status_reads [OF that(2) _ refl] assms that(1)
    by (simp add: response_fits_def read_response_def reply_object_def field_of_def)
  obtain v where "response_val st response = Some v" "read_response st v = Some (response_wire response)"
    using response_reads_back [OF assms] by blast
  with older show ?thesis by blast
qed

definition example_decision :: decision_view where
  "example_decision =
     \<lparr> dv_decision = KUpstream, dv_rule_index = Some 4, dv_class = Some Require,
       dv_next_hop = ''127.0.0.1:1080'' \<rparr>"

theorem responses_round_trip_witness:
  "Option.bind (response_val \<lparr> st_write = (\<lambda>t. []), st_read = (\<lambda>s. None) \<rparr> (RespDecision example_decision))
     (read_response \<lparr> st_write = (\<lambda>t. []), st_read = (\<lambda>s. None) \<rparr>) = Some (RespDecision example_decision)"
proof -
  have "response_fits \<lparr> st_write = (\<lambda>t. []), st_read = (\<lambda>s. None) \<rparr> (RespDecision example_decision)"
    by (simp add: response_fits_def decision_view_fits_def example_decision_def u32_max_def)
  from responses_round_trip [OF this] show ?thesis by (auto simp: response_wire_def)
qed

end
