(* ===== verification/Answers.thy ===== *)
theory Answers
  imports Replies Loads
begin

section \<open>What the state task answers fits the wire\<close>

text \<open>
  The types of \<open>nhop-ipc\<close> hold a rule's place in 32 bits, a time span in 64 and a path as a text,
  and an instant as whatever text the time library gives it.  What the state task holds and what it
  answers stays within them, so no answer is lost between the daemon and its client; the one thing
  it needs from outside is that the location of the init script is UTF-8.
\<close>

subsection \<open>What the task is given and holds\<close>

definition clock_fits :: "stamps \<Rightarrow> clock \<Rightarrow> bool" where
  "clock_fits stamps ck \<longleftrightarrow> stamp_reads stamps (ck_now ck) \<and> as_secs (ck_elapsed ck) \<le> u64_max"

fun event_fits :: "stamps \<Rightarrow> task_event \<Rightarrow> bool" where
  "event_fits stamps (TakeRequest ck cmd reply) = (clock_fits stamps ck \<and> command_fits cmd)"
| "event_fits stamps (TakeCompletion ck outcome) = clock_fits stamps ck"

definition heap_fits :: "stamps \<Rightarrow> heap \<Rightarrow> bool" where
  "heap_fits stamps heap \<longleftrightarrow> list_all (\<lambda>j. stamp_reads stamps (h_changed_at (j_health j))) heap"

definition daemon_fits :: "stamps \<Rightarrow> 'net daemon \<Rightarrow> bool" where
  "daemon_fits stamps st \<longleftrightarrow>
     heap_fits stamps (dm_heap st) \<and> stamp_reads stamps (h_changed_at (dm_unconfigured st))
     \<and> pred_option (last_load_fits stamps) (dm_last_load st) \<and> pred_option utf8 (dm_init_path st)"

text \<open>An answer arrives: it is written, and the client reads back what the wire carries of it.\<close>

definition arrives :: "stamps \<Rightarrow> response \<Rightarrow> bool" where
  "arrives stamps response \<longleftrightarrow>
     (\<exists>v. response_val stamps response = Some v \<and> read_response stamps v = Some (response_wire response))"

text \<open>The answers the work handed to other tasks ends in, whatever that work finds.\<close>

fun effect_arrives :: "stamps \<Rightarrow> effect \<Rightarrow> bool" where
  "effect_arrives stamps (Answer reply response) = arrives stamps response"
| "effect_arrives stamps (ReportStatus reply status service) =
     (\<forall>reading. arrives stamps (report_answer status reading))"
| "effect_arrives stamps (RunDoctor reply findings addrs service entries) =
     (\<forall>reading tcp heap.
        arrives stamps (doctor_answer findings addrs service reading tcp heap entries))"
| "effect_arrives stamps (RunScript path dir load timeout) = True"

lemma arrives_fits: "response_fits stamps response \<Longrightarrow> arrives stamps response"
  unfolding arrives_def by (rule response_reads_back)

lemma arrives_plain [simp]:
  "arrives stamps RespOk" "arrives stamps (RespErr kind message)" "arrives stamps (RespDoctor checks)"
  by (rule arrives_fits, simp add: response_fits_def)+

lemma clamp32_fits [simp]: "clamp32 n \<le> u32_max"
  by (simp add: clamp32_def)

subsection \<open>The views fit their types\<close>

lemma rule_views_fit: "list_all rule_view_fits (rule_views rules)"
  by (simp add: rule_views_def list_all_iff rule_view_fits_def indexed_def)

lemma decision_view_of_fits: "decision_view_fits (decision_view ipnet rules upstream host port)"
  by (auto simp: decision_view_def decision_view_fits_def indexed_def
      split: decision.split rule_class.split)

lemma heap_fits_at:
  "heap_fits stamps heap \<Longrightarrow> h < length heap \<Longrightarrow> stamp_reads stamps (h_changed_at (verdict heap h))"
  by (simp add: heap_fits_def verdict_def list_all_length)

lemma upstream_views_fit:
  "heap_fits stamps heap \<Longrightarrow> list_all (\<lambda>e. ue_health e < length heap) entries \<Longrightarrow>
     list_all (upstream_view_fits stamps) (upstream_views_from heap selected k entries)"
  by (induction heap selected k entries rule: upstream_views_from.induct)
    (simp_all add: Let_def upstream_view_fits_def heap_fits_at)

lemma status_first_fits:
  assumes "heap_fits stamps heap" and "list_all (\<lambda>e. ue_health e < length heap) (ues_entries entries)"
    and "stamp_reads stamps (h_changed_at unconfigured)"
  shows "stamp_reads stamps (h_changed_at (snd (status_first heap entries unconfigured)))"
proof (cases "ues_entries entries")
  case (Cons e es)
  with assms show ?thesis
    by (simp add: status_first_def entries_first_def nth_opt_def heap_fits_at)
qed (use assms in \<open>simp add: status_first_def entries_first_def nth_opt_def\<close>)

lemma status_arrives:
  assumes "wf_daemon env st" and "daemon_fits stamps st" and "clock_fits stamps ck"
  shows "effect_arrives stamps (report ck st reply)"
proof -
  let ?entries = "arc_val (live_upstream_snapshot (dm_upstream st))"
  have handles: "list_all (\<lambda>e. ue_health e < length (dm_heap st)) (ues_entries ?entries)"
    using assms(1) by (simp add: wf_daemon_def wf_entries_def live_upstream_snapshot_def)
  obtain upstream health where first:
      "status_first (dm_heap st) ?entries (dm_unconfigured st) = (upstream, health)" by fastforce
  with status_first_fits [OF _ handles, of stamps "dm_unconfigured st"] assms(2)
  have judged: "stamp_reads stamps (h_changed_at health)" by (simp add: daemon_fits_def)
  note listed = upstream_views_fit [OF _ handles, of stamps
      "entries_selected (dm_heap st) ?entries (ck_now ck) (dm_hold st)" 0]
  have "arrives stamps (report_answer (daemon_status_of ck st) reading)" for reading
    using assms(2,3) first judged listed
    by (intro arrives_fits)
      (simp add: report_answer_def response_fits_def status_fits_def status_show_view_def
        daemon_status_of_def upstream_views_def counts_fit_def daemon_fits_def clock_fits_def Let_def)
  then show ?thesis by (simp add: report_def)
qed

subsection \<open>The task keeps within the types\<close>

lemma heap_fits_put:
  "heap_fits stamps heap \<Longrightarrow> stamp_reads stamps at \<Longrightarrow> heap_fits stamps (heap_put heap h state at)"
  by (cases "h < length heap")
    (auto simp: heap_put_def settle_eq heap_fits_def observe_health_def verdict_def list_all_length
      nth_list_update)

lemma adopt_from_fits:
  "adopt_from heap kept clock k us = (heap', es) \<Longrightarrow> heap_fits stamps heap \<Longrightarrow>
     (\<And>i. stamp_reads stamps (clock i)) \<Longrightarrow> heap_fits stamps heap'"
proof (induction heap kept clock k us arbitrary: heap' es rule: adopt_from.induct)
  case (2 heap kept clock k u us)
  then show ?case
    by (cases "judged_by kept (socket u)")
      (fastforce simp: Let_def judging_def heap_fits_def health_default_def split: prod.splits)+
qed simp

lemma adopt_upstream_fits:
  assumes "daemon_fits stamps st" and "clock_fits stamps ck"
  shows "daemon_fits stamps (adopt_upstream ck st upstreams)"
proof (cases upstreams)
  case (Some us)
  obtain heap entries where run: "adopted (dm_heap st) (arc_val (dm_upstream st)) (\<lambda>_. ck_now ck) us
      = (heap, entries)" by fastforce
  have "heap_fits stamps heap"
    using adopt_from_fits [OF adopted_run(1) [OF run], of stamps] assms
    by (simp add: daemon_fits_def clock_fits_def)
  with assms(1) Some run show ?thesis
    by (simp add: adopt_upstream_def live_upstream_publish_def daemon_fits_def)
qed (use assms(1) in simp)

lemma bind_fits [simp]:
  "daemon_fits stamps (fst (rebind env st addrs)) = daemon_fits stamps st"
  "daemon_fits stamps (fst (rebind_forwards env st forwards)) = daemon_fits stamps st"
  by (simp_all add: rebind_def rebind_forwards_def daemon_fits_def Let_def split: prod.split sum.split)

lemma publish_rules_fits [simp]: "daemon_fits stamps (publish_rules st rules) = daemon_fits stamps st"
  by (simp add: publish_rules_def daemon_fits_def)

lemma load_fits [simp]: "daemon_fits stamps (st\<lparr> dm_load := l \<rparr>) = daemon_fits stamps st"
  by (simp add: daemon_fits_def)

text \<open>A command that changes the state leaves it within the types and answers within them.\<close>

definition keeps_within :: "stamps \<Rightarrow> 'net daemon \<times> response \<Rightarrow> bool" where
  "keeps_within stamps outcome \<longleftrightarrow> daemon_fits stamps (fst outcome) \<and> arrives stamps (snd outcome)"

lemma keeps_within_pair [simp]:
  "keeps_within stamps (st, response) = (daemon_fits stamps st \<and> arrives stamps response)"
  by (simp add: keeps_within_def)

lemma target_answer_arrives: "target_of st load = RefusedWith answer \<Longrightarrow> arrives stamps answer"
  by (auto simp: target_of_def refused_def in_progress_def split: option.splits if_splits)

lemma answering_within:
  "daemon_fits stamps (fst outcome) \<Longrightarrow> (\<And>failure. arrives stamps (refuse failure)) \<Longrightarrow>
     keeps_within stamps (answering refuse outcome)"
  by (auto simp: answering_def keeps_within_def split: prod.split sum.split)

lemma answering_arrives:
  "(\<And>failure. arrives stamps (refuse failure)) \<Longrightarrow> arrives stamps (snd (answering refuse outcome))"
  by (simp add: answering_def split: prod.split sum.split)

lemma staged_within:
  "daemon_fits stamps st \<Longrightarrow> (\<And>s. arrives stamps (snd (apply_to s))) \<Longrightarrow>
     keeps_within stamps (staged st apply_to)"
  by (auto simp: staged_def vanished_def keeps_within_def split: option.split prod.split dest: sym)
    (metis snd_conv)

lemmas refusals = invalid_def unreadable_def unbindable_def unopenable_def duplicate_def

lemma set_upstream_within:
  assumes "daemon_fits stamps st" and "clock_fits stamps ck"
  shows "keeps_within stamps (set_upstream ck st addr fallbacks load)"
  using assms target_answer_arrives [of st load _ stamps]
  by (auto simp: set_upstream_def refusals adopt_upstream_fits
      intro!: staged_within answering_arrives split: destination.split sum.split)

lemma add_rule_within:
  "daemon_fits stamps st \<Longrightarrow> keeps_within stamps (add_rule env st class kind val load)"
  using target_answer_arrives [of st load _ stamps]
  by (auto simp: add_rule_def refusals
      intro!: staged_within answering_arrives split: destination.split sum.split prod.split)

lemma clear_rules_within:
  "daemon_fits stamps st \<Longrightarrow> keeps_within stamps (clear_rules st load)"
  using target_answer_arrives [of st load _ stamps]
  by (auto simp: clear_rules_def intro!: staged_within split: destination.split)

lemma set_listen_within:
  "daemon_fits stamps st \<Longrightarrow> keeps_within stamps (set_listen env st addrs load)"
  using target_answer_arrives [of st load _ stamps]
  by (auto simp: set_listen_def refusals intro!: staged_within answering_within split: destination.split)

lemma add_forward_within:
  "daemon_fits stamps st \<Longrightarrow> keeps_within stamps (add_forward env st forward load)"
  using target_answer_arrives [of st load _ stamps]
  by (auto simp: add_forward_def refusals
      intro!: staged_within answering_within answering_arrives
      split: destination.split sum.split prod.split)

lemma turn_off_within: "daemon_fits stamps st \<Longrightarrow> keeps_within stamps (turn_off st)"
  by (simp add: turn_off_def in_progress_def split: option.split)

lemma replied_within:
  "keeps_within stamps outcome \<Longrightarrow>
     daemon_fits stamps (fst (replied reply outcome)) \<and>
     list_all (effect_arrives stamps) (snd (replied reply outcome))"
  by (simp add: keeps_within_def)

lemma reload_within:
  assumes "daemon_fits stamps st" and "pred_option utf8 path" and "utf8 (init_file (en_paths env))"
  shows "daemon_fits stamps (fst (reload env st path reply))
    \<and> list_all (effect_arrives stamps) (snd (reload env st path reply))"
  using assms
  by (auto simp: reload_def in_progress_def daemon_fits_def Let_def split: option.splits prod.splits)

lemma handle_within:
  assumes "wf_daemon env st" and "daemon_fits stamps st" and "utf8 (init_file (en_paths env))"
    and "clock_fits stamps ck" and "command_fits cmd"
  shows "daemon_fits stamps (fst (handle env ck st cmd reply))
    \<and> list_all (effect_arrives stamps) (snd (handle env ck st cmd reply))"
proof (cases cmd)
  case (Reload path)
  with assms show ?thesis
    by (simp add: reload_within command_fits_def option.pred_set split: option.splits)
next
  case (Test host port)
  then show ?thesis
    using assms(2)
    by (simp add: arrives_fits response_fits_def decision_of_def test_decision_def Let_def
        decision_view_of_fits)
next
  case Rules
  then show ?thesis
    using assms(2) by (simp add: arrives_fits response_fits_def rule_views_fit)
qed (use assms in \<open>simp_all del: replied_simps add: replied_within set_upstream_within add_rule_within
    clear_rules_within set_listen_within add_forward_within turn_off_within reload_within
    status_arrives doctor_def doctor_answer_def streamed_def\<close>)

lemma commit_fits:
  assumes "daemon_fits stamps st" and "clock_fits stamps ck"
  shows "daemon_fits stamps (fst (commit env ck st staging))"
proof -
  define moved where "moved = (case sg_listen staging of None \<Rightarrow> (st, Ok ()) | Some addrs \<Rightarrow> rebind env st addrs)"
  have "daemon_fits stamps (fst moved)"
    using assms(1) by (simp add: moved_def split: option.split)
  then obtain st1 r1 where m: "moved = (st1, r1)" and fits1: "daemon_fits stamps st1"
    by (cases moved) simp
  obtain st2 r2 where fw: "rebind_forwards env st1 (sg_forwards staging) = (st2, r2)" by fastforce
  have "daemon_fits stamps st2"
    using bind_fits(2) [of stamps env st1 "sg_forwards staging"] fits1 fw by simp
  with m fw fits1 assms(2) show ?thesis
    unfolding commit_def staging_commit_def moved_def
    by (cases r1; cases r2) (simp_all add: publish_def adopt_upstream_fits)
qed

lemma finish_within:
  assumes "wf_daemon env st" and "daemon_fits stamps st" and "sockets_named (en_os env)"
    and "clock_fits stamps ck"
  shows "daemon_fits stamps (fst (finish env ck st outcome))
    \<and> list_all (effect_arrives stamps) (snd (finish env ck st outcome))"
proof (cases "dm_load st")
  case (Some f)
  obtain st' effects where run: "finish env ck st outcome = (st', effects)" by fastforce
  obtain st1 s where settled: "settle_load env ck (st\<lparr> dm_load := None \<rparr>) (if_staged f) outcome = (st1, s)"
    and st': "st' = st1\<lparr> dm_last_load :=
        Some \<lparr> ll_at = ck_now ck, ll_outcome = st_outcome s, ll_command = st_command s \<rparr> \<rparr>"
    and effects: "effects = [case st_message s of None \<Rightarrow> report ck st' (if_reply f)
                    | Some m \<Rightarrow> Answer (if_reply f) (RespErr Internal m)]"
    using finish_outcome [OF Some run] by blast
  have "daemon_fits stamps st1"
    using settled assms(2) commit_fits [OF _ assms(4), of "st\<lparr> dm_load := None \<rparr>" env "if_staged f"]
    by (auto simp: settle_load_def Let_def split: script_outcome.splits option.splits prod.splits sum.splits)
  then have fits: "daemon_fits stamps st'"
    using assms(4) by (simp add: st' daemon_fits_def clock_fits_def last_load_fits_def)
  moreover have "wf_daemon env st'"
    using wf_finish [OF assms(1,3), of ck outcome] run by simp
  ultimately show ?thesis
    using status_arrives [of env st' stamps ck "if_reply f"] assms(4)
    by (auto simp: run effects split: option.split)
qed (use assms in \<open>simp add: finish_def\<close>)

lemma task_step_within:
  assumes "wf_daemon env st" and "daemon_fits stamps st" and "sockets_named (en_os env)"
    and "utf8 (init_file (en_paths env))" and "event_fits stamps ev"
  shows "daemon_fits stamps (fst (task_step env st ev))
    \<and> list_all (effect_arrives stamps) (snd (task_step env st ev))"
  using assms by (cases ev) (simp_all add: handle_within finish_within)

lemma run_task_fits:
  assumes "wf_daemon env st" and "daemon_fits stamps st" and "sockets_named (en_os env)"
    and "utf8 (init_file (en_paths env))" and "list_all (event_fits stamps) evs"
  shows "daemon_fits stamps (run_task env st evs)"
  using assms(1,2,5)
proof (induction evs arbitrary: st)
  case (Cons ev evs)
  then show ?case
    using task_step_within [OF _ _ assms(3,4), of st stamps ev] by (simp add: wf_task_step assms(3))
qed simp

text \<open>A daemon just started holds no verdict, no load and no path.\<close>

lemma daemon_new_fits:
  "stamp_reads stamps now \<Longrightarrow> daemon_fits stamps (daemon_new frontends binds addrs load_timeout hold now)"
  by (simp add: daemon_new_def daemon_fits_def heap_fits_def health_default_def)

subsection \<open>Properties\<close>

text \<open>C11: every answer of the state task fits its type on the wire.  As long as the instants it is
  given can be read back by the time library, the commands it is sent could themselves be sent and
  the location of the init script is UTF-8, then after any sequence of requests and ends of scripts
  each answer the next step gives, and each answer the reports and examinations it starts end in,
  can be written and reads back at the client as what the daemon answered, its instants cut to the
  second.\<close>

theorem answers_fit_the_wire:
  assumes "wf_daemon env st" and "daemon_fits stamps st" and "sockets_named (en_os env)"
    and "utf8 (init_file (en_paths env))" and "list_all (event_fits stamps) (evs @ [ev])"
  shows "list_all (effect_arrives stamps) (snd (task_step env (run_task env st evs) ev))"
  using task_step_within [of env "run_task env st evs" stamps ev] assms
  by (simp add: wf_run_task run_task_fits)

text \<open>A time library that writes the number of seconds.\<close>

definition example_stamps :: stamps where
  "example_stamps =
     \<lparr> st_write = (\<lambda>t. show_nat (nat (t div 1000000000))),
       st_read = (\<lambda>s. map_option (\<lambda>n. int n * 1000000000) (parse_u64 s)) \<rparr>"

theorem answers_fit_the_wire_witness:
  "list_all (effect_arrives example_stamps)
     (snd (task_step example_env
        (run_task example_env example_daemon
           [TakeRequest example_clock (Reload None) 0,
            TakeRequest example_clock (AddRule Require Suffix ''example.com'' (Some 1)) 1,
            TakeCompletion example_clock Succeeded])
        (TakeRequest example_clock Status 2)))"
proof (rule answers_fit_the_wire)
  have clock: "clock_fits example_stamps example_clock" by code_simp
  show "wf_daemon example_env example_daemon"
    by (simp add: wf_daemon_def example_daemon_def daemon_new_def frontends_agree_def wf_load_def
        upstream_entries_default_def)
  have "stamp_reads example_stamps 0" by code_simp
  then show "daemon_fits example_stamps example_daemon"
    unfolding example_daemon_def by (rule daemon_new_fits)
  show "sockets_named (en_os example_env)"
    by (simp add: sockets_named_def example_env_def free_os_def)
  show "utf8 (init_file (en_paths example_env))" by code_simp
  show "list_all (event_fits example_stamps)
      ([TakeRequest example_clock (Reload None) 0,
        TakeRequest example_clock (AddRule Require Suffix ''example.com'' (Some 1)) 1,
        TakeCompletion example_clock Succeeded] @ [TakeRequest example_clock Status 2])"
    using clock by (simp add: command_fits_def u64_max_def)
qed

end
