(* ===== verification/IpcServer.thy ===== *)
theory IpcServer
  imports Daemon
begin

section \<open>The conversation on the command socket: \<open>daemon/ipc_server.rs\<close>\<close>

text \<open>
  One client sends lines and reads one answer to each.  What the client sends is the byte string
  \<open>input\<close>, after which it closes; a line is read up to a limit.  The JSON of a command is the
  parameter \<open>parse\<close>, which yields the command or the text of the failure; \<open>ask\<close> is the round trip
  through the channel of the state task, other clients' commands in between included, and comes
  back with nothing when the task is gone.  \<open>writes\<close> says of each write whether it succeeds: the
  answer can be written as JSON and the client still takes it.
\<close>

definition LINE_LIMIT :: nat where "LINE_LIMIT = 64 * 1024"

definition state_gone :: response where
  "state_gone = RespErr Internal ''the daemon state task is gone''"

definition state_call :: "('s \<Rightarrow> command \<Rightarrow> 's \<times> response option) \<Rightarrow> 's \<Rightarrow> command \<Rightarrow> 's \<times> response" where
  "state_call ask s cmd =
     (case ask s cmd of
        (s, None) \<Rightarrow> (s, state_gone)
      | (s, Some response) \<Rightarrow> (s, response))"

definition oversized :: response where
  "oversized = RespErr InvalidArgs
     (''a command must be one line of at most '' @ show_nat LINE_LIMIT @ '' bytes'')"

text \<open>\<open>read_line\<close> on at most \<open>limit\<close> bytes: through the first line end, or as far as there is.\<close>

fun read_line :: "nat \<Rightarrow> string \<Rightarrow> string \<times> string" where
  "read_line 0 input = ([], input)"
| "read_line (Suc limit) [] = ([], [])"
| "read_line (Suc limit) (c # input) =
     (if c = LF then ([c], input)
      else let (line, rest) = read_line limit input in (c # line, rest))"

lemma read_line_parts: "read_line limit input = (line, rest) \<Longrightarrow> input = line @ rest"
  by (induction limit input arbitrary: line rest rule: read_line.induct)
    (auto split: if_splits prod.splits)

lemma LINE_LIMIT_Suc: "LINE_LIMIT = Suc 65535"
  by (simp add: LINE_LIMIT_def)

lemma read_line_shorter:
  assumes "(line, rest) = read_line LINE_LIMIT input" and "input \<noteq> []"
  shows "length rest < length input"
proof -
  obtain c cs where input: "input = c # cs" using assms(2) by (cases input) auto
  have "fst (read_line (Suc n) (c # cs)) \<noteq> []" for n by (simp split: prod.split)
  then have "line \<noteq> []" using assms(1) unfolding input LINE_LIMIT_Suc by (metis fst_conv)
  with read_line_parts [OF assms(1) [symmetric]] show ?thesis by simp
qed

datatype ended = Closed | Broken | Streaming string

text \<open>
  The loop of \<open>converse\<close>: the answers written, how the conversation ended and the state after it.
  Each turn takes at least one byte of the input.
\<close>

function converse ::
  "(string \<Rightarrow> (string, command) res) \<Rightarrow> ('s \<Rightarrow> command \<Rightarrow> 's \<times> response option) \<Rightarrow> (nat \<Rightarrow> response \<Rightarrow> bool)
     \<Rightarrow> 's \<Rightarrow> nat \<Rightarrow> string \<Rightarrow> response list \<times> ended \<times> 's" where
  "converse parse ask writes s k input =
     (if input = [] then ([], Closed, s)
      else
        let (line, rest) = read_line LINE_LIMIT input in
        if \<not> utf8 line then ([], Broken, s)
        else if length line = LINE_LIMIT \<and> \<not> suffix [LF] line
        then (if writes k oversized then ([oversized], Closed, s) else ([], Broken, s))
        else if trim line = [] then converse parse ask writes s k rest
        else if parse (trim line) = Inr Subscribe then ([], Streaming rest, s)
        else
          let (s, response) =
                (case parse (trim line) of
                   Inr cmd \<Rightarrow> state_call ask s cmd
                 | Inl failure \<Rightarrow> (s, RespErr InvalidArgs failure))
          in if writes k response then
               let (responses, outcome) = converse parse ask writes s (Suc k) rest
               in (response # responses, outcome)
             else ([], Broken, s))"
  by pat_completeness auto
termination
  by (relation "measure (\<lambda>(parse, ask, writes, s, k, input). length input)")
    (auto dest: read_line_shorter)

declare converse.simps [simp del]

subsection \<open>One answer per line\<close>

text \<open>
  The specification: every line that is not blank is answered once, in order, each in the state the
  one before left, until a subscription, which takes the connection over.
\<close>

fun answer_line ::
  "(string \<Rightarrow> (string, command) res) \<Rightarrow> ('s \<Rightarrow> command \<Rightarrow> 's \<times> response option) \<Rightarrow> 's \<Rightarrow> string
     \<Rightarrow> 's \<times> response" where
  "answer_line parse ask s line =
     (case parse line of
        Inr cmd \<Rightarrow> state_call ask s cmd
      | Inl failure \<Rightarrow> (s, RespErr InvalidArgs failure))"

fun answer_lines ::
  "(string \<Rightarrow> (string, command) res) \<Rightarrow> ('s \<Rightarrow> command \<Rightarrow> 's \<times> response option) \<Rightarrow> 's \<Rightarrow> string list
     \<Rightarrow> response list \<times> 's" where
  "answer_lines parse ask s [] = ([], s)"
| "answer_lines parse ask s (line # lines) =
     (let (s, response) = answer_line parse ask s line;
          (responses, s) = answer_lines parse ask s lines
      in (response # responses, s))"

definition command_lines :: "string list \<Rightarrow> string list" where
  "command_lines lines = filter (\<lambda>l. l \<noteq> []) (map trim lines)"

text \<open>A line a client may send: short enough, UTF-8, without a line end inside.\<close>

definition sendable :: "(string \<Rightarrow> (string, command) res) \<Rightarrow> string \<Rightarrow> bool" where
  "sendable parse line \<longleftrightarrow>
     LF \<notin> set line \<and> length line < LINE_LIMIT \<and> utf8 (line @ [LF]) \<and> parse (trim line) \<noteq> Inr Subscribe"

lemma read_line_whole:
  "LF \<notin> set line \<Longrightarrow> length line < limit \<Longrightarrow> read_line limit (line @ LF # rest) = (line @ [LF], rest)"
proof (induction line arbitrary: limit)
  case Nil
  then show ?case by (cases limit) auto
next
  case (Cons c line)
  then show ?case by (cases limit) auto
qed

lemma read_line_over:
  "LF \<notin> set (take limit input) \<Longrightarrow> limit \<le> length input \<Longrightarrow>
     read_line limit input = (take limit input, drop limit input)"
  by (induction limit input rule: read_line.induct) auto

lemma trim_line_end: "trim (line @ [LF]) = trim line"
proof -
  have ws: "is_whitespace LF" by (simp add: is_whitespace_def)
  have "trim_end (s @ [LF]) = trim_end s" for s
    by (simp add: trim_end_def ws)
  moreover have "trim_start (line @ [LF]) = trim_start line @ [LF] \<or> trim_start (line @ [LF]) = [] \<and> trim_start line = []"
    by (induction line) (auto simp: trim_start_def ws)
  ultimately show ?thesis unfolding trim_def by auto
qed

lemma converse_line:
  assumes "sendable parse line"
  shows "converse parse ask (\<lambda>_ _. True) s k (line @ LF # rest) =
    (if trim line = [] then converse parse ask (\<lambda>_ _. True) s k rest
     else
       let (s, response) = answer_line parse ask s (trim line);
           (responses, outcome) = converse parse ask (\<lambda>_ _. True) s (Suc k) rest
       in (response # responses, outcome))"
  using assms read_line_whole [of line LINE_LIMIT rest]
  by (subst converse.simps) (simp add: sendable_def trim_line_end suffix_def)



text \<open>
  A line over the limit is refused only when the limit does not fall inside a character: where it
  does, the read fails and the connection ends with no answer.
\<close>

lemma oversized_cut_in_character:
  assumes "rest \<noteq> []" and "LF \<notin> set (take LINE_LIMIT rest)" and "LINE_LIMIT \<le> length rest"
    and "\<not> utf8 (take LINE_LIMIT rest)"
  shows "converse parse ask writes s k rest = ([], Broken, s)"
  using read_line_over [OF assms(2,3)] assms(1,4) by (subst converse.simps) simp

subsection \<open>The stream of decisions\<close>

text \<open>
  One turn of \<open>stream_events\<close>: the queue brings an event, or the client sends bytes, which are
  ignored, or hangs up.
\<close>

datatype stream_input = Published "event_view option" | ClientBytes nat | ClientFailed

fun stream_events :: "(nat \<Rightarrow> response \<Rightarrow> bool) \<Rightarrow> nat \<Rightarrow> stream_input list \<Rightarrow> response list \<times> ended option" where
  "stream_events writes k [] = ([], None)"
| "stream_events writes k (Published None # inputs) = ([], Some Closed)"
| "stream_events writes k (Published (Some event) # inputs) =
     (if writes k (RespEvent event) then
        let (responses, ended) = stream_events writes (Suc k) inputs
        in (RespEvent event # responses, ended)
      else ([], Some Broken))"
| "stream_events writes k (ClientBytes n # inputs) =
     (if n = 0 then ([], Some Closed) else stream_events writes k inputs)"
| "stream_events writes k (ClientFailed # inputs) = ([], Some Broken)"

end
