(* ===== verification/Cli.thy ===== *)
theory Cli
  imports Logging Process
begin

section \<open>The command line: \<open>cli/mod.rs\<close>, \<open>cli/client.rs\<close> and \<open>cli/tail.rs\<close>\<close>

text \<open>
  How words of the command line are read, what each subcommand asks the daemon, what it prints and
  the code it exits with.  Splitting the words into a subcommand is a library's, so a subcommand is
  a value here.  What a client prints is a pair of texts, for the output and for the errors.  The
  parameters are the round trip \<open>ask\<close> to the daemon, the JSON of a response and the text of an
  instant.
\<close>

subsection \<open>Reading the words\<close>

record cli_destination =
  dn_host :: host
  dn_port :: port

definition strip_or :: "string option \<Rightarrow> string \<Rightarrow> string" where
  "strip_or stripped s = (case stripped of None \<Rightarrow> s | Some r \<Rightarrow> r)"

text \<open>\<open>Destination::from_str\<close>; a rejection carries the word.\<close>

definition parse_destination :: "string \<Rightarrow> (string, cli_destination) res" where
  "parse_destination word =
     (case rsplit_once (CHR '':'') word of
        None \<Rightarrow> Err word
      | Some (host, port) \<Rightarrow>
          (let host = strip_or (strip_prefix ''['' host) host;
               host = strip_or (strip_suffix '']'' host) host
           in case parse_u16 port of
                None \<Rightarrow> Err word
              | Some port \<Rightarrow>
                  if host = [] then Err word else Ok \<lparr> dn_host = host, dn_port = port \<rparr>))"

definition show_invalid_destination :: "string \<Rightarrow> string" where
  "show_invalid_destination word = ''expected host:port, got '' @ debug_str word"

definition parse_kind :: "string \<Rightarrow> (string, rule_kind) res" where
  "parse_kind kind =
     (if kind = ''suffix'' then Ok Suffix
      else if kind = ''cidr'' then Ok Cidr
      else if kind = ''port'' then Ok Port
      else if kind = ''keyword'' then Ok Keyword
      else Err (''unknown rule kind '' @ debug_str kind @ '', expected suffix, cidr, port or keyword''))"

definition parse_forward_listen :: "string \<Rightarrow> (string, socket_addr) res" where
  "parse_forward_listen word =
     (case parse_socket word of
        Some addr \<Rightarrow> Ok addr
      | None \<Rightarrow>
          (case parse_u16 word of
             None \<Rightarrow>
               Err (''expected an address like 127.0.0.1:19000 or a bare port, got '' @ debug_str word)
           | Some port \<Rightarrow> Ok (SA4 (IPv4 127 0 0 1) port)))"

text \<open>The load the environment names, absent when it names none.\<close>

definition load_of :: "string \<Rightarrow> load_id option" where
  "load_of word = parse_load_id word"

definition load_of_env :: "string option \<Rightarrow> load_id option" where
  "load_of_env var = Option.bind var load_of"

text \<open>\<open>absolute\<close> resolves a path against the caller's directory and may fail.\<close>

definition reload_path :: "(path \<Rightarrow> path option) \<Rightarrow> path option \<Rightarrow> path option" where
  "reload_path absolute path =
     Option.bind path (\<lambda>path. case absolute path of None \<Rightarrow> Some path | Some resolved \<Rightarrow> Some resolved)"

subsection \<open>Asking the daemon\<close>

datatype unreachable_daemon =
    NoDaemon path | HungUp | ClientIo io_error | Malformed string

fun show_unreachable :: "unreachable_daemon \<Rightarrow> string" where
  "show_unreachable (NoDaemon path) = ''no daemon is listening on '' @ path @ '', run `nhop start`''"
| "show_unreachable HungUp = ''the daemon closed the connection without answering''"
| "show_unreachable (ClientIo failure) = ''cannot talk to the daemon: '' @ ie_text failure"
| "show_unreachable (Malformed failure) =
     ''the daemon answered with a line this client cannot read: '' @ failure"

definition read_or_hangup :: "(io_error, nat) res \<Rightarrow> (unreachable_daemon, nat) res" where
  "read_or_hangup reading =
     (case reading of
        Inr n \<Rightarrow> Ok n
      | Inl failure \<Rightarrow>
          if ie_kind failure = ConnectionReset then Ok 0 else Err (ClientIo failure))"

definition unconnectable :: "path \<Rightarrow> io_error \<Rightarrow> unreachable_daemon" where
  "unconnectable socket_path failure =
     (if ie_kind failure \<in> {FileNotFound, ConnectionRefused} then NoDaemon socket_path
      else ClientIo failure)"

definition client_connect :: "path \<Rightarrow> (io_error, unit) res \<Rightarrow> (unreachable_daemon, unit) res" where
  "client_connect socket_path connected =
     (case connected of
        Inr _ \<Rightarrow> Ok ()
      | Inl failure \<Rightarrow> Err (unconnectable socket_path failure))"

text \<open>
  \<open>ask\<close> on what the socket did: connecting, sending the command, and the read of the answer, which
  brings a line or fails.
\<close>

definition client_ask ::
  "(string \<Rightarrow> (string, response) res) \<Rightarrow> path \<Rightarrow> (io_error, unit) res \<Rightarrow> (io_error, unit) res
     \<Rightarrow> (io_error, string) res \<Rightarrow> (unreachable_daemon, response) res" where
  "client_ask parse socket_path connected sent received =
     res_bind (client_connect socket_path connected) (\<lambda>_.
       case sent of
         Inl failure \<Rightarrow> Err (ClientIo failure)
       | Inr _ \<Rightarrow>
           res_bind (read_or_hangup (case received of Inr line \<Rightarrow> Ok (length line) | Inl e \<Rightarrow> Err e))
             (\<lambda>n. if n = 0 then Err HungUp
                  else case received of
                         Inl e \<Rightarrow> Err HungUp
                       | Inr line \<Rightarrow>
                           (case parse line of
                              Inl failure \<Rightarrow> Err (Malformed failure)
                            | Inr response \<Rightarrow> Ok response)))"

type_synonym 's asking = "'s \<Rightarrow> command \<Rightarrow> 's \<times> (unreachable_daemon, response) res"

subsection \<open>Exit codes\<close>

fun exit_of_err :: "err_kind \<Rightarrow> exit" where
  "exit_of_err NotFound = Missing"
| "exit_of_err UpstreamDown = ExitUpstreamDown"
| "exit_of_err InvalidArgs = ExitInvalidArgs"
| "exit_of_err LoadInProgress = Failed"
| "exit_of_err Internal = Failed"

fun exit_of_unreachable :: "unreachable_daemon \<Rightarrow> exit" where
  "exit_of_unreachable (NoDaemon path) = Missing"
| "exit_of_unreachable HungUp = Missing"
| "exit_of_unreachable (ClientIo failure) = Missing"
| "exit_of_unreachable (Malformed failure) = Failed"

fun exit_of_start :: "start_failure \<Rightarrow> exit" where
  "exit_of_start (AlreadyRunning owner) = Failed"
| "exit_of_start (StartIo failure) = Failed"

subsection \<open>What a person reads\<close>

definition writeln :: "string \<Rightarrow> string" where
  "writeln s = s @ [LF]"

definition rule_kind_name :: "rule_kind \<Rightarrow> string" where
  "rule_kind_name kind =
     (case kind of
        Suffix \<Rightarrow> ''suffix'' | Cidr \<Rightarrow> ''cidr'' | Port \<Rightarrow> ''port'' | Keyword \<Rightarrow> ''keyword'')"

fun outcome_name :: "load_outcome \<Rightarrow> string" where
  "outcome_name LoadOk = ''ok''"
| "outcome_name LoadFailed = ''failed''"
| "outcome_name LoadTimedOut = ''timed out''"

definition bound_name :: "bool \<Rightarrow> string" where
  "bound_name bound = (if bound then ''bound'' else ''unbound'')"

definition check_mark :: "bool \<Rightarrow> string" where
  "check_mark ok = (if ok then ''ok  '' else ''FAIL'')"

definition rule_name :: "nat option \<Rightarrow> rule_class option \<Rightarrow> string" where
  "rule_name index class =
     (case (index, class) of
        (Some index, Some class) \<Rightarrow> ''rule '' @ show_nat index @ '' ('' @ class_name class @ '')''
      | _ \<Rightarrow> ''no rule'')"

definition init_name :: "path option \<Rightarrow> string" where
  "init_name init_path = (case init_path of Some path \<Rightarrow> path | None \<Rightarrow> ''none'')"

definition load_name :: "(time \<Rightarrow> string) \<Rightarrow> last_load_view option \<Rightarrow> string" where
  "load_name rfc3339 last_load =
     (case last_load of
        None \<Rightarrow> ''never - the ruleset is empty and every connection is direct''
      | Some l \<Rightarrow>
          (let at = rfc3339 (ll_at l); ended = outcome_name (ll_outcome l) in
           case ll_command l of
             Some cmd \<Rightarrow> ended @ '' at '' @ at @ '', on '' @ cmd
           | None \<Rightarrow> ended @ '' at '' @ at))"

definition proxy_name :: "string option \<Rightarrow> string" where
  "proxy_name proxy = (case proxy of Some proxy \<Rightarrow> proxy | None \<Rightarrow> ''off'')"

definition fallen_back_suffix :: "effective_hop option \<Rightarrow> string" where
  "fallen_back_suffix hop =
     (case hop of
        None \<Rightarrow> []
      | Some HopDirect \<Rightarrow> []
      | Some HopUpstream \<Rightarrow> []
      | Some HopFallbackDirect \<Rightarrow> '' -> direct'')"

definition render_rules :: "rule_view list \<Rightarrow> string" where
  "render_rules rules =
     concat (map (\<lambda>r. writeln (show_nat (rv_index r) @ ''  '' @ class_name (rv_class r) @ ''  ''
                      @ rule_kind_name (rv_kind r) @ ''  '' @ rv_value r)) rules)"

text \<open>\<open>{label:<14}\<close>: padded on the right to a width.\<close>

definition pad_right :: "nat \<Rightarrow> string \<Rightarrow> string" where
  "pad_right width s = s @ replicate (width - length s) (CHR '' '')"

definition render_upstream ::
  "(time \<Rightarrow> string) \<Rightarrow> string \<Rightarrow> upstream_addr \<Rightarrow> health_state \<Rightarrow> time \<Rightarrow> string \<Rightarrow> string" where
  "render_upstream rfc3339 label addr health changed mark =
     writeln (pad_right 14 label @ addr @ '' '' @ health_name health @ '' since ''
              @ rfc3339 changed @ mark)"

definition render_listed :: "(time \<Rightarrow> string) \<Rightarrow> string \<Rightarrow> upstream_view \<Rightarrow> string" where
  "render_listed rfc3339 label u =
     render_upstream rfc3339 label (uv_addr u) (uv_health u) (uv_health_changed_at u)
       (if uv_selected u then '' (selected)'' else [])"

definition render_upstreams ::
  "(time \<Rightarrow> string) \<Rightarrow> upstream_addr \<Rightarrow> health_state \<Rightarrow> time \<Rightarrow> upstream_view list \<Rightarrow> string" where
  "render_upstreams rfc3339 first health changed upstreams =
     (case upstreams of
        primary # second # rest \<Rightarrow>
          render_listed rfc3339 ''upstream'' primary
          @ concat (map (render_listed rfc3339 ''fallback'') (second # rest))
      | _ \<Rightarrow> render_upstream rfc3339 ''upstream'' first health changed [])"

definition render_status :: "(time \<Rightarrow> string) \<Rightarrow> status_view \<Rightarrow> string" where
  "render_status rfc3339 s =
     writeln (''uptime        '' @ show_nat (sv_uptime_secs s) @ ''s'')
     @ writeln (''http          '' @ show_socket (sv_http_listen s) @ '' '' @ bound_name (sv_http_bound s))
     @ writeln (''socks         '' @ show_socket (sv_socks_listen s) @ '' '' @ bound_name (sv_socks_bound s))
     @ concat (map (\<lambda>f. writeln (''forward       '' @ show_socket (fv_listen f) @ '' -> ''
                                 @ fv_host f @ '':'' @ show_u16 (fv_port f))) (sv_forwards s))
     @ render_upstreams rfc3339 (sv_upstream s) (sv_health s) (sv_health_changed_at s) (sv_upstreams s)
     @ writeln (''rules         require '' @ show_nat (rc_require (sv_rules s)) @ '', prefer ''
                @ show_nat (rc_prefer (sv_rules s)) @ '', never '' @ show_nat (rc_never (sv_rules s)))
     @ writeln (''init          '' @ init_name (sv_init_path s))
     @ writeln (''last load     '' @ load_name rfc3339 (sv_last_load s))
     @ writeln (''system proxy  http '' @ proxy_name (spv_http (sv_system_proxy s)) @ '', https ''
                @ proxy_name (spv_https (sv_system_proxy s)) @ '', socks ''
                @ proxy_name (spv_socks (sv_system_proxy s)))"

definition render_decision :: "decision_view \<Rightarrow> string" where
  "render_decision d =
     writeln (decision_name (dv_decision d) @ '' via '' @ rule_name (dv_rule_index d) (dv_class d)
              @ '' to '' @ dv_next_hop d)"

definition render_checks :: "check_view list \<Rightarrow> string" where
  "render_checks checks =
     concat (map (\<lambda>c. writeln (check_mark (cv_ok c) @ ''  '' @ cv_name c @ ''  '' @ cv_detail c)) checks)"

definition render_event :: "event_view \<Rightarrow> string" where
  "render_event e =
     (let error = (case ev_error e of Some error \<Rightarrow> error | None \<Rightarrow> ''-'');
          dialled = (case ev_connect_ms e of
                       Some ms \<Rightarrow> '' (dial '' @ show_nat ms @ ''ms)'' | None \<Rightarrow> []);
          carried = (case ev_via e of Some via \<Rightarrow> '' @ '' @ via | None \<Rightarrow> [])
      in writeln (ev_host e @ '':'' @ show_u16 (ev_port e) @ ''  '' @ decision_name (ev_decision e)
           @ '' via '' @ rule_name (ev_rule_index e) (ev_class e) @ carried
           @ fallen_back_suffix (ev_hop e) @ ''  upstream '' @ health_name (ev_upstream e) @ ''  ''
           @ show_nat (ev_duration_ms e) @ ''ms'' @ dialled @ ''  '' @ error))"

definition render_proxy :: "system_proxy_view \<Rightarrow> string" where
  "render_proxy p =
     writeln (''http   '' @ proxy_name (spv_http p))
     @ writeln (''https  '' @ proxy_name (spv_https p))
     @ writeln (''socks  '' @ proxy_name (spv_socks p))"

end
