(* ===== verification/Exchange.thy ===== *)
theory Exchange
  imports Answers IpcServer Cli
begin

section \<open>A command through the socket: client, conversation and state task\<close>

text \<open>
  The whole way of one command: the client writes it as a line (\<open>cli/client.rs\<close>), the conversation
  reads the line, asks the state task and writes its answer as a line (\<open>daemon/ipc_server.rs\<close>), and
  the client reads that.  The text of a value is serde_json's, the parameter \<open>json_texts\<close>.  What the
  verbs of the command line assume of asking the daemon is proved of this composition.
\<close>

subsection \<open>Lines\<close>

text \<open>
  \<open>jt_write\<close> and \<open>jt_read\<close> are the library's texts; \<open>jt_mismatch\<close> is what its reader says of a
  value that is none of the type, \<open>jt_unwritable\<close> what its writer says of a path that is no text.
\<close>

record json_texts =
  jt_write :: "val \<Rightarrow> string"
  jt_read :: "string \<Rightarrow> (string, val) res"
  jt_mismatch :: "val \<Rightarrow> string"
  jt_unwritable :: string

definition parse_as :: "json_texts \<Rightarrow> (val \<Rightarrow> 'a option) \<Rightarrow> string \<Rightarrow> (string, 'a) res" where
  "parse_as jt reads line =
     (case jt_read jt line of
        Inl failure \<Rightarrow> Err failure
      | Inr v \<Rightarrow> (case reads v of None \<Rightarrow> Err (jt_mismatch jt v) | Some x \<Rightarrow> Ok x))"

definition written_line :: "json_texts \<Rightarrow> val \<Rightarrow> string" where
  "written_line jt v = jt_write jt v @ [LF]"

text \<open>A client that keeps reading takes every answer that can be written.\<close>

definition writable :: "stamps \<Rightarrow> nat \<Rightarrow> response \<Rightarrow> bool" where
  "writable stamps k response \<longleftrightarrow> response_val stamps response \<noteq> None"

definition response_line :: "json_texts \<Rightarrow> stamps \<Rightarrow> response \<Rightarrow> string" where
  "response_line jt stamps response =
     (case response_val stamps response of None \<Rightarrow> [] | Some v \<Rightarrow> written_line jt v)"

definition serve_client ::
  "json_texts \<Rightarrow> stamps \<Rightarrow> ('s \<Rightarrow> command \<Rightarrow> 's \<times> response option) \<Rightarrow> 's \<Rightarrow> string \<Rightarrow> 's \<times> string" where
  "serve_client jt stamps ask s input =
     (let (responses, ended, s) =
            converse (parse_as jt read_command) ask (writable stamps) s 0 input
      in (s, concat (map (response_line jt stamps) responses)))"

text \<open>What the client's \<open>read_line\<close>, which has no limit, takes of the bytes it is sent.\<close>

definition first_line :: "string \<Rightarrow> string" where
  "first_line bytes = fst (read_line (length bytes) bytes)"

text \<open>\<open>ask\<close> on a socket that connects and carries what is sent, both ways.\<close>

definition socket_ask ::
  "json_texts \<Rightarrow> stamps \<Rightarrow> path \<Rightarrow> ('s \<Rightarrow> command \<Rightarrow> 's \<times> response option) \<Rightarrow> 's asking" where
  "socket_ask jt stamps socket_path ask s cmd =
     (let ask_over = client_ask (parse_as jt (read_response stamps)) socket_path (Ok ()) in
      case command_val cmd of
        None \<Rightarrow> (s, ask_over (Err (io_other (jt_unwritable jt))) (Ok []))
      | Some v \<Rightarrow>
          (let (s, bytes) = serve_client jt stamps ask s (written_line jt v)
           in (s, ask_over (Ok ()) (Ok (first_line bytes)))))"

text \<open>
  What the library documents of one value: its text is one line of UTF-8 that neither begins nor
  ends in white space, and reads back with or without the line end behind it.
\<close>

definition json_carries :: "json_texts \<Rightarrow> val \<Rightarrow> bool" where
  "json_carries jt v \<longleftrightarrow>
     jt_read jt (jt_write jt v) = Ok v \<and> jt_read jt (written_line jt v) = Ok v
     \<and> LF \<notin> set (jt_write jt v) \<and> utf8 (written_line jt v)
     \<and> jt_write jt v \<noteq> [] \<and> trim (jt_write jt v) = jt_write jt v"

lemma first_line_whole: "LF \<notin> set line \<Longrightarrow> first_line (line @ [LF]) = line @ [LF]"
  using read_line_whole [of line "length (line @ [LF])" "[]"] by (simp add: first_line_def)

lemma converse_one_line:
  assumes "json_carries jt v" and "length (jt_write jt v) < LINE_LIMIT"
    and "read_command v = Some cmd" and "cmd \<noteq> Subscribe"
  shows "converse (parse_as jt read_command) ask writes s k (written_line jt v) =
    (let (s, response) = state_call ask s cmd
     in if writes k response then ([response], Closed, s) else ([], Broken, s))"
proof -
  have line: "read_line LINE_LIMIT (written_line jt v) = (written_line jt v, [])"
    using assms(1,2) read_line_whole [of "jt_write jt v" LINE_LIMIT "[]"]
    by (simp add: json_carries_def written_line_def)
  have trimmed: "trim (written_line jt v) = jt_write jt v"
    using assms(1) by (simp add: json_carries_def written_line_def trim_line_end)
  have parsed: "parse_as jt read_command (jt_write jt v) = Ok cmd"
    using assms(1,3) by (simp add: json_carries_def parse_as_def)
  have at_end: "converse (parse_as jt read_command) ask writes s' k' [] = ([], Closed, s')" for s' k'
    by (simp add: converse.simps)
  have ends: "suffix [LF] (written_line jt v)" "written_line jt v \<noteq> []" "utf8 (written_line jt v)"
    "jt_write jt v \<noteq> []"
    using assms(1) by (simp_all add: json_carries_def written_line_def suffix_def)
  obtain s' response where asked: "state_call ask s cmd = (s', response)" by fastforce
  show ?thesis
    by (subst converse.simps) (simp add: line trimmed parsed at_end ends assms(4) asked)
qed

text \<open>
  The socket is transparent: what the client reads is what asking the state task gives, and where
  the answer cannot be written the client is told the daemon hung up.
\<close>

lemma socket_ask_transparent:
  assumes "command_fits cmd" and "cmd \<noteq> Subscribe" and "command_val cmd = Some v"
    and "json_carries jt v" and "length (jt_write jt v) < LINE_LIMIT"
    and "state_call ask s cmd = (s', response)"
    and "\<And>w. response_val stamps response = Some w \<Longrightarrow>
           json_carries jt w \<and> read_response stamps w = Some (response_wire response)"
  shows "socket_ask jt stamps socket_path ask s cmd =
    (s', if response_val stamps response = None then Err HungUp else Ok (response_wire response))"
proof -
  have reads: "read_command v = Some cmd" using command_reads_back [OF assms(1)] assms(3) by simp
  show ?thesis
  proof (cases "response_val stamps response")
    case None
    then show ?thesis
      by (simp add: socket_ask_def assms(3) serve_client_def
          converse_one_line [OF assms(4,5) reads assms(2)] assms(6) writable_def client_ask_def
          client_connect_def res_bind_def first_line_def read_or_hangup_def)
  next
    case (Some w)
    note comes = assms(7) [OF Some]
    then have line: "first_line (written_line jt w) = written_line jt w"
      by (simp add: json_carries_def written_line_def first_line_whole)
    have "parse_as jt (read_response stamps) (written_line jt w) = Ok (response_wire response)"
      using comes by (simp add: json_carries_def parse_as_def)
    moreover have "written_line jt w \<noteq> []" by (simp add: written_line_def)
    ultimately show ?thesis
      by (simp add: socket_ask_def assms(3) serve_client_def Some response_line_def line
          converse_one_line [OF assms(4,5) reads assms(2)] assms(6) writable_def client_ask_def
          client_connect_def res_bind_def read_or_hangup_def)
  qed
qed

text \<open>
  A status that names a path that is no text cannot be written, so the client of a daemon whose init
  script lies under such a path is hung up on, though its command was carried out.
\<close>

lemma unreadable_path_hangs_up:
  assumes "command_fits cmd" and "cmd \<noteq> Subscribe" and "command_val cmd = Some v"
    and "json_carries jt v" and "length (jt_write jt v) < LINE_LIMIT"
    and "state_call ask s cmd = (s', RespStatus status)"
    and "sv_init_path status = Some path" and "\<not> utf8 path"
  shows "socket_ask jt stamps socket_path ask s cmd = (s', Err HungUp)"
proof -
  have "response_val stamps (RespStatus status) = None"
    using assms(7,8) by (simp add: status_val_def path_val_def)
  then show ?thesis using socket_ask_transparent [OF assms(1-6), of stamps socket_path] by simp
qed

subsection \<open>Asking the state task\<close>

text \<open>
  What the work the state task hands out meets: the settings of the system, the network and the
  verdicts an examination reads and, for a run of the init script, the requests that arrive while
  it runs and how it ends.
\<close>

record surroundings =
  su_clock :: clock
  su_proxy :: "network_service \<Rightarrow> (string, (proxy_failure, system_proxy) res) res"
  su_tcp :: tcp
  su_heap :: heap
  su_requests :: "request list"
  su_ended :: clock
  su_outcome :: script_outcome

text \<open>
  The settings are read on a thread of their own, for which \<open>su_proxy\<close> gives what joining it returns;
  a thread that panicked counts as a reader that could not be run.
\<close>

definition reading_proxy :: "(string, (proxy_failure, system_proxy) res) res \<Rightarrow> (proxy_failure, system_proxy) res" where
  "reading_proxy joined =
     (case joined of Inr reading \<Rightarrow> reading | Inl failure \<Rightarrow> Err (ProxyNotRun (io_other failure)))"

fun answered :: "surroundings \<Rightarrow> effect list \<Rightarrow> response option" where
  "answered su [Answer reply response] = Some response"
| "answered su [ReportStatus reply status service] = Some (report_answer status (reading_proxy (su_proxy su service)))"
| "answered su [RunDoctor reply findings addrs service entries] =
     Some (doctor_answer findings addrs service (reading_proxy (su_proxy su service)) (su_tcp su) (su_heap su) entries)"
| "answered su _ = None"

text \<open>\<open>StateHandle::call\<close>: a command that starts a run is answered when the run has ended.\<close>

definition task_call :: "'net env \<Rightarrow> surroundings \<Rightarrow> 'net daemon \<Rightarrow> command \<Rightarrow> 'net daemon \<times> response option" where
  "task_call env su st cmd =
     (case handle env (su_clock su) st cmd 0 of
        (st, [RunScript path dir load limit]) \<Rightarrow>
          (let (st, effects) =
                 finish env (su_ended su) (run_requests env st (su_requests su)) (su_outcome su)
           in (st, answered su effects))
      | (st, effects) \<Rightarrow> (st, answered su effects))"

definition surroundings_fit :: "stamps \<Rightarrow> surroundings \<Rightarrow> bool" where
  "surroundings_fit stamps su \<longleftrightarrow>
     clock_fits stamps (su_clock su) \<and> clock_fits stamps (su_ended su)
     \<and> list_all (\<lambda>(ck, cmd, reply). clock_fits stamps ck \<and> command_fits cmd) (su_requests su)"

lemma answered_arrives:
  "answered su effects = Some response \<Longrightarrow> list_all (effect_arrives stamps) effects \<Longrightarrow> arrives stamps response"
  by (cases "(su, effects)" rule: answered.cases) auto

lemma reload_effects:
  "(\<exists>answer. snd (reload env st path reply) = [Answer reply answer]) \<or>
   (\<exists>script dir load limit f. snd (reload env st path reply) = [RunScript script dir load limit]
      \<and> dm_load (fst (reload env st path reply)) = Some f)"
  by (cases "current_load st") (simp_all add: reload_def Let_def split: prod.split)

lemma handle_effects:
  "(\<exists>response. answered su (snd (handle env ck st cmd reply)) = Some response
      \<and> (\<forall>path dir load limit. snd (handle env ck st cmd reply) \<noteq> [RunScript path dir load limit])) \<or>
   (\<exists>path dir load limit f. snd (handle env ck st cmd reply) = [RunScript path dir load limit]
      \<and> dm_load (fst (handle env ck st cmd reply)) = Some f)"
proof (cases cmd)
  case (Reload path)
  with reload_effects [of env st path reply] show ?thesis by auto
next
  case CmdOn
  with reload_effects [of env st None reply] show ?thesis by auto
qed (simp_all add: report_def doctor_def)

lemma finish_answers:
  assumes "dm_load st = Some f" and "finish env ck st outcome = (st', effects)"
  shows "\<exists>response. answered su effects = Some response"
proof -
  obtain message where "effects = [case message of None \<Rightarrow> report ck st' (if_reply f)
                    | Some m \<Rightarrow> Answer (if_reply f) (RespErr Internal m)]"
    using finish_outcome [OF assms] by blast
  then show ?thesis by (cases message) (simp_all add: report_def)
qed

text \<open>Every command is answered, with something the wire carries.\<close>

lemma task_call_answers:
  assumes "wf_daemon env st" and "daemon_fits stamps st" and "sockets_named (en_os env)"
    and "utf8 (init_file (en_paths env))" and "surroundings_fit stamps su" and "command_fits cmd"
  obtains st' response where "task_call env su st cmd = (st', Some response)" "arrives stamps response"
proof -
  obtain st1 effects where first: "handle env (su_clock su) st cmd 0 = (st1, effects)" by fastforce
  have wf: "wf_daemon env st1" using wf_handle [OF assms(1,3), of "su_clock su" cmd 0] first by simp
  have fits: "daemon_fits stamps st1" "list_all (effect_arrives stamps) effects"
    using handle_within [OF assms(1,2,4) _ assms(6), of "su_clock su" 0] assms(5) first
    by (simp_all add: surroundings_fit_def)
  consider (answers) response where "answered su effects = Some response"
      "\<And>path dir load limit. effects \<noteq> [RunScript path dir load limit]"
    | (runs) path dir load limit f where "effects = [RunScript path dir load limit]" "dm_load st1 = Some f"
    using handle_effects [of su env "su_clock su" st cmd 0] first by fastforce
  then show thesis
  proof cases
    case answers
    then have "task_call env su st cmd = (st1, answered su effects)"
      unfolding task_call_def first
      by (auto split: list.split effect.split)
    with answers answered_arrives fits(2) show thesis by (auto intro: that)
  next
    case runs
    let ?running = "run_requests env st1 (su_requests su)"
    have evs: "list_all (event_fits stamps)
        (map (\<lambda>(ck, cmd, reply). TakeRequest ck cmd reply) (su_requests su))"
      using assms(5) by (auto simp: surroundings_fit_def list_all_iff)
    have running: "wf_daemon env ?running" "daemon_fits stamps ?running"
      using run_task_fits [OF wf fits(1) assms(3,4) evs] wf
      by (simp_all add: run_requests_def wf_run_task assms(3))
    obtain g where flight: "dm_load ?running = Some g"
      using run_requests_in_flight [OF runs(2), of env "su_requests su"] by simp
    obtain st2 ended where over: "finish env (su_ended su) ?running (su_outcome su) = (st2, ended)"
      by fastforce
    have "list_all (effect_arrives stamps) ended"
      using finish_within [OF running assms(3), of "su_ended su" "su_outcome su"] assms(5) over
      by (simp add: surroundings_fit_def)
    moreover obtain response where "answered su ended = Some response"
      using finish_answers [OF flight over] by blast
    moreover have "task_call env su st cmd = (st2, answered su ended)"
      by (simp add: task_call_def first runs(1) over)
    ultimately show thesis using answered_arrives by (auto intro: that)
  qed
qed

subsection \<open>Properties\<close>


text \<open>A library that knows two values, and the daemon of theory Loads asked to let traffic go.\<close>

definition example_json :: json_texts where
  "example_json =
     \<lparr> jt_write = (\<lambda>v. if v = VObject [(''cmd'', VText ''off'')] then ''{off}'' else ''{ok}''),
       jt_read = (\<lambda>s. if s = ''{off}'' \<or> s = ''{off}'' @ [LF] then Ok (VObject [(''cmd'', VText ''off'')])
                      else Ok (VObject [(''resp'', VText ''ok'')])),
       jt_mismatch = (\<lambda>v. ''unknown variant''), jt_unwritable = ''path contains invalid UTF-8 characters'' \<rparr>"

definition example_surroundings :: surroundings where
  "example_surroundings =
     \<lparr> su_clock = example_clock, su_proxy = (\<lambda>s. Ok (Ok system_proxy_default)),
       su_tcp = (\<lambda>_ _. None), su_heap = [], su_requests = [], su_ended = example_clock,
       su_outcome = Succeeded \<rparr>"


end
