(* ===== verification/Commands.thy ===== *)
theory Commands
  imports Cli
begin

section \<open>The subcommands\<close>

text \<open>
  What each subcommand of \<open>nhop\<close> does once its words are read: \<open>dispatch\<close> of \<open>cli/mod.rs\<close> with the
  functions it calls, and \<open>follow\<close> of \<open>cli/tail.rs\<close>.  The record \<open>client\<close> holds what they take from
  outside: the JSON of a response, the text of an instant and the paths.
\<close>

record client =
  cx_json :: "response \<Rightarrow> string option"
  cx_rfc3339 :: "time \<Rightarrow> string"
  cx_paths :: paths

datatype output_form = Json | Human

definition output_of :: "bool \<Rightarrow> output_form" where
  "output_of json = (if json then Json else Human)"

text \<open>What a run of the client leaves behind: its output, its errors and its exit code.\<close>

record ran =
  rn_out :: string
  rn_err :: string
  rn_exit :: exit

definition ran_with :: "string \<Rightarrow> string \<Rightarrow> exit \<Rightarrow> ran" where
  "ran_with out err exit = \<lparr> rn_out = out, rn_err = err, rn_exit = exit \<rparr>"

definition complain :: "string \<Rightarrow> string" where
  "complain message = writeln (''nhop: '' @ message)"

definition write_json :: "client \<Rightarrow> response \<Rightarrow> string" where
  "write_json cx payload =
     (case cx_json cx payload of None \<Rightarrow> [] | Some document \<Rightarrow> writeln document)"

definition rendered :: "client \<Rightarrow> output_form \<Rightarrow> response \<Rightarrow> string \<Rightarrow> string" where
  "rendered cx form payload human = (case form of Json \<Rightarrow> write_json cx payload | Human \<Rightarrow> human)"

definition render :: "client \<Rightarrow> output_form \<Rightarrow> response \<Rightarrow> ran" where
  "render cx form response =
     (case response of
        RespOk \<Rightarrow> ran_with [] [] Success
      | RespRules rules \<Rightarrow> ran_with (rendered cx form response (render_rules rules)) [] Success
      | RespStatus s \<Rightarrow>
          ran_with (rendered cx form response (render_status (cx_rfc3339 cx) s)) [] Success
      | RespDecision d \<Rightarrow> ran_with (rendered cx form response (render_decision d)) [] Success
      | RespDoctor checks \<Rightarrow> ran_with (rendered cx form response (render_checks checks)) [] Success
      | RespEvent e \<Rightarrow> ran_with (rendered cx form response (render_event e)) [] Success
      | RespErr kind message \<Rightarrow> ran_with [] (complain message) (exit_of_err kind))"

definition unanswered :: "unreachable_daemon \<Rightarrow> ran" where
  "unanswered failure =
     ran_with [] (complain (show_unreachable failure)) (exit_of_unreachable failure)"

definition ask_daemon ::
  "client \<Rightarrow> 's asking \<Rightarrow> 's \<Rightarrow> command \<Rightarrow> output_form \<Rightarrow> 's \<times> ran" where
  "ask_daemon cx ask s cmd form =
     (case ask s cmd of
        (s, Inl failure) \<Rightarrow> (s, unanswered failure)
      | (s, Inr response) \<Rightarrow> (s, render cx form response))"

text \<open>
  \<open>set_upstreams\<close>: a list refused as malformed within a load is followed by a single upstream no
  daemon can read, so a daemon that does not know lists fails the load too.
\<close>

definition set_upstreams :: "client \<Rightarrow> 's asking \<Rightarrow> 's \<Rightarrow> command \<Rightarrow> 's \<times> ran" where
  "set_upstreams cx ask s cmd =
     (case cmd of
        SetUpstreams addr fallbacks (Some load) \<Rightarrow>
          (case ask s cmd of
             (s, Inl failure) \<Rightarrow> (s, unanswered failure)
           | (s, Inr response) \<Rightarrow>
               (case response of
                  RespErr InvalidArgs message \<Rightarrow>
                    (fst (ask s (command_unreadable_upstream load)), render cx Human response)
                | _ \<Rightarrow> (s, render cx Human response)))
      | _ \<Rightarrow> ask_daemon cx ask s cmd Human)"

definition diagnose :: "client \<Rightarrow> 's asking \<Rightarrow> 's \<Rightarrow> output_form \<Rightarrow> 's \<times> ran" where
  "diagnose cx ask s form =
     (let (s, answered) = ask s Doctor;
          report = (\<lambda>err checks.
            ran_with (rendered cx form (RespDoctor checks) (render_checks checks)) err (exit_of checks))
      in (s, case answered of
               Inr (RespDoctor checks) \<Rightarrow> report [] checks
             | Inr response \<Rightarrow> render cx form response
             | Inl failure \<Rightarrow>
                 report (complain (show_unreachable failure))
                   (doctor_report [unreachable (show_unreachable failure)])))"

subsection \<open>The system proxy\<close>

datatype proxy_action = ProxyOn | ProxyOff | ProxyStatus

definition action_name :: "proxy_action \<Rightarrow> string" where
  "action_name action =
     (case action of ProxyOn \<Rightarrow> ''on'' | ProxyOff \<Rightarrow> ''off'' | ProxyStatus \<Rightarrow> ''status'')"

definition needs_root :: "proxy_action \<Rightarrow> network_service \<Rightarrow> ran" where
  "needs_root action service =
     ran_with [] (complain (''changing the system proxy needs root, run: sudo nhop proxy ''
       @ action_name action @ '' --service '' @ [CHR 0x27] @ service @ [CHR 0x27])) Failed"

definition listen_addresses :: "'s asking \<Rightarrow> 's \<Rightarrow> 's \<times> (ran, listen) res" where
  "listen_addresses ask s =
     (case ask s Status of
        (s, Inl failure) \<Rightarrow> (s, Err (unanswered failure))
      | (s, Inr (RespStatus status)) \<Rightarrow>
          (s, Ok \<lparr> l_http = sv_http_listen status, l_socks = sv_socks_listen status \<rparr>)
      | (s, Inr (RespErr kind message)) \<Rightarrow>
          (s, Err (ran_with [] (complain message) (exit_of_err kind)))
      | (s, Inr other) \<Rightarrow>
          (s, Err (ran_with []
             (complain (''the daemon answered something other than a status, so its listen '' @
                        ''addresses are unknown'')) Failed)))"

definition write_proxy ::
  "'m networksetup \<Rightarrow> invocation list \<Rightarrow> network_service \<Rightarrow> 'm \<Rightarrow> 'm \<times> ran" where
  "write_proxy run invocations service m =
     (case apply_invocations run invocations m of
        (m, Inr _) \<Rightarrow> (m, ran_with [] [] Success)
      | (m, Inl failure) \<Rightarrow>
          (m, ran_with [] (complain (''cannot change the settings of '' @ service @ '': ''
                @ show_proxy_failure failure)) Failed))"

definition read_proxy :: "'m networksetup \<Rightarrow> network_service \<Rightarrow> 'm \<Rightarrow> 'm \<times> ran" where
  "read_proxy run service m =
     (case networksetup_read run service m of
        (m, Inr proxy) \<Rightarrow> (m, ran_with (render_proxy (system_proxy_show_view proxy)) [] Success)
      | (m, Inl failure) \<Rightarrow>
          (m, ran_with [] (complain (''cannot read the settings of '' @ service @ '': ''
                @ show_proxy_failure failure)) Failed))"

definition proxy ::
  "'m networksetup \<Rightarrow> nat \<Rightarrow> 's asking \<Rightarrow> proxy_action \<Rightarrow> network_service \<Rightarrow> 's \<times> 'm \<Rightarrow> ('s \<times> 'm) \<times> ran"
where
  "proxy run euid ask action service sm =
     (let (s, m) = sm in
      case action of
        ProxyStatus \<Rightarrow> (let (m, r) = read_proxy run service m in ((s, m), r))
      | ProxyOn \<Rightarrow>
          (if privilege_current euid \<noteq> Root then (sm, needs_root action service)
           else
             case listen_addresses ask s of
               (s, Inl r) \<Rightarrow> ((s, m), r)
             | (s, Inr addrs) \<Rightarrow>
                 (let (m, r) = write_proxy run (enabling addrs service) service m in ((s, m), r)))
      | ProxyOff \<Rightarrow>
          (if privilege_current euid \<noteq> Root then (sm, needs_root action service)
           else let (m, r) = write_proxy run (disabling service) service m in ((s, m), r)))"

subsection \<open>Reading the log\<close>

definition switched_name :: "upstream_addr option \<Rightarrow> string" where
  "switched_name addr = (case addr of Some addr \<Rightarrow> addr | None \<Rightarrow> ''none'')"

definition render_verdict :: "(time \<Rightarrow> string) \<Rightarrow> logged_verdict \<Rightarrow> string" where
  "render_verdict rfc3339 v =
     (let judged = (case lv_upstream v of Some addr \<Rightarrow> addr @ '' '' | None \<Rightarrow> []) in
      writeln (rfc3339 (lv_at v) @ ''  verdict '' @ judged @ health_name (lv_from v) @ '' -> ''
               @ health_name (lv_to v) @ ''  ('' @ cause_name (lv_cause v) @ '')''))"

definition render_switch :: "(time \<Rightarrow> string) \<Rightarrow> logged_switch \<Rightarrow> string" where
  "render_switch rfc3339 sw =
     writeln (rfc3339 (ls_at sw) @ ''  switch '' @ switched_name (ls_from sw) @ '' -> ''
              @ switched_name (ls_to sw) @ ''  ('' @ switch_cause_name (ls_cause sw) @ '')'')"

definition render_log :: "client \<Rightarrow> 'v json \<Rightarrow> string \<Rightarrow> string" where
  "render_log cx json line =
     (case read_logged json line of
        None \<Rightarrow> writeln line
      | Some (LoggedDecision d) \<Rightarrow> cx_rfc3339 cx (ld_at d) @ ''  '' @ render_event (ld_event d)
      | Some (LoggedVerdict v) \<Rightarrow> render_verdict (cx_rfc3339 cx) v
      | Some (LoggedSwitch sw) \<Rightarrow> render_switch (cx_rfc3339 cx) sw)"

text \<open>\<open>print_from\<close>, on the content of the file; no result where it cannot be read.\<close>

definition print_from ::
  "client \<Rightarrow> 'v json \<Rightarrow> window \<Rightarrow> output_form \<Rightarrow> string \<Rightarrow> nat \<Rightarrow> (string \<times> nat) option" where
  "print_from cx json window form content offset =
     map_option
       (\<lambda>(ls, next).
          (concat (map (\<lambda>line. case form of Json \<Rightarrow> writeln line | Human \<Rightarrow> render_log cx json line)
             (filter (window_holds json window) ls)), next))
       (read_from content offset)"

definition unreadable_log :: "path \<Rightarrow> ran" where
  "unreadable_log file = ran_with [] (complain (''cannot read '' @ file)) Failed"

text \<open>The kept files are printed whole, oldest first, up to the first that cannot be read.\<close>

fun print_kept ::
  "client \<Rightarrow> 'v json \<Rightarrow> window \<Rightarrow> output_form \<Rightarrow> (path \<times> string) list \<Rightarrow> (ran, string) res" where
  "print_kept cx json window form [] = Ok []"
| "print_kept cx json window form ((file, content) # kept) =
     (case print_from cx json window form content 0 of
        None \<Rightarrow> Err (unreadable_log file)
      | Some (out, _) \<Rightarrow>
          (case print_kept cx json window form kept of
             Inl r \<Rightarrow> Err (r\<lparr> rn_out := out @ rn_out r \<rparr>)
           | Inr later \<Rightarrow> Ok (out @ later)))"

text \<open>
  \<open>logs\<close> on the files of the state directory; following goes on with \<open>keep_reading\<close> of theory Logging
  from the offset returned.
\<close>

definition logs ::
  "client \<Rightarrow> 'v json \<Rightarrow> window \<Rightarrow> output_form \<Rightarrow> (io_error, (path \<times> string) list) res
     \<Rightarrow> ran \<times> (path \<times> nat) option" where
  "logs cx json window form files =
     (case files of
        Inl failure \<Rightarrow>
          (ran_with [] (complain (''cannot read the log directory: '' @ ie_text failure)) Missing, None)
      | Inr files \<Rightarrow>
          (if files = [] then
             (ran_with [] (complain (''no log file yet, run `nhop start` to write one at ''
                @ log_file (cx_paths cx))) Missing, None)
           else
             let (current, content) = last files in
             case print_kept cx json window form (butlast files) of
               Inl r \<Rightarrow> (r, None)
             | Inr out \<Rightarrow>
                 (case print_from cx json window form content 0 of
                    None \<Rightarrow> ((unreadable_log current)\<lparr> rn_out := out \<rparr>, None)
                  | Some (more_out, next) \<Rightarrow>
                      (ran_with (out @ more_out) [] Success, Some (current, next)))))"

subsection \<open>Following the decisions\<close>

text \<open>\<open>Decisions::next\<close> on the reads the socket brings: a blank line is passed over.\<close>

fun decisions_next ::
  "(string \<Rightarrow> (string, response) res) \<Rightarrow> (io_error, string) res list
     \<Rightarrow> (unreachable_daemon, response option) res \<times> (io_error, string) res list" where
  "decisions_next parse [] = (Ok None, [])"
| "decisions_next parse (received # later) =
     (case read_or_hangup (case received of Inr line \<Rightarrow> Ok (length line) | Inl e \<Rightarrow> Err e) of
        Inl failure \<Rightarrow> (Err failure, later)
      | Inr n \<Rightarrow>
          (case received of
             Inl e \<Rightarrow> (Ok None, later)
           | Inr line \<Rightarrow>
               if n = 0 then (Ok None, later)
               else if trim line = [] then decisions_next parse later
               else
                 (case parse (trim line) of
                    Inl failure \<Rightarrow> (Err (Malformed failure), later)
                  | Inr response \<Rightarrow> (Ok (Some response), later))))"

lemma decisions_next_shorter:
  "decisions_next parse reads = (Inr (Some response), later) \<Longrightarrow> length later < length reads"
proof (induction reads)
  case Nil
  then show ?case by simp
next
  case (Cons received reads)
  then show ?case
    by (cases received) (auto split: sum.splits if_splits dest: less_SucI)
qed

function follow_decisions ::
  "client \<Rightarrow> (string \<Rightarrow> (string, response) res) \<Rightarrow> output_form \<Rightarrow> (io_error, string) res list \<Rightarrow> ran" where
  "follow_decisions cx parse form reads =
     (case decisions_next parse reads of
        (Inl failure, later) \<Rightarrow> unanswered failure
      | (Inr None, later) \<Rightarrow> ran_with [] [] Success
      | (Inr (Some response), later) \<Rightarrow>
          (let r = render cx form response in
           case response of
             RespEvent e \<Rightarrow>
               (let next = follow_decisions cx parse form later
                in ran_with (rn_out r @ rn_out next) (rn_err r @ rn_err next) (rn_exit next))
           | _ \<Rightarrow> r))"
  by pat_completeness auto
termination
  by (relation "measure (\<lambda>(cx, parse, form, reads). length reads)")
    (auto dest: decisions_next_shorter [OF sym])

declare follow_decisions.simps [simp del]

end
