(* ===== verification/Verbs.thy ===== *)
theory Verbs
  imports Commands
begin

section \<open>From the words of a command to its run: \<open>dispatch\<close> of \<open>cli/mod.rs\<close>\<close>

text \<open>
  The verbs of the command line with their arguments read, and what each one runs.  The record
  \<open>shell\<close> is what a run finds around it: the environment, the daemon to ask, the machine's settings
  and the files of the log, now and at each later turn of \<open>logs -f\<close>.  The state of the daemon and of
  the settings is threaded through, so that a script is a sequence of runs.
\<close>

datatype subcommand =
    VerbStart
  | VerbRequire rule_kind rule_value
  | VerbPrefer rule_kind rule_value
  | VerbNever rule_kind rule_value
  | VerbUpstream upstream_addr "upstream_addr list"
  | VerbListen socket_addr socket_addr
  | VerbForward socket_addr cli_destination
  | VerbReload "path option"
  | VerbOn
  | VerbOff
  | VerbStatus bool
  | VerbRules bool
  | VerbTest cli_destination bool
  | VerbLogs bool "duration option" bool
  | VerbTail bool
  | VerbDoctor bool
  | VerbProxy proxy_action network_service

record ('s, 'm, 'v) shell =
  sh_client :: client
  sh_load_id :: "string option"
  sh_absolute :: "path \<Rightarrow> path option"
  sh_ask :: "'s asking"
  sh_daemon_run :: "'s \<Rightarrow> 's \<times> (start_failure, unit) res"
  sh_networksetup :: "'m networksetup"
  sh_euid :: nat
  sh_json :: "'v json"
  sh_earliest :: time
  sh_now :: time
  sh_files :: "(io_error, (path \<times> string) list) res"
  sh_later_files :: "snapshot list"
  sh_parse :: "string \<Rightarrow> (string, response) res"
  sh_connected :: "(io_error, unit) res"
  sh_sent :: "(io_error, unit) res"
  sh_stream :: "(io_error, string) res list"

text \<open>What a run printed and its exit code; a \<open>logs -f\<close> nobody has stopped yet has none.\<close>

record printed =
  pr_out :: string
  pr_err :: string
  pr_exit :: "exit option"

definition ended_run :: "ran \<Rightarrow> printed" where
  "ended_run r = \<lparr> pr_out = rn_out r, pr_err = rn_err r, pr_exit = Some (rn_exit r) \<rparr>"

definition add_rule_command :: "rule_class \<Rightarrow> rule_kind \<Rightarrow> rule_value \<Rightarrow> load_id option \<Rightarrow> command" where
  "add_rule_command class kind val load = AddRule class kind val load"

definition start_run :: "('s, 'm, 'v) shell \<Rightarrow> 's \<Rightarrow> 's \<times> ran" where
  "start_run sh s =
     (case sh_daemon_run sh s of
        (s, Inr _) \<Rightarrow> (s, ran_with [] [] Success)
      | (s, Inl failure) \<Rightarrow>
          (s, ran_with [] (complain (show_start_failure failure)) (exit_of_start failure)))"

text \<open>\<open>subscribe\<close>, and \<open>follow\<close> on the stream it opens.\<close>

definition subscribe_stream :: "('s, 'm, 'v) shell \<Rightarrow> (unreachable_daemon, unit) res" where
  "subscribe_stream sh =
     res_bind (client_connect (socket_file (cx_paths (sh_client sh))) (sh_connected sh)) (\<lambda>_.
       case sh_sent sh of Inl failure \<Rightarrow> Err (ClientIo failure) | Inr _ \<Rightarrow> Ok ())"

definition tail_run :: "('s, 'm, 'v) shell \<Rightarrow> output_form \<Rightarrow> ran" where
  "tail_run sh form =
     (case subscribe_stream sh of
        Inl failure \<Rightarrow> unanswered failure
      | Inr _ \<Rightarrow> follow_decisions (sh_client sh) (sh_parse sh) form (sh_stream sh))"

text \<open>Whether \<open>logs\<close> ends with the kept files or goes on reading.\<close>

datatype follow = FollowStop | FollowKeep

definition follow_of :: "bool \<Rightarrow> follow" where
  "follow_of keep = (if keep then FollowKeep else FollowStop)"

definition logs_run :: "('s, 'm, 'v) shell \<Rightarrow> follow \<Rightarrow> duration option \<Rightarrow> output_form \<Rightarrow> printed" where
  "logs_run sh follow since form =
     (let window = (case since of
                      Some back \<Rightarrow> reaching_back (sh_earliest sh) (sh_now sh) back
                    | None \<Rightarrow> WindowAll)
      in case logs (sh_client sh) (sh_json sh) window form (sh_files sh) of
           (r, None) \<Rightarrow> ended_run r
         | (r, Some at) \<Rightarrow>
             (case follow of
                FollowStop \<Rightarrow> ended_run r
              | FollowKeep \<Rightarrow>
               let (ls, ended) = keep_reading (window_holds (sh_json sh) window) at (sh_later_files sh);
                   more_out = concat (map (\<lambda>line.
                     case form of
                       Json \<Rightarrow> writeln line
                     | Human \<Rightarrow> render_log (sh_client sh) (sh_json sh) line) ls)
               in \<lparr> pr_out = rn_out r @ more_out, pr_err = rn_err r,
                    pr_exit = (case ended of Inl exit \<Rightarrow> Some exit | Inr _ \<Rightarrow> None) \<rparr>))"

definition dispatch :: "('s, 'm, 'v) shell \<Rightarrow> subcommand \<Rightarrow> 's \<times> 'm \<Rightarrow> ('s \<times> 'm) \<times> printed" where
  "dispatch sh verb sm =
     (let (s, m) = sm; cx = sh_client sh; load = load_of_env (sh_load_id sh);
          on_daemon = (\<lambda>(s, r). ((s, m), ended_run r));
          asking = (\<lambda>cmd form. on_daemon (ask_daemon cx (sh_ask sh) s cmd form))
      in case verb of
           VerbStart \<Rightarrow> on_daemon (start_run sh s)
         | VerbRequire kind val \<Rightarrow> asking (add_rule_command Require kind val load) Human
         | VerbPrefer kind val \<Rightarrow> asking (add_rule_command Prefer kind val load) Human
         | VerbNever kind val \<Rightarrow> asking (add_rule_command Never kind val load) Human
         | VerbUpstream addr fallbacks \<Rightarrow>
             on_daemon (set_upstreams cx (sh_ask sh) s (command_upstreams addr fallbacks load))
         | VerbListen http socks \<Rightarrow> asking (SetListen http socks load) Human
         | VerbForward addr dest \<Rightarrow>
             asking (AddForward addr (dn_host dest) (dn_port dest) load) Human
         | VerbReload path \<Rightarrow> asking (Reload (reload_path (sh_absolute sh) path)) Human
         | VerbOn \<Rightarrow> asking CmdOn Human
         | VerbOff \<Rightarrow> asking CmdOff Human
         | VerbStatus json \<Rightarrow> asking Status (output_of json)
         | VerbRules json \<Rightarrow> asking Rules (output_of json)
         | VerbTest dest json \<Rightarrow> asking (Test (dn_host dest) (dn_port dest)) (output_of json)
         | VerbLogs follow since json \<Rightarrow> (sm, logs_run sh (follow_of follow) since (output_of json))
         | VerbTail json \<Rightarrow> (sm, ended_run (tail_run sh (output_of json)))
         | VerbDoctor json \<Rightarrow> on_daemon (diagnose cx (sh_ask sh) s (output_of json))
         | VerbProxy action service \<Rightarrow>
             (let (sm, r) = proxy (sh_networksetup sh) (sh_euid sh) (sh_ask sh) action service sm
              in (sm, ended_run r)))"

text \<open>\<open>run\<close>, on what the argument parser made of the words.\<close>

datatype early_exit = HelpText string | UsageError string

definition cli_run ::
  "('s, 'm, 'v) shell \<Rightarrow> (early_exit, subcommand) res \<Rightarrow> 's \<times> 'm \<Rightarrow> ('s \<times> 'm) \<times> printed" where
  "cli_run sh parsed sm =
     (case parsed of
        Inl (HelpText text) \<Rightarrow> (sm, ended_run (ran_with (writeln text) [] Success))
      | Inl (UsageError text) \<Rightarrow> (sm, ended_run (ran_with [] (writeln text) ExitInvalidArgs))
      | Inr verb \<Rightarrow> dispatch sh verb sm)"

end
