(* ===== verification/Entry.thy ===== *)
theory Entry
  imports Verbs
begin

section \<open>From the process to the command line: \<open>main.rs\<close> and the log it sets up\<close>

text \<open>
  How the process finds its files, what it does when it cannot, and how a daemon sets up its log
  before anything else.  Creating directories, building the rolling appender and installing the
  subscriber are the operating system's and the libraries', each a parameter that may fail.
\<close>

subsection \<open>Locations\<close>

definition home_not_found :: string where "home_not_found = ''cannot determine the home directory''"

definition paths_from_env :: "path option \<Rightarrow> (string, paths) res" where
  "paths_from_env home = (case home of None \<Rightarrow> Err home_not_found | Some h \<Rightarrow> Ok (paths_from_home h))"

text \<open>\<open>state_dir\<close>: the directory, created with mode 0700 where it is missing.\<close>

definition state_dir :: "(path \<Rightarrow> nat \<Rightarrow> io_error option) \<Rightarrow> paths \<Rightarrow> (io_error, path) res" where
  "state_dir create ps =
     (case create (ps_state_dir ps) 448 of
        Some failure \<Rightarrow> Err failure
      | None \<Rightarrow> Ok (ps_state_dir ps))"

text \<open>\<open>Path::file_name\<close>: the last component, unless it is the root or a parent.\<close>

definition file_name :: "path \<Rightarrow> string option" where
  "file_name path =
     (let parts = filter (\<lambda>p. p \<noteq> [] \<and> p \<noteq> ''.'') (split_char (CHR ''/'') path) in
      if parts = [] \<or> last parts = ''..'' then None else Some (last parts))"

subsection \<open>The log\<close>

definition KEPT_FILES :: nat where "KEPT_FILES = 7"
definition FILTER :: string where "FILTER = ''nhop=info''"

definition log_prefix :: "paths \<Rightarrow> string" where
  "log_prefix ps = (case file_name (log_file ps) of None \<Rightarrow> [] | Some name \<Rightarrow> name)"

text \<open>What the appender and the subscriber over it are built with.\<close>

record log_setup =
  lo_dir :: path
  lo_prefix :: string
  lo_kept :: nat
  lo_filter :: string

definition log_subscriber ::
  "(path \<Rightarrow> nat \<Rightarrow> io_error option) \<Rightarrow> (log_setup \<Rightarrow> string option) \<Rightarrow> paths \<Rightarrow> (io_error, log_setup) res" where
  "log_subscriber create build ps =
     res_bind (state_dir create ps) (\<lambda>dir.
       let setup = \<lparr> lo_dir = dir, lo_prefix = log_prefix ps, lo_kept = KEPT_FILES, lo_filter = FILTER \<rparr>
       in case build setup of
            Some failure \<Rightarrow> Err (io_other failure)
          | None \<Rightarrow> Ok setup)"

definition log_start ::
  "(path \<Rightarrow> nat \<Rightarrow> io_error option) \<Rightarrow> (log_setup \<Rightarrow> string option) \<Rightarrow> (log_setup \<Rightarrow> string option) \<Rightarrow> paths
     \<Rightarrow> (io_error, log_setup) res" where
  "log_start create build install ps =
     res_bind (log_subscriber create build ps) (\<lambda>setup.
       case install setup of
         Some failure \<Rightarrow> Err (io_other failure)
       | None \<Rightarrow> Ok setup)"

text \<open>The file a day's records go to: the prefix and the date behind a dot.\<close>

definition rolled_name :: "log_setup \<Rightarrow> string \<Rightarrow> string" where
  "rolled_name setup date = lo_prefix setup @ ''.'' @ date"

lemma split_char_no: "c \<notin> set s \<Longrightarrow> split_char c s = [s]"
  by (induction s) auto

lemma split_char_not_Nil [simp]: "split_char c s \<noteq> []"
  by (induction s) (auto split: list.split)

lemma split_char_append: "split_char c (a @ c # b) = split_char c a @ split_char c b"
  by (induction a) (auto split: list.split)

lemma file_name_behind:
  assumes "CHR ''/'' \<notin> set name" and "name \<notin> {[], ''.'', ''..''}"
  shows "file_name (dir @ CHR ''/'' # name) = Some name" and "file_name name = Some name"
  using assms by (simp_all add: file_name_def split_char_append split_char_no Let_def)

text \<open>Wherever the state directory is, the log is \<open>nhop.log\<close> in it.\<close>

lemma log_prefix_eq: "log_prefix ps = ''nhop.log''"
proof -
  consider "ps_state_dir ps = []" | dir where "ps_state_dir ps = dir @ [CHR ''/'']"
    | "ps_state_dir ps \<noteq> []" "\<not> suffix ''/'' (ps_state_dir ps)"
    by (auto simp: suffix_def)
  then show ?thesis
    by cases (simp_all add: log_prefix_def log_file_def path_join_def suffix_def file_name_behind)
qed

text \<open>Every file the appender writes is among the files the log is read from.\<close>

lemma rolled_found:
  assumes "log_start create build install ps = Ok setup" and "utf8 (rolled_name setup date)"
    and "rolled_name setup date \<in> set entries"
  shows "rolled_name setup date \<in> set (log_files (log_prefix ps) entries)"
proof -
  have "lo_prefix setup = log_prefix ps"
    using assms(1) by (auto simp: log_start_def log_subscriber_def res_bind_Inr_iff Let_def
        split: option.splits)
  with assms(2,3) show ?thesis by (simp add: log_files_def rolled_name_def)
qed

subsection \<open>\<open>main\<close>\<close>

text \<open>\<open>main\<close>: the locations, the run of the command line, and the code the process ends with.\<close>

definition INTERNAL_EXIT :: nat where "INTERNAL_EXIT = 1"

record process_end =
  pe_out :: string
  pe_err :: string
  pe_code :: "nat option"

definition main_run ::
  "path option \<Rightarrow> (paths \<Rightarrow> ('s, 'm, 'v) shell) \<Rightarrow> (early_exit, subcommand) res \<Rightarrow> 's \<times> 'm
     \<Rightarrow> ('s \<times> 'm) \<times> process_end" where
  "main_run home shell_of parsed sm =
     (case paths_from_env home of
        Inl failure \<Rightarrow>
          (sm, \<lparr> pe_out = [], pe_err = writeln (''nhop: '' @ failure), pe_code = Some INTERNAL_EXIT \<rparr>)
      | Inr ps \<Rightarrow>
          (let (sm, p) = cli_run (shell_of ps) parsed sm in
           (sm, \<lparr> pe_out = pr_out p, pe_err = pr_err p, pe_code = map_option exit_code (pr_exit p) \<rparr>)))"

text \<open>Without a home directory nothing is run; with one, the code tells the five ways a run ends apart.\<close>

lemma main_run_homeless:
  "main_run None shell_of parsed sm =
     (sm, \<lparr> pe_out = [], pe_err = ''nhop: cannot determine the home directory'' @ [LF], pe_code = Some 1 \<rparr>)"
  by (simp add: main_run_def paths_from_env_def home_not_found_def writeln_def INTERNAL_EXIT_def)

lemma exit_code_inj: "exit_code a = exit_code b \<Longrightarrow> a = b"
  by (cases a; cases b) simp_all

end
