(* ===== verification/Rotation.thy ===== *)
theory Rotation
  imports Entry
begin

section \<open>Rotated log files in the order of their days\<close>

text \<open>
  \<open>logging::files\<close> sorts the names of the kept files and calls the result chronological.  The appender
  names the file of a day by the prefix and the date, written as \<open>YYYY-MM-DD\<close> in digits of fixed
  width; comparing such names byte by byte compares the days.
\<close>

subsection \<open>Numbers of fixed width\<close>

definition digit :: "nat \<Rightarrow> char" where "digit n = char_of (48 + n mod 10)"

fun digits :: "nat \<Rightarrow> nat \<Rightarrow> string" where
  "digits 0 n = []"
| "digits (Suc k) n = digits k (n div 10) @ [digit n]"

lemma digits_length [simp]: "length (digits k n) = k"
  by (induction k arbitrary: n) auto

lemma digit_less: "digit m < digit n \<longleftrightarrow> m mod 10 < n mod 10"
  by (simp add: digit_def less_char_def)

lemma digit_eq: "digit m = digit n \<longleftrightarrow> m mod 10 = n mod 10"
proof -
  have "digit m = digit n \<longleftrightarrow> \<not> digit m < digit n \<and> \<not> digit n < digit m" by auto
  then show ?thesis by (auto simp: digit_less)
qed

lemma digit_ascii: "byte_in 0 127 (digit n)"
  by (simp add: byte_in_def digit_def)

text \<open>Lists of one length in front of what is compared next.\<close>

lemma lex_append:
  "length xs = length ys \<Longrightarrow> xs @ us < ys @ vs \<longleftrightarrow> xs < ys \<or> xs = ys \<and> us < (vs :: string)"
  by (induction xs ys rule: list_induct2) auto

lemma lex_prefix: "xs @ us < xs @ vs \<longleftrightarrow> us < (vs :: string)"
  by (induction xs) auto

lemma div_mod_less: "(m::nat) < n \<longleftrightarrow> m div 10 < n div 10 \<or> m div 10 = n div 10 \<and> m mod 10 < n mod 10"
proof -
  have "(10 * a + b < 10 * c + d) = (a < c \<or> a = c \<and> b < d)" if "b < 10" "d < 10" for a b c d :: nat
    using that by auto
  from this [of "m mod 10" "n mod 10" "m div 10" "n div 10"] show ?thesis by simp
qed

lemma div_mod_eq: "(m::nat) = n \<longleftrightarrow> m div 10 = n div 10 \<and> m mod 10 = n mod 10"
  by (metis div_mult_mod_eq)

lemma digits_less_eq:
  "m < 10 ^ k \<Longrightarrow> n < 10 ^ k \<Longrightarrow> (digits k m < digits k n \<longleftrightarrow> m < n) \<and> (digits k m = digits k n \<longleftrightarrow> m = n)"
proof (induction k arbitrary: m n)
  case (Suc k)
  then have "m div 10 < 10 ^ k" "n div 10 < 10 ^ k" by (simp_all add: less_mult_imp_div_less)
  with Suc.IH [of "m div 10" "n div 10"] show ?case
    by (simp add: lex_append digit_less digit_eq div_mod_less [of m n] div_mod_eq [of m n])
qed simp

subsection \<open>Days\<close>

datatype log_day = Day nat nat nat

instantiation log_day :: linorder
begin

fun less_eq_log_day :: "log_day \<Rightarrow> log_day \<Rightarrow> bool" where
  "less_eq_log_day (Day y m d) (Day y' m' d') \<longleftrightarrow> y < y' \<or> y = y' \<and> (m < m' \<or> m = m' \<and> d \<le> d')"

definition less_log_day :: "log_day \<Rightarrow> log_day \<Rightarrow> bool" where
  "less_log_day a b \<longleftrightarrow> a \<le> b \<and> a \<noteq> b"

instance
proof
  fix a b c :: log_day
  show "a < b \<longleftrightarrow> a \<le> b \<and> \<not> b \<le> a" by (cases a; cases b) (auto simp: less_log_day_def)
  show "a \<le> a" by (cases a) simp
  show "a \<le> b \<Longrightarrow> b \<le> c \<Longrightarrow> a \<le> c" by (cases a; cases b; cases c) auto
  show "a \<le> b \<Longrightarrow> b \<le> a \<Longrightarrow> a = b" by (cases a; cases b) auto
  show "a \<le> b \<or> b \<le> a" by (cases a; cases b) auto
qed

end

lemma less_day [simp]:
  "Day y m d < Day y' m' d' \<longleftrightarrow> y < y' \<or> y = y' \<and> (m < m' \<or> m = m' \<and> d < d')"
  by (auto simp: less_log_day_def)

fun on_calendar :: "log_day \<Rightarrow> bool" where
  "on_calendar (Day y m d) \<longleftrightarrow> y \<le> 9999 \<and> m \<in> {1..12} \<and> d \<in> {1..31}"

fun day_text :: "log_day \<Rightarrow> string" where
  "day_text (Day y m d) = digits 4 y @ ''-'' @ digits 2 m @ ''-'' @ digits 2 d"

lemma day_text_less:
  assumes "on_calendar a" and "on_calendar b"
  shows "day_text a < day_text b \<longleftrightarrow> a < b" and "day_text a = day_text b \<longleftrightarrow> a = b"
proof -
  obtain y m d where a: "a = Day y m d" by (cases a)
  obtain y' m' d' where b: "b = Day y' m' d'" by (cases b)
  have "y < 10 ^ 4" "y' < 10 ^ 4" "m < 10 ^ 2" "m' < 10 ^ 2" "d < 10 ^ 2" "d' < 10 ^ 2"
    using assms by (auto simp: a b)
  with digits_less_eq [of y 4 y'] digits_less_eq [of m 2 m'] digits_less_eq [of d 2 d']
  show "day_text a < day_text b \<longleftrightarrow> a < b" "day_text a = day_text b \<longleftrightarrow> a = b"
    by (auto simp: a b lex_append lex_prefix simp del: digits.simps)
qed

lemma day_text_ascii: "c \<in> set (day_text a) \<Longrightarrow> byte_in 0 127 c"
proof -
  have "byte_in 0 127 c" if "c \<in> set (digits k n)" for k n
    using that by (induction k arbitrary: n) (auto simp: digit_ascii)
  then show "c \<in> set (day_text a) \<Longrightarrow> byte_in 0 127 c"
    by (cases a) (auto simp: byte_in_def simp del: digits.simps)
qed

subsection \<open>The kept files\<close>

text \<open>The file the appender writes on a day.\<close>

definition day_file :: "log_setup \<Rightarrow> log_day \<Rightarrow> string" where
  "day_file setup day = rolled_name setup (day_text day)"

lemma day_file_le:
  "on_calendar a \<Longrightarrow> on_calendar b \<Longrightarrow> day_file setup a \<le> day_file setup b \<longleftrightarrow> a \<le> b"
  using day_text_less [of a b]
  by (simp add: day_file_def rolled_name_def order_le_less lex_prefix)

text \<open>
  Where the names that begin as the log's are those of days, in whatever order the directory lists
  them, the files come back by day, so \<open>nhop logs\<close> prints the oldest first and \<open>logs -f\<close> goes on with
  the newest.
\<close>

theorem log_files_by_day:
  assumes "filter (\<lambda>entry. utf8 entry \<and> prefix (log_prefix ps) entry) entries = map (day_file setup) days"
    and "\<forall>day \<in> set days. on_calendar day"
  shows "log_files (log_prefix ps) entries = map (day_file setup) (sort days)"
proof -
  have "sorted (map (day_file setup) (sort days))"
    using assms(2) day_file_le by (auto simp: sorted_map intro!: sorted_wrt_mono_rel [OF _ sorted_sort])
  then have "map (day_file setup) (sort days) = sort (map (day_file setup) days)"
    by (intro properties_for_sort [symmetric]) simp_all
  with assms(1) show ?thesis by (simp add: log_files_def)
qed

lemma Max_sorted_last: "sorted xs \<Longrightarrow> xs \<noteq> [] \<Longrightarrow> Max (set xs) = last (xs :: 'a::linorder list)"
proof (rule Max_eqI)
  fix x assume "sorted xs" "xs \<noteq> []" "x \<in> set xs"
  then show "x \<le> last xs" by (induction xs rule: rev_induct) (auto simp: sorted_append)
qed simp_all

corollary newest_file_is_last:
  assumes "filter (\<lambda>entry. utf8 entry \<and> prefix (log_prefix ps) entry) entries = map (day_file setup) days"
    and "\<forall>day \<in> set days. on_calendar day" and "days \<noteq> []"
  shows "last (log_files (log_prefix ps) entries) = day_file setup (Max (set days))"
proof -
  have "sort days \<noteq> []" using assms(3) by (metis length_0_conv length_sort)
  then have "Max (set days) = last (sort days)" using Max_sorted_last [of "sort days"] by simp
  with \<open>sort days \<noteq> []\<close> show ?thesis using log_files_by_day [OF assms(1,2)] by (simp add: last_map)
qed

end
