(* ===== verification/Scripts.thy ===== *)
theory Scripts
  imports Verbs
begin

section \<open>An init script as a sequence of \<open>nhop\<close> runs\<close>

text \<open>
  The whole path of a declaration: the words of a verb in a script, the load it finds in its
  environment, the command on the socket, the staging of the daemon, and the exit code the script
  sees.  Between two verbs of the script other clients may ask the daemon anything.
\<close>

subsection \<open>Asking the daemon of theory Daemon\<close>

text \<open>The answer of a command the state task answers by itself, on a connection that stays open.\<close>

definition answer_in :: "effect list \<Rightarrow> (unreachable_daemon, response) res" where
  "answer_in effects = (case effects of [Answer reply response] \<Rightarrow> Ok response | _ \<Rightarrow> Err HungUp)"

definition daemon_ask :: "'net env \<Rightarrow> clock \<Rightarrow> 'net daemon asking" where
  "daemon_ask env ck st cmd = (let (st, effects) = handle env ck st cmd 0 in (st, answer_in effects))"

text \<open>
  A daemon older than fallbacks reads a list of upstreams as a malformed line, and everything else
  as today's daemon does.
\<close>

definition older_ask :: "string \<Rightarrow> 'net env \<Rightarrow> clock \<Rightarrow> 'net daemon asking" where
  "older_ask message env ck st cmd =
     (case cmd of
        SetUpstreams addr fallbacks load \<Rightarrow> (st, Ok (RespErr InvalidArgs message))
      | _ \<Rightarrow> daemon_ask env ck st cmd)"

lemma daemon_ask_staged:
  assumes "dm_load st = Some f" and "load_of_command cmd = Some (if_id f)"
  obtains response where
    "daemon_ask env ck st cmd =
       (st\<lparr> dm_load := Some (f\<lparr> if_staged := stage_command (en_ipnet env) (if_staged f) cmd \<rparr>) \<rparr>,
        Ok response)"
    and "response = RespOk \<and> sg_failed (stage_command (en_ipnet env) (if_staged f) cmd) = sg_failed (if_staged f)
      \<or> (\<exists>kind m. response = RespErr kind m)
        \<and> sg_failed (stage_command (en_ipnet env) (if_staged f) cmd) \<noteq> None"
proof -
  note target = target_in_flight(1) [OF assms(1), of "load_of_command cmd", OF assms(2)]
  obtain response where
    "handle env ck st cmd 0 =
       (st\<lparr> dm_load := Some (f\<lparr> if_staged := stage_command (en_ipnet env) (if_staged f) cmd \<rparr>) \<rparr>,
        [Answer 0 response])
    \<and> (response = RespOk \<and> sg_failed (stage_command (en_ipnet env) (if_staged f) cmd) = sg_failed (if_staged f)
      \<or> (\<exists>kind m. response = RespErr kind m)
        \<and> sg_failed (stage_command (en_ipnet env) (if_staged f) cmd) \<noteq> None)"
  proof (cases cmd)
    case (AddRule c k v l)
    with target that show ?thesis
      by (cases "matcher_parse (en_ipnet env) k v")
        (simp_all add: add_rule_def staged_in_flight [OF assms(1)] replied_def answering_def
          staging_push_rule_eq invalid_def split: option.split)
  next
    case (SetUpstream a l)
    with target that show ?thesis
      by (cases "upstreams_parse a []")
        (simp_all add: set_upstream_def staged_in_flight [OF assms(1)] replied_def answering_def
          staging_set_upstream_def unreadable_def split: option.split)
  next
    case (SetUpstreams a fs l)
    with target that show ?thesis
      by (cases "upstreams_parse a fs")
        (simp_all add: set_upstream_def staged_in_flight [OF assms(1)] replied_def answering_def
          staging_set_upstream_def unreadable_def Let_def split: option.split)
  next
    case (AddForward a h p l)
    with target that show ?thesis
      by (simp add: add_forward_def staged_in_flight [OF assms(1)] replied_def answering_def
          staging_push_forward_eq duplicate_def split: option.split if_split)
  next
    case (ClearRules l)
    with target that show ?thesis
      by (simp add: clear_rules_def replied_def staged_in_flight [OF assms(1)] staging_clear_rules_def)
  next
    case (SetListen h k l)
    with target that show ?thesis
      by (simp add: set_listen_def replied_def staged_in_flight [OF assms(1)] staging_set_listen_def)
  qed (use assms(2) in simp_all)
  with that [of response] show thesis by (simp add: daemon_ask_def answer_in_def)
qed

subsection \<open>The verbs of a script\<close>

text \<open>The environment of theory InitScript: every verb finds the identifier of its run.\<close>

definition script_shell ::
  "('net daemon, 'm, 'v) shell \<Rightarrow> 'net env \<Rightarrow> clock \<Rightarrow> load_id \<Rightarrow> ('net daemon, 'm, 'v) shell" where
  "script_shell sh env ck load =
     sh\<lparr> sh_ask := daemon_ask env ck, sh_load_id := Some (show_load_id load) \<rparr>"

fun declared_command :: "load_id option \<Rightarrow> subcommand \<Rightarrow> command option" where
  "declared_command load (VerbRequire kind val) = Some (AddRule Require kind val load)"
| "declared_command load (VerbPrefer kind val) = Some (AddRule Prefer kind val load)"
| "declared_command load (VerbNever kind val) = Some (AddRule Never kind val load)"
| "declared_command load (VerbUpstream addr fallbacks) =
     Some (if fallbacks = [] then SetUpstream addr load else SetUpstreams addr fallbacks load)"
| "declared_command load (VerbListen http socks) = Some (SetListen http socks load)"
| "declared_command load (VerbForward addr dest) =
     Some (AddForward addr (dn_host dest) (dn_port dest) load)"
| "declared_command load _ = None"

lemma declared_command_load: "declared_command load verb = Some cmd \<Longrightarrow> load_of_command cmd = load"
  by (cases verb) (auto split: if_splits)

lemma render_exit:
  "rn_exit (render cx form RespOk) = Success"
  "rn_exit (render cx form (RespErr kind m)) \<noteq> Success"
  by (cases kind; simp add: render_def ran_with_def)+

lemma unreadable_upstream_refused: "\<exists>e. upstreams_parse UNREADABLE_UPSTREAM [] = Inl e"
proof -
  have "(case upstreams_parse UNREADABLE_UPSTREAM [] of Inl e \<Rightarrow> True | Inr us \<Rightarrow> False)" by code_simp
  then show ?thesis by (simp split: sum.splits)
qed

lemma stage_unreadable:
  "stage_command ipnet s (command_unreadable_upstream load) = staging_fail s FailedSetUpstream"
  using unreadable_upstream_refused
  by (auto simp: command_unreadable_upstream_def staging_set_upstream_def)

lemma staging_fail_again: "sg_failed s \<noteq> None \<Longrightarrow> staging_fail s c = s"
  by (auto simp: staging_fail_def)

subsection \<open>The contract of a daemon a script declares to\<close>

text \<open>
  What the client of a load relies on: \<open>staging s load\<close> says that the run is in flight, \<open>stage\<close> what a
  command of the run leaves, and \<open>marked\<close> that the run will not be committed.  A command of the run is
  answered, with \<open>Ok\<close> where it leaves the mark alone and with an error where it marks the run.
\<close>

locale load_server =
  fixes ask :: "'s asking"
    and staging :: "'s \<Rightarrow> load_id \<Rightarrow> bool"
    and marked :: "'s \<Rightarrow> bool"
    and stage :: "'s \<Rightarrow> command \<Rightarrow> 's"
  assumes ask_stages:
      "staging s load \<Longrightarrow> load_of_command cmd = Some load \<Longrightarrow>
         ask s cmd = (stage s cmd, Ok RespOk) \<and> marked (stage s cmd) = marked s
         \<or> (\<exists>kind m. ask s cmd = (stage s cmd, Ok (RespErr kind m))) \<and> marked (stage s cmd)"
    and stage_in_flight:
      "staging s load \<Longrightarrow> load_of_command cmd = Some load \<Longrightarrow> staging (stage s cmd) load"
    and stage_marked:
      "staging s load \<Longrightarrow> marked s \<Longrightarrow> stage s (command_unreadable_upstream load) = s"
begin

definition tells :: "exit \<Rightarrow> 's \<Rightarrow> 's \<Rightarrow> bool" where
  "tells exit s s' \<longleftrightarrow> (if exit = Success then marked s' = marked s else marked s')"

lemma ask_daemon_tells:
  assumes "staging s load" and "load_of_command cmd = Some load"
  shows "\<exists>r. ask_daemon cx ask s cmd form = (stage s cmd, r) \<and> tells (rn_exit r) s (stage s cmd)"
  using ask_stages [OF assms] by (auto simp: ask_daemon_def render_exit tells_def)

lemma unreadable_keeps:
  assumes "staging s load" and "marked s"
  shows "fst (ask s (command_unreadable_upstream load)) = s"
  using ask_stages [OF assms(1), of "command_unreadable_upstream load"] stage_marked [OF assms]
  by (auto simp: command_unreadable_upstream_def)

lemma set_upstreams_plain:
  assumes "load_of_command cmd = Some load"
    and "snd (ask s cmd) = Ok response" and "\<And>m. response \<noteq> RespErr InvalidArgs m"
  shows "set_upstreams cx ask s cmd = ask_daemon cx ask s cmd Human"
  using assms
  by (cases "ask s cmd"; cases cmd)
    (auto simp: set_upstreams_def ask_daemon_def split: response.split err_kind.split)

lemma set_upstreams_tells:
  assumes "staging s load" and "load_of_command cmd = Some load"
  shows "\<exists>r. set_upstreams cx ask s cmd = (stage s cmd, r) \<and> tells (rn_exit r) s (stage s cmd)"
proof -
  from ask_stages [OF assms] consider
      "ask s cmd = (stage s cmd, Ok RespOk)"
    | kind m where "ask s cmd = (stage s cmd, Ok (RespErr kind m))" "marked (stage s cmd)" by blast
  then show ?thesis
  proof cases
    case 1
    then have "set_upstreams cx ask s cmd = ask_daemon cx ask s cmd Human"
      using set_upstreams_plain [OF assms(2), of s RespOk cx] by simp
    with ask_daemon_tells [OF assms] show ?thesis by simp
  next
    case (2 kind m)
    note keeps = unreadable_keeps [OF stage_in_flight [OF assms] 2(2)]
    have "set_upstreams cx ask s cmd = (stage s cmd, render cx Human (RespErr kind m))"
      using 2(1) keeps assms(2)
      by (cases cmd; cases kind) (auto simp: set_upstreams_def ask_daemon_def)
    with 2(2) show ?thesis by (simp add: tells_def render_exit)
  qed
qed

end

text \<open>The state task of theory Daemon keeps the contract.\<close>

definition in_flight_as :: "'net daemon \<Rightarrow> load_id \<Rightarrow> bool" where
  "in_flight_as st load \<longleftrightarrow> map_option if_id (dm_load st) = Some load"

definition run_marked :: "'net daemon \<Rightarrow> bool" where
  "run_marked st \<longleftrightarrow> Option.bind (dm_load st) (\<lambda>f. sg_failed (if_staged f)) \<noteq> None"

definition stage_in :: "'net env \<Rightarrow> 'net daemon \<Rightarrow> command \<Rightarrow> 'net daemon" where
  "stage_in env st cmd =
     (case dm_load st of
        None \<Rightarrow> st
      | Some f \<Rightarrow>
          st\<lparr> dm_load := Some (f\<lparr> if_staged := stage_command (en_ipnet env) (if_staged f) cmd \<rparr>) \<rparr>)"

lemma stage_in_Some:
  "dm_load st = Some f \<Longrightarrow>
     stage_in env st cmd =
       st\<lparr> dm_load := Some (f\<lparr> if_staged := stage_command (en_ipnet env) (if_staged f) cmd \<rparr>) \<rparr>"
  by (simp add: stage_in_def)

lemma daemon_ask_stages:
  assumes "in_flight_as st load" and "load_of_command cmd = Some load"
  shows "daemon_ask env ck st cmd = (stage_in env st cmd, Ok RespOk)
      \<and> run_marked (stage_in env st cmd) = run_marked st
    \<or> (\<exists>kind m. daemon_ask env ck st cmd = (stage_in env st cmd, Ok (RespErr kind m)))
      \<and> run_marked (stage_in env st cmd)"
proof -
  from assms obtain f where f: "dm_load st = Some f" "load_of_command cmd = Some (if_id f)"
    by (auto simp: in_flight_as_def)
  from f obtain response where
    "daemon_ask env ck st cmd = (stage_in env st cmd, Ok response)"
    and "response = RespOk \<and> sg_failed (stage_command (en_ipnet env) (if_staged f) cmd) = sg_failed (if_staged f)
      \<or> (\<exists>kind m. response = RespErr kind m)
        \<and> sg_failed (stage_command (en_ipnet env) (if_staged f) cmd) \<noteq> None"
    unfolding stage_in_Some [OF f(1)] by (rule daemon_ask_staged)
  then show ?thesis by (auto simp: run_marked_def stage_in_Some [OF f(1)] f(1))
qed

interpretation served: load_server "daemon_ask env ck" in_flight_as run_marked "stage_in env"
proof
  fix s :: "'a daemon" and load cmd
  assume flight: "in_flight_as s load" and own: "load_of_command cmd = Some load"
  show "daemon_ask env ck s cmd = (stage_in env s cmd, Ok RespOk)
      \<and> run_marked (stage_in env s cmd) = run_marked s
    \<or> (\<exists>kind m. daemon_ask env ck s cmd = (stage_in env s cmd, Ok (RespErr kind m)))
      \<and> run_marked (stage_in env s cmd)"
    using flight own by (rule daemon_ask_stages)
  show "in_flight_as (stage_in env s cmd) load"
    using flight by (auto simp: in_flight_as_def stage_in_def)
next
  fix s :: "'a daemon" and load
  assume "in_flight_as s load" and "run_marked s"
  then show "stage_in env s (command_unreadable_upstream load) = s"
    by (auto simp: in_flight_as_def run_marked_def stage_in_def stage_unreadable staging_fail_again
        split: bind_splits)
qed

lemma dispatch_declared:
  assumes "dm_load st = Some f" and "if_id f \<le> u64_max"
    and "declared_command (Some (if_id f)) verb = Some cmd"
  obtains p where
    "dispatch (script_shell sh env ck (if_id f)) verb (st, m) =
       ((st\<lparr> dm_load := Some (f\<lparr> if_staged := stage_command (en_ipnet env) (if_staged f) cmd \<rparr>) \<rparr>, m), p)"
    and "pr_exit p = Some Success
        \<and> (sg_failed (stage_command (en_ipnet env) (if_staged f) cmd) = None \<longleftrightarrow> sg_failed (if_staged f) = None)
      \<or> pr_exit p \<noteq> Some Success
        \<and> sg_failed (stage_command (en_ipnet env) (if_staged f) cmd) \<noteq> None"
proof -
  let ?sh = "script_shell sh env ck (if_id f)"
  have load: "load_of_env (Some (show_load_id (if_id f))) = Some (if_id f)"
    using assms(2) by (simp add: load_of_env_def load_of_def parse_load_id_show)
  have own: "load_of_command cmd = Some (if_id f)"
    using assms(3) by (rule declared_command_load)
  have flight: "in_flight_as st (if_id f)" by (simp add: in_flight_as_def assms(1))
  obtain r where asked: "ask_daemon (sh_client sh) (daemon_ask env ck) st cmd Human = (stage_in env st cmd, r)"
    and r: "served.tells (rn_exit r) st (stage_in env st cmd)"
    using served.ask_daemon_tells [OF flight own] by blast
  obtain r' where listed: "set_upstreams (sh_client sh) (daemon_ask env ck) st cmd = (stage_in env st cmd, r')"
    and r': "served.tells (rn_exit r') st (stage_in env st cmd)"
    using served.set_upstreams_tells [OF flight own] by blast
  have "dispatch ?sh verb (st, m) =
      ((stage_in env st cmd, m), ended_run (case verb of VerbUpstream addr fallbacks \<Rightarrow> r' | _ \<Rightarrow> r))"
    using assms(3) asked listed
    by (cases verb)
      (simp_all add: dispatch_def script_shell_def load add_rule_command_def command_upstreams_def)
  moreover have "served.tells (rn_exit (case verb of VerbUpstream addr fallbacks \<Rightarrow> r' | _ \<Rightarrow> r)) st
      (stage_in env st cmd)"
    using r r' by (cases verb) simp_all
  ultimately show thesis
    using that by (auto simp: ended_run_def served.tells_def run_marked_def stage_in_Some [OF assms(1)]
        assms(1) split: if_splits)
qed

subsection \<open>A script and everyone else\<close>

datatype script_event = ScriptVerb clock subcommand | OtherRequest clock command nat

text \<open>Verbs of the script in order, with the requests of other clients wherever they fall.\<close>

fun run_script ::
  "('net daemon, 'm, 'v) shell \<Rightarrow> 'net env \<Rightarrow> load_id \<Rightarrow> 'net daemon \<times> 'm \<Rightarrow> script_event list
     \<Rightarrow> ('net daemon \<times> 'm) \<times> exit option list" where
  "run_script sh env load sm [] = (sm, [])"
| "run_script sh env load sm (ScriptVerb ck verb # evs) =
     (let (sm, p) = dispatch (script_shell sh env ck load) verb sm;
          (sm, exits) = run_script sh env load sm evs
      in (sm, pr_exit p # exits))"
| "run_script sh env load sm (OtherRequest ck cmd reply # evs) =
     (let (st, m) = sm in run_script sh env load (fst (handle env ck st cmd reply), m) evs)"

text \<open>What the script declares, and that nobody else declares anything in its name.\<close>

definition script_commands :: "load_id \<Rightarrow> script_event list \<Rightarrow> command list" where
  "script_commands load evs =
     List.map_filter
       (\<lambda>ev. case ev of ScriptVerb ck verb \<Rightarrow> declared_command (Some load) verb
                       | OtherRequest ck cmd reply \<Rightarrow> None) evs"

definition only_declares :: "load_id \<Rightarrow> script_event \<Rightarrow> bool" where
  "only_declares load ev =
     (case ev of
        ScriptVerb ck verb \<Rightarrow> declared_command (Some load) verb \<noteq> None
      | OtherRequest ck cmd reply \<Rightarrow> load_of_command cmd \<noteq> Some load)"

text \<open>The exit codes against the marks of the staging.\<close>

definition exits_tell :: "exit option list \<Rightarrow> 'net staging \<Rightarrow> 'net staging \<Rightarrow> bool" where
  "exits_tell exits before after \<longleftrightarrow>
     (if list_all (\<lambda>e. e = Some Success) exits then sg_failed after = None \<longleftrightarrow> sg_failed before = None
      else sg_failed after \<noteq> None)"

lemma staging_fail_stays:
  "sg_failed s \<noteq> None \<Longrightarrow> sg_failed (stage_command ipnet s cmd) = sg_failed s"
  by (cases cmd)
    (auto simp: staging_push_rule_eq staging_clear_rules_def staging_set_upstream_def
      staging_set_listen_def staging_push_forward_eq Let_def split: sum.split)

lemma staging_fail_stays_all:
  "sg_failed s \<noteq> None \<Longrightarrow> sg_failed (foldl (stage_command ipnet) s cmds) = sg_failed s"
  by (induction cmds arbitrary: s) (simp_all add: staging_fail_stays del: not_None_eq)

lemma run_script_staged:
  assumes "list_all (only_declares (if_id f)) evs" and "if_id f \<le> u64_max" and "dm_load st = Some f"
  shows "\<exists>exits.
    run_script sh env (if_id f) (st, m) evs =
      ((st\<lparr> dm_load := Some (f\<lparr> if_staged :=
          foldl (stage_command (en_ipnet env)) (if_staged f) (script_commands (if_id f) evs) \<rparr>) \<rparr>, m), exits)
    \<and> exits_tell exits (if_staged f)
        (foldl (stage_command (en_ipnet env)) (if_staged f) (script_commands (if_id f) evs))"
  using assms
proof (induction evs arbitrary: st f)
  case Nil
  then show ?case by (simp add: script_commands_def exits_tell_def)
next
  case (Cons ev evs)
  show ?case
  proof (cases ev)
    case (OtherRequest ck cmd reply)
    with Cons.prems have "fst (handle env ck st cmd reply) = st"
      by (simp add: handle_in_flight only_declares_def)
    then have run: "run_script sh env (if_id f) (st, m) (ev # evs) = run_script sh env (if_id f) (st, m) evs"
      using OtherRequest by simp
    have commands: "script_commands (if_id f) (ev # evs) = script_commands (if_id f) evs"
      using OtherRequest by (simp add: script_commands_def List.map_filter_simps)
    show ?thesis
      unfolding run commands using Cons.prems by (intro Cons.IH) simp_all
  next
    case (ScriptVerb ck verb)
    with Cons.prems obtain cmd where cmd: "declared_command (Some (if_id f)) verb = Some cmd"
      by (auto simp: only_declares_def)
    let ?s = "stage_command (en_ipnet env) (if_staged f) cmd"
    let ?f = "f\<lparr> if_staged := ?s \<rparr>"
    from Cons.prems(3,2) cmd obtain p where
      run: "dispatch (script_shell sh env ck (if_id f)) verb (st, m) = ((st\<lparr> dm_load := Some ?f \<rparr>, m), p)"
      and exit: "pr_exit p = Some Success \<and> (sg_failed ?s = None \<longleftrightarrow> sg_failed (if_staged f) = None)
        \<or> pr_exit p \<noteq> Some Success \<and> sg_failed ?s \<noteq> None"
      by (rule dispatch_declared)
    have commands: "script_commands (if_id f) (ev # evs) = cmd # script_commands (if_id f) evs"
      using ScriptVerb cmd by (simp add: script_commands_def List.map_filter_simps)
    have "list_all (only_declares (if_id ?f)) evs" "if_id ?f \<le> u64_max"
      "dm_load (st\<lparr> dm_load := Some ?f \<rparr>) = Some ?f"
      using Cons.prems by simp_all
    from Cons.IH [OF this] obtain exits where
      "run_script sh env (if_id f) (st\<lparr> dm_load := Some ?f \<rparr>, m) evs =
        ((st\<lparr> dm_load := Some (f\<lparr> if_staged :=
            foldl (stage_command (en_ipnet env)) ?s (script_commands (if_id f) evs) \<rparr>) \<rparr>, m), exits)"
      and told: "exits_tell exits ?s
        (foldl (stage_command (en_ipnet env)) ?s (script_commands (if_id f) evs))"
      by auto
    moreover have "exits_tell (pr_exit p # exits) (if_staged f)
        (foldl (stage_command (en_ipnet env)) ?s (script_commands (if_id f) evs))"
      using exit told staging_fail_stays_all [of ?s "en_ipnet env" "script_commands (if_id f) evs"]
      by (auto simp: exits_tell_def split: if_splits)
    ultimately show ?thesis using run commands ScriptVerb by simp
  qed
qed

subsection \<open>Properties\<close>

definition example_shell :: "(ipv4 daemon, unit, unit) shell" where
  "example_shell =
     \<lparr> sh_client = \<lparr> cx_json = (\<lambda>r. None), cx_rfc3339 = (\<lambda>t. []), cx_paths = paths_from_home ''/home/o'' \<rparr>,
       sh_load_id = None, sh_absolute = (\<lambda>p. None), sh_ask = daemon_ask example_env example_clock,
       sh_daemon_run = (\<lambda>st. (st, Ok ())), sh_networksetup = (\<lambda>tool args m. (m, Err \<lparr> ie_kind = FileNotFound, ie_text = [], ie_payload = NoPayload \<rparr>)), sh_euid = 501,
       sh_json = \<lparr> js_parse = (\<lambda>s. None), js_get = (\<lambda>v k. None), js_str = (\<lambda>v. None),
                  js_event = (\<lambda>v. None), js_verdict = (\<lambda>v. None), js_switch = (\<lambda>v. None),
                  js_instant = (\<lambda>s. None) \<rparr>,
       sh_earliest = 0, sh_now = 5, sh_files = Ok [], sh_later_files = [],
       sh_parse = (\<lambda>l. Err ''unknown response''), sh_connected = Ok (), sh_sent = Ok (),
       sh_stream = [] \<rparr>"


definition example_script :: "script_event list" where
  "example_script =
     [ScriptVerb example_clock (VerbRequire Suffix ''example.com''),
      OtherRequest example_clock (AddRule Never Suffix ''other.com'' None) 2,
      ScriptVerb example_clock (VerbUpstream ''socks5://proxy.lan'' []),
      ScriptVerb example_clock (VerbNever Cidr ''10.0.0.0/99'')]"


text \<open>C14: \<open>nhop upstream\<close> with fallbacks inside a load fails that load wherever its list is refused.
  A daemon older than fallbacks, which refuses the list before it reads the load, is left with a run
  marked as failed by the second command; today's daemon marks the run itself, and the second command
  does not replace the mark.  The verb prints the refusal of the list and exits four in both; a list
  that is accepted replaces the declared upstreams and exits zero.\<close>

theorem refused_fallbacks_fail_the_load:
  assumes "dm_load st = Some f" and "fallbacks \<noteq> []"
  shows "set_upstreams cx (older_ask message env ck) st (SetUpstreams addr fallbacks (Some (if_id f))) =
      (st\<lparr> dm_load := Some (f\<lparr> if_staged := staging_fail (if_staged f) FailedSetUpstream \<rparr>) \<rparr>,
       ran_with [] (complain message) ExitInvalidArgs)
    \<and> set_upstreams cx (daemon_ask env ck) st (SetUpstreams addr fallbacks (Some (if_id f))) =
      (case upstreams_parse addr fallbacks of
         Inl failure \<Rightarrow>
           (st\<lparr> dm_load := Some (f\<lparr> if_staged := staging_fail (if_staged f) FailedSetUpstreams \<rparr>) \<rparr>,
            ran_with [] (complain (show_unusable_upstreams failure)) ExitInvalidArgs)
       | Inr us \<Rightarrow>
           (st\<lparr> dm_load := Some (f\<lparr> if_staged := (if_staged f)\<lparr> sg_upstream := Some us \<rparr> \<rparr>) \<rparr>,
            ran_with [] [] Success))"
proof
  let ?cmd = "SetUpstreams addr fallbacks (Some (if_id f))"
  note target = target_in_flight(1) [OF assms(1) refl]
  have marks: "fst (staging_set_upstream (if_staged f) UNREADABLE_UPSTREAM [])
      = staging_fail (if_staged f) FailedSetUpstream"
    using stage_unreadable [of "en_ipnet env" "if_staged f" "if_id f"]
    by (simp add: command_unreadable_upstream_def)
  have "fst (daemon_ask env ck st (SetUpstream UNREADABLE_UPSTREAM (Some (if_id f)))) =
      st\<lparr> dm_load := Some (f\<lparr> if_staged := staging_fail (if_staged f) FailedSetUpstream \<rparr>) \<rparr>"
    using handle_in_flight [OF assms(1), of env ck "command_unreadable_upstream (if_id f)" 0]
    by (simp add: daemon_ask_def command_unreadable_upstream_def split_beta Let_def marks)
  then show "set_upstreams cx (older_ask message env ck) st ?cmd =
      (st\<lparr> dm_load := Some (f\<lparr> if_staged := staging_fail (if_staged f) FailedSetUpstream \<rparr>) \<rparr>,
       ran_with [] (complain message) ExitInvalidArgs)"
    by (simp add: set_upstreams_def older_ask_def command_unreadable_upstream_def render_def)
  obtain r where run: "set_upstreams cx (daemon_ask env ck) st ?cmd =
      (st\<lparr> dm_load := Some (f\<lparr> if_staged := stage_command (en_ipnet env) (if_staged f) ?cmd \<rparr>) \<rparr>, r)"
    using served.set_upstreams_tells [of st "if_id f" ?cmd cx env ck]
    by (auto simp: in_flight_as_def assms(1) stage_in_Some)
  have answer: "snd (daemon_ask env ck st ?cmd) =
      (case upstreams_parse addr fallbacks of Inl failure \<Rightarrow> Ok (unreadable failure) | Inr us \<Rightarrow> Ok RespOk)"
    using target
    by (cases "upstreams_parse addr fallbacks")
      (simp_all add: daemon_ask_def answer_in_def set_upstream_def staged_in_flight [OF assms(1)]
        replied_def answering_def staging_set_upstream_def)
  have "snd (set_upstreams cx (daemon_ask env ck) st ?cmd) =
      (case upstreams_parse addr fallbacks of
         Inl failure \<Rightarrow> ran_with [] (complain (show_unusable_upstreams failure)) ExitInvalidArgs
       | Inr us \<Rightarrow> ran_with [] [] Success)"
    using answer
    by (cases "daemon_ask env ck st ?cmd")
      (auto simp: set_upstreams_def unreadable_def render_def split: sum.splits)
  with run assms(2) show "set_upstreams cx (daemon_ask env ck) st ?cmd =
      (case upstreams_parse addr fallbacks of
         Inl failure \<Rightarrow>
           (st\<lparr> dm_load := Some (f\<lparr> if_staged := staging_fail (if_staged f) FailedSetUpstreams \<rparr>) \<rparr>,
            ran_with [] (complain (show_unusable_upstreams failure)) ExitInvalidArgs)
       | Inr us \<Rightarrow>
           (st\<lparr> dm_load := Some (f\<lparr> if_staged := (if_staged f)\<lparr> sg_upstream := Some us \<rparr> \<rparr>) \<rparr>,
            ran_with [] [] Success))"
    by (auto simp: staging_set_upstream_def split: sum.split)
qed

theorem refused_fallbacks_fail_the_load_witness:
  "fst (set_upstreams (sh_client example_shell) (older_ask ''unknown command'' example_env example_clock)
      example_running (SetUpstreams ''socks5://a.lan:1080'' [''socks5://b.lan:1080''] (Some 1))) =
    example_running\<lparr> dm_load := Some (example_flight
      \<lparr> if_staged := staging_fail staging_default FailedSetUpstream \<rparr>) \<rparr>"
  using refused_fallbacks_fail_the_load [OF example_in_flight, of "[''socks5://b.lan:1080'']"
      "sh_client example_shell" "''unknown command''" example_env example_clock "''socks5://a.lan:1080''"]
  by (simp add: example_flight_def)

end
