(* ===== verification/KeepAlive.thy ===== *)
theory KeepAlive
  imports Dialer
begin

section \<open>TCP keepalive on relay sockets: \<open>keep_alive\<close> of \<open>upstream/mod.rs\<close>\<close>

text \<open>
  Both dials arm keepalive on the socket they return.  Theory Dialer leaves it out of their results,
  which this theory justifies: arming may change the socket and leave a warning in the log, and
  nothing else.  Setting an option is the operating system's and may fail.
\<close>

definition KEEPALIVE_IDLE :: duration where "KEEPALIVE_IDLE = 15000000000"
definition KEEPALIVE_INTERVAL :: duration where "KEEPALIVE_INTERVAL = 15000000000"
definition KEEPALIVE_RETRIES :: nat where "KEEPALIVE_RETRIES = 4"

record tcp_keepalive =
  tk_time :: duration
  tk_interval :: duration
  tk_retries :: nat

record 'stream socket_options =
  so_set_keepalive :: "bool \<Rightarrow> 'stream \<Rightarrow> 'stream \<times> (io_error, unit) res"
  so_set_tcp_keepalive :: "tcp_keepalive \<Rightarrow> 'stream \<Rightarrow> 'stream \<times> (io_error, unit) res"

definition keep_alive :: "'stream socket_options \<Rightarrow> 'stream \<Rightarrow> 'stream \<times> (io_error, unit) res" where
  "keep_alive options stream =
     (case so_set_keepalive options True stream of
        (stream, Inl failure) \<Rightarrow> (stream, Err failure)
      | (stream, Inr _) \<Rightarrow>
          so_set_tcp_keepalive options
            \<lparr> tk_time = KEEPALIVE_IDLE, tk_interval = KEEPALIVE_INTERVAL, tk_retries = KEEPALIVE_RETRIES \<rparr>
            stream)"

text \<open>\<open>direct\<close> and the end of \<open>through\<close> with the socket armed: the outcome, and
  the failure and the words of the warning if there is one.\<close>

definition armed ::
  "'stream socket_options \<Rightarrow> string \<Rightarrow> 'stream \<Rightarrow> 'stream \<times> (string \<times> string) option" where
  "armed options warning stream =
     (case keep_alive options stream of
        (stream, Inr _) \<Rightarrow> (stream, None)
      | (stream, Inl failure) \<Rightarrow> (stream, Some (ie_text failure, warning)))"

definition armed_direct ::
  "'stream socket_options \<Rightarrow> 'stream network \<Rightarrow> host \<Rightarrow> port \<Rightarrow> (io_error, 'stream) res \<times> (string \<times> string) option" where
  "armed_direct options net host port =
     (case net_connect net host port of
        Inl failure \<Rightarrow> (Err failure, None)
      | Inr dialled \<Rightarrow>
          (let (dialled, warned) = armed options ''a direct relay socket carries no tcp keepalive'' dialled
           in (Ok dialled, warned)))"

definition armed_through ::
  "'stream socket_options \<Rightarrow> 'stream network \<Rightarrow> host \<Rightarrow> port \<Rightarrow> socket_addr \<Rightarrow> upstream_budget
     \<Rightarrow> (dial_failure, 'stream) res \<times> (string \<times> string) option" where
  "armed_through options net host port upstream budget =
     (case through net host port upstream budget of
        Inl failure \<Rightarrow> (Err failure, None)
      | Inr dialled \<Rightarrow>
          (let (dialled, warned) = armed options ''an upstream relay socket carries no tcp keepalive'' dialled
           in (Ok dialled, warned)))"

text \<open>A dial ends as theory Dialer says, and a warning comes only with a connection.\<close>

lemma armed_direct_outcome:
  "map_sum id (\<lambda>_. ()) (fst (armed_direct options net host port)) = map_sum id (\<lambda>_. ()) (direct net host port)"
  "snd (armed_direct options net host port) \<noteq> None \<Longrightarrow> \<exists>s. direct net host port = Ok s"
  by (auto simp: armed_direct_def direct_def split: sum.splits prod.splits)

lemma armed_through_outcome:
  "map_sum id (\<lambda>_. ()) (fst (armed_through options net host port upstream budget))
     = map_sum id (\<lambda>_. ()) (through net host port upstream budget)"
  "snd (armed_through options net host port upstream budget) \<noteq> None \<Longrightarrow>
     \<exists>s. through net host port upstream budget = Ok s"
  by (auto simp: armed_through_def split: sum.splits prod.splits)

text \<open>
  Where the options can be set, a socket without a warning has been given them, in this order, and a
  peer that has gone silent is noticed within 75 seconds.
\<close>

definition options_set :: "'stream socket_options \<Rightarrow> ('stream \<Rightarrow> bool \<times> tcp_keepalive) \<Rightarrow> bool" where
  "options_set options given \<longleftrightarrow>
     (\<forall>on s s' r. so_set_keepalive options on s = (s', Ok r) \<longrightarrow> fst (given s') = on)
     \<and> (\<forall>k s s' r. so_set_tcp_keepalive options k s = (s', Ok r) \<longrightarrow> given s' = (fst (given s), k))"

lemma armed_given:
  assumes "options_set options given" and "armed options warning s = (s', None)"
  shows "given s' = (True, \<lparr> tk_time = KEEPALIVE_IDLE, tk_interval = KEEPALIVE_INTERVAL,
    tk_retries = KEEPALIVE_RETRIES \<rparr>)"
  using assms unfolding options_set_def armed_def keep_alive_def
  by (fastforce split: prod.splits sum.splits)

lemma dead_peer_bound: "as_secs (KEEPALIVE_IDLE + KEEPALIVE_RETRIES * KEEPALIVE_INTERVAL) = 75"
  by (simp add: KEEPALIVE_IDLE_def KEEPALIVE_RETRIES_def KEEPALIVE_INTERVAL_def as_secs_def)

end
