(* ===== verification/Words.thy ===== *)
theory Words
  imports Verbs Addresses
begin

section \<open>The words of a command: the argument structs of \<open>cli/mod.rs\<close>\<close>

text \<open>
  Each subcommand declares which of its words are positional, which are options and which are
  switches, and how each is read.  Sorting the words of an invocation into these is the argument
  parser's; the record \<open>words\<close> is what it found for the subcommand that was named.  A rejection
  carries the message of the reader that refused a word, or none where the parser found a word
  missing, superfluous or unknown by itself.
\<close>

subsection \<open>Readers of single words\<close>

definition parse_value :: "string \<Rightarrow> (string, rule_value) res" where "parse_value word = Ok word"

definition parse_upstream :: "string \<Rightarrow> (string, upstream_addr) res" where "parse_upstream word = Ok word"

text \<open>\<open>humantime\<close> reads a duration; \<open>Since\<close> is the duration it read.\<close>

definition parse_since :: "(string \<Rightarrow> duration option) \<Rightarrow> string \<Rightarrow> (string, duration) res" where
  "parse_since parse_duration word =
     (case parse_duration word of
        None \<Rightarrow> Err (''expected a duration like 15m, 2h or 3d, got '' @ debug_str word)
      | Some back \<Rightarrow> Ok back)"

text \<open>The readers the standard library and \<open>FromStr\<close> provide, with the text of their errors.\<close>

definition read_socket :: "string \<Rightarrow> (string, socket_addr) res" where
  "read_socket word =
     (case parse_socket word of None \<Rightarrow> Err ''invalid socket address syntax'' | Some a \<Rightarrow> Ok a)"

definition read_destination :: "string \<Rightarrow> (string, cli_destination) res" where
  "read_destination word =
     (case parse_destination word of
        Inl refused_word \<Rightarrow> Err (show_invalid_destination refused_word)
      | Inr dest \<Rightarrow> Ok dest)"

definition empty_service :: string where "empty_service = ''network service must not be empty''"

definition read_service :: "string \<Rightarrow> (string, network_service) res" where
  "read_service word =
     (case parse_service word of None \<Rightarrow> Err empty_service | Some service \<Rightarrow> Ok service)"

subsection \<open>Reading the words of a subcommand\<close>

record words =
  wd_positional :: "string list"
  wd_switch :: "string \<Rightarrow> bool"
  wd_option :: "string \<Rightarrow> string option"

fun take_word :: "(string \<Rightarrow> (string, 'a) res) \<Rightarrow> string list \<Rightarrow> (string option, 'a \<times> string list) res" where
  "take_word read [] = Err None"
| "take_word read (w # ws) =
     (case read w of Inl message \<Rightarrow> Err (Some message) | Inr a \<Rightarrow> Ok (a, ws))"

fun end_words :: "string list \<Rightarrow> 'a \<Rightarrow> (string option, 'a) res" where
  "end_words [] a = Ok a"
| "end_words (w # ws) a = Err None"

fun take_words :: "(string \<Rightarrow> (string, 'a) res) \<Rightarrow> string list \<Rightarrow> (string option, 'a list) res" where
  "take_words read [] = Ok []"
| "take_words read (w # ws) =
     res_bind (take_word read (w # ws)) (\<lambda>(a, ws').
       res_bind (take_words read ws) (\<lambda>as. Ok (a # as)))"

definition read_rule ::
  "(rule_kind \<Rightarrow> rule_value \<Rightarrow> subcommand) \<Rightarrow> words \<Rightarrow> (string option, subcommand) res" where
  "read_rule verb w =
     res_bind (take_word parse_kind (wd_positional w)) (\<lambda>(kind, ws).
       res_bind (take_word parse_value ws) (\<lambda>(val, ws). end_words ws (verb kind val)))"

definition read_upstream :: "words \<Rightarrow> (string option, subcommand) res" where
  "read_upstream w =
     res_bind (take_word parse_upstream (wd_positional w)) (\<lambda>(addr, ws).
       res_bind (take_words parse_upstream ws) (\<lambda>fallbacks. Ok (VerbUpstream addr fallbacks)))"

definition read_listen :: "words \<Rightarrow> (string option, subcommand) res" where
  "read_listen w =
     res_bind (take_word read_socket (wd_positional w)) (\<lambda>(http, ws).
       res_bind (take_word read_socket ws) (\<lambda>(socks, ws). end_words ws (VerbListen http socks)))"

definition read_forward :: "words \<Rightarrow> (string option, subcommand) res" where
  "read_forward w =
     res_bind (take_word parse_forward_listen (wd_positional w)) (\<lambda>(addr, ws).
       res_bind (take_word read_destination ws) (\<lambda>(dest, ws). end_words ws (VerbForward addr dest)))"

definition read_reload :: "words \<Rightarrow> (string option, subcommand) res" where
  "read_reload w =
     (case wd_positional w of
        [] \<Rightarrow> Ok (VerbReload None)
      | path # ws \<Rightarrow> end_words ws (VerbReload (Some path)))"

definition read_test :: "words \<Rightarrow> (string option, subcommand) res" where
  "read_test w =
     res_bind (take_word read_destination (wd_positional w)) (\<lambda>(dest, ws).
       end_words ws (VerbTest dest (wd_switch w ''json'')))"

definition read_logs :: "(string \<Rightarrow> duration option) \<Rightarrow> words \<Rightarrow> (string option, subcommand) res" where
  "read_logs parse_duration w =
     res_bind
       (case wd_option w ''since'' of
          None \<Rightarrow> Ok None
        | Some word \<Rightarrow>
            (case parse_since parse_duration word of
               Inl message \<Rightarrow> Err (Some message)
             | Inr back \<Rightarrow> Ok (Some back)))
       (\<lambda>since. end_words (wd_positional w)
          (VerbLogs (wd_switch w ''follow'') since (wd_switch w ''json'')))"

text \<open>\<open>ProxyAction\<close> is read by its names, which the parser derives from the variants.\<close>

definition read_action :: "string \<Rightarrow> proxy_action option" where
  "read_action word = List.find (\<lambda>action. action_name action = word) [ProxyOn, ProxyOff, ProxyStatus]"

definition read_proxy_words :: "words \<Rightarrow> (string option, subcommand) res" where
  "read_proxy_words w =
     (case wd_positional w of
        [] \<Rightarrow> Err None
      | word # ws \<Rightarrow>
          (case read_action word of
             None \<Rightarrow> Err None
           | Some action \<Rightarrow>
               (case wd_option w ''service'' of
                  None \<Rightarrow> end_words ws (VerbProxy action DEFAULT_SERVICE)
                | Some service \<Rightarrow>
                    (case read_service service of
                       Inl message \<Rightarrow> Err (Some message)
                     | Inr service \<Rightarrow> end_words ws (VerbProxy action service)))))"

text \<open>The subcommand a name stands for, on its words.\<close>

definition read_verb ::
  "(string \<Rightarrow> duration option) \<Rightarrow> string \<Rightarrow> words \<Rightarrow> (string option, subcommand) res" where
  "read_verb parse_duration name w =
     (let no_words = end_words (wd_positional w); json = wd_switch w ''json'' in
      if name = ''start'' then no_words VerbStart
      else if name = ''require'' then read_rule VerbRequire w
      else if name = ''prefer'' then read_rule VerbPrefer w
      else if name = ''never'' then read_rule VerbNever w
      else if name = ''upstream'' then read_upstream w
      else if name = ''listen'' then read_listen w
      else if name = ''forward'' then read_forward w
      else if name = ''reload'' then read_reload w
      else if name = ''on'' then no_words VerbOn
      else if name = ''off'' then no_words VerbOff
      else if name = ''status'' then no_words (VerbStatus json)
      else if name = ''rules'' then no_words (VerbRules json)
      else if name = ''test'' then read_test w
      else if name = ''logs'' then read_logs parse_duration w
      else if name = ''tail'' then no_words (VerbTail json)
      else if name = ''doctor'' then no_words (VerbDoctor json)
      else if name = ''proxy'' then read_proxy_words w
      else Err None)"

subsection \<open>Every subcommand can be written\<close>

text \<open>A way to write each subcommand; a destination is written with its host in brackets.\<close>

definition plain_words :: "string list \<Rightarrow> words" where
  "plain_words ws = \<lparr> wd_positional = ws, wd_switch = (\<lambda>_. False), wd_option = (\<lambda>_. None) \<rparr>"

definition with_json :: "bool \<Rightarrow> words \<Rightarrow> words" where
  "with_json json w = w\<lparr> wd_switch := (wd_switch w)(''json'' := json) \<rparr>"

definition destination_word :: "cli_destination \<Rightarrow> string" where
  "destination_word dest = ''['' @ dn_host dest @ '']:'' @ show_u16 (dn_port dest)"

fun spelled :: "(duration \<Rightarrow> string) \<Rightarrow> subcommand \<Rightarrow> string \<times> words" where
  "spelled show_duration VerbStart = (''start'', plain_words [])"
| "spelled show_duration (VerbRequire kind val) = (''require'', plain_words [kind_name kind, val])"
| "spelled show_duration (VerbPrefer kind val) = (''prefer'', plain_words [kind_name kind, val])"
| "spelled show_duration (VerbNever kind val) = (''never'', plain_words [kind_name kind, val])"
| "spelled show_duration (VerbUpstream addr fallbacks) = (''upstream'', plain_words (addr # fallbacks))"
| "spelled show_duration (VerbListen http socks) =
     (''listen'', plain_words [show_socket http, show_socket socks])"
| "spelled show_duration (VerbForward addr dest) =
     (''forward'', plain_words [show_socket addr, destination_word dest])"
| "spelled show_duration (VerbReload path) = (''reload'', plain_words (case path of None \<Rightarrow> [] | Some p \<Rightarrow> [p]))"
| "spelled show_duration VerbOn = (''on'', plain_words [])"
| "spelled show_duration VerbOff = (''off'', plain_words [])"
| "spelled show_duration (VerbStatus json) = (''status'', with_json json (plain_words []))"
| "spelled show_duration (VerbRules json) = (''rules'', with_json json (plain_words []))"
| "spelled show_duration (VerbTest dest json) = (''test'', with_json json (plain_words [destination_word dest]))"
| "spelled show_duration (VerbLogs keep since json) =
     (''logs'', (with_json json (plain_words []))\<lparr>
        wd_switch := (\<lambda>s. s = ''follow'' \<and> keep \<or> s = ''json'' \<and> json),
        wd_option := (\<lambda>s. if s = ''since'' then map_option show_duration since else None) \<rparr>)"
| "spelled show_duration (VerbTail json) = (''tail'', with_json json (plain_words []))"
| "spelled show_duration (VerbDoctor json) = (''doctor'', with_json json (plain_words []))"
| "spelled show_duration (VerbProxy action service) =
     (''proxy'', \<lparr> wd_positional = [action_name action], wd_switch = (\<lambda>_. False),
        wd_option = (\<lambda>s. if s = ''service'' then Some service else None) \<rparr>)"

text \<open>What no words stand for: a destination without a host, a service without a name.\<close>

fun spellable :: "subcommand \<Rightarrow> bool" where
  "spellable (VerbForward addr dest) \<longleftrightarrow> dn_host dest \<noteq> []"
| "spellable (VerbTest dest json) \<longleftrightarrow> dn_host dest \<noteq> []"
| "spellable (VerbProxy action service) \<longleftrightarrow> service \<noteq> []"
| "spellable v \<longleftrightarrow> True"

lemma parse_kind_name: "parse_kind (kind_name kind) = Ok kind"
  by (cases kind) (simp_all add: parse_kind_def)

lemma take_words_all: "take_words parse_upstream ws = Ok ws"
  by (induction ws) (simp_all add: parse_upstream_def)

lemma read_destination_word: "dn_host dest \<noteq> [] \<Longrightarrow> read_destination (destination_word dest) = Ok dest"
proof -
  assume host: "dn_host dest \<noteq> []"
  have "CHR '':'' \<notin> set (show_u16 (dn_port dest))" by (auto simp: show_u16_def dest: show_nat_digits)
  then have "rsplit_once (CHR '':'') (destination_word dest)
      = Some (''['' @ dn_host dest @ '']'', show_u16 (dn_port dest))"
    by (simp add: rsplit_once_Some destination_word_def)
  moreover have "strip_prefix ''['' (''['' @ dn_host dest @ '']'') = Some (dn_host dest @ '']'')"
    "strip_suffix '']'' (dn_host dest @ '']'') = Some (dn_host dest)"
    by (simp_all add: strip_prefix_Some strip_suffix_Some)
  ultimately show ?thesis
    using host by (simp add: read_destination_def parse_destination_def strip_or_def)
qed

lemma read_action_name: "read_action (action_name action) = Some action"
  by (cases action) (simp_all add: read_action_def action_name_def)

lemmas reader_simps =
  parse_kind_name take_words_all read_destination_word read_action_name parse_value_def
  parse_upstream_def parse_since_def read_socket_def parse_socket_show read_service_def
  parse_service_def parse_forward_listen_def

lemmas reader_defs =
  read_rule_def read_upstream_def read_listen_def read_forward_def read_reload_def read_test_def
  read_logs_def read_proxy_words_def

text \<open>Whatever subcommand is written reads back as itself, wherever durations do.\<close>

theorem words_round_trip:
  assumes "spellable verb" and "\<And>back. parse_duration (show_duration back) = Some back"
  shows "read_verb parse_duration (fst (spelled show_duration verb)) (snd (spelled show_duration verb)) = Ok verb"
  using assms
  by (cases verb)
    (auto simp: read_verb_def reader_defs reader_simps plain_words_def with_json_def split: option.splits)

text \<open>
  Words that are refused ask nothing of the daemon and change nothing; the process ends with the
  code of malformed arguments.  \<open>usage\<close> is the text the parser makes of a rejection.
\<close>

definition run_words ::
  "('s, 'm, 'v) shell \<Rightarrow> (string \<Rightarrow> duration option) \<Rightarrow> (string option \<Rightarrow> string) \<Rightarrow> string \<Rightarrow> words
     \<Rightarrow> 's \<times> 'm \<Rightarrow> ('s \<times> 'm) \<times> printed" where
  "run_words sh parse_duration usage name w sm =
     cli_run sh
       (case read_verb parse_duration name w of
          Inl message \<Rightarrow> Err (UsageError (usage message))
        | Inr verb \<Rightarrow> Ok verb) sm"

lemma refused_words:
  "read_verb parse_duration name w = Err message \<Longrightarrow>
     run_words sh parse_duration usage name w sm =
       (sm, \<lparr> pr_out = [], pr_err = writeln (usage message), pr_exit = Some ExitInvalidArgs \<rparr>)"
  by (simp add: run_words_def cli_run_def ended_run_def ran_with_def)

lemma accepted_words:
  "read_verb parse_duration name w = Ok verb \<Longrightarrow>
     run_words sh parse_duration usage name w sm = dispatch sh verb sm"
  by (simp add: run_words_def cli_run_def)

text \<open>A rule of a kind nobody knows is refused by the message of its reader, before the value is read.\<close>

lemma unknown_kind_words:
  assumes "name \<in> {''require'', ''prefer'', ''never''}" and "wd_positional w = kind # ws"
    and "parse_kind kind = Err message"
  shows "read_verb parse_duration name w = Err (Some message)"
  using assms by (auto simp: read_verb_def read_rule_def)

end
