(* ===== verification/ExitCodes.thy ===== *)
theory ExitCodes
  imports Exchange Verbs
begin

section \<open>What the exit codes of the command line can mean\<close>

text \<open>
  The contract of the exit codes gives 3 to an upstream that is down.  The state task never answers
  a command with that kind of error, whatever it is asked and whatever happens: a destination's dial
  is made by a connection, not by a command.  So among the subcommands that ask it, \<open>doctor\<close> alone
  ends with 3, by the codes it draws from its own checks.
\<close>

text \<open>No effect of a step is an answer of that kind.\<close>

definition upstream_down_free :: "effect list \<Rightarrow> bool" where
  "upstream_down_free effects \<longleftrightarrow> (\<forall>reply message. Answer reply (RespErr UpstreamDown message) \<notin> set effects)"

definition other_kind :: "response \<Rightarrow> bool" where
  "other_kind response \<longleftrightarrow> (\<forall>message. response \<noteq> RespErr UpstreamDown message)"

lemma other_kind_simps [simp]:
  "other_kind RespOk" "other_kind (RespRules rules)" "other_kind (RespDecision d)"
  "other_kind (RespStatus st)" "other_kind (RespDoctor checks)"
  "other_kind (RespErr kind message) \<longleftrightarrow> kind \<noteq> UpstreamDown"
  by (simp_all add: other_kind_def)

lemma target_answer_kind: "target_of st load = RefusedWith response \<Longrightarrow> other_kind response"
  by (auto simp: target_of_def refused_def in_progress_def split: option.splits if_splits)

lemma refusals_kind [simp]:
  "other_kind (invalid f1)" "other_kind (unreadable f2)" "other_kind (unbindable f3)"
  "other_kind (unopenable f4)" "other_kind (duplicate f5)" "other_kind streamed"
  "other_kind (in_progress message)"
  by (simp_all add: refusals invalid_rule_err_kind_def streamed_def in_progress_def)

lemma staged_kind:
  assumes "\<And>s. other_kind (snd (stage s))"
  shows "other_kind (snd (staged st stage))"
proof (cases "dm_load st")
  case (Some f)
  with assms [of "if_staged f"] show ?thesis by (auto simp: staged_def split: prod.split)
qed (simp add: staged_def vanished_def)

lemma answering_kind: "(\<And>f. other_kind (refuse f)) \<Longrightarrow> other_kind (snd (answering refuse outcome))"
  by (auto simp: answering_def split: prod.split sum.split)

lemma mutating_kind:
  "other_kind (snd (add_rule env st class kind val load))"
  "other_kind (snd (clear_rules st load))"
  "other_kind (snd (set_upstream ck st addr fallbacks load))"
  "other_kind (snd (set_listen env st addrs load))"
  "other_kind (snd (add_forward env st fwd load))"
  "other_kind (snd (turn_off st))"
  by (auto simp: add_rule_def clear_rules_def set_upstream_def set_listen_def add_forward_def
      turn_off_def intro!: staged_kind answering_kind dest: target_answer_kind
      split: destination.split sum.split prod.split option.split)

lemma replied_free: "other_kind (snd outcome) \<Longrightarrow> upstream_down_free (snd (replied reply outcome))"
  by (cases outcome) (auto simp: upstream_down_free_def other_kind_def replied_def)

lemma reload_free: "upstream_down_free (snd (reload env st path reply))"
  by (auto simp: reload_def upstream_down_free_def in_progress_def Let_def
      split: option.split prod.split)

lemma handle_free: "upstream_down_free (snd (handle env ck st cmd reply))"
  by (cases cmd)
    (simp_all del: replied_simps add: replied_free mutating_kind reload_free,
     simp_all add: upstream_down_free_def report_def doctor_def streamed_def)

lemma finish_free: "upstream_down_free (snd (finish env ck st outcome))"
  by (auto simp: finish_def upstream_down_free_def report_def Let_def
      split: option.splits prod.splits)

lemma answered_kind:
  "answered su effects = Some response \<Longrightarrow> upstream_down_free effects \<Longrightarrow> other_kind response"
  by (cases "(su, effects)" rule: answered.cases)
    (auto simp: upstream_down_free_def other_kind_def report_answer_def doctor_answer_def)

text \<open>Whatever command is put to the state task, whatever arrives while its run is in flight.\<close>

theorem task_never_answers_upstream_down:
  "task_call env su st cmd = (st', Some response) \<Longrightarrow> other_kind response"
  using handle_free [of env "su_clock su" st cmd 0]
    finish_free [of env "su_ended su" "run_requests env (fst (handle env (su_clock su) st cmd 0)) (su_requests su)"
      "su_outcome su"]
  by (auto simp: task_call_def answered_kind split: prod.splits list.splits effect.splits)

subsection \<open>The subcommands\<close>

text \<open>A daemon that answers as the state task does.\<close>

definition answers_other_kinds :: "'s asking \<Rightarrow> bool" where
  "answers_other_kinds ask \<longleftrightarrow> (\<forall>s cmd s' response. ask s cmd = (s', Ok response) \<longrightarrow> other_kind response)"

lemma task_asking_other_kinds:
  "answers_other_kinds (\<lambda>st cmd.
     case task_call env su st cmd of (st, Some response) \<Rightarrow> (st, Ok response) | (st, None) \<Rightarrow> (st, Err HungUp))"
  using task_never_answers_upstream_down [of env su]
  by (fastforce simp: answers_other_kinds_def split: prod.splits option.splits)

lemma rendered_exit: "other_kind response \<Longrightarrow> rn_exit (render cx form response) \<noteq> ExitUpstreamDown"
proof (cases response)
  case (RespErr kind message)
  then show "other_kind response \<Longrightarrow> ?thesis" by (cases kind) (auto simp: render_def ran_with_def)
qed (auto simp: render_def ran_with_def)

lemma unanswered_exit: "rn_exit (unanswered failure) \<noteq> ExitUpstreamDown"
  by (cases failure) (simp_all add: unanswered_def ran_with_def)

lemma ask_exit:
  "answers_other_kinds ask \<Longrightarrow> rn_exit (snd (ask_daemon cx ask s cmd form)) \<noteq> ExitUpstreamDown"
  by (auto simp: ask_daemon_def answers_other_kinds_def unanswered_exit rendered_exit
      split: prod.split sum.split)

lemma set_upstreams_exit:
  assumes "answers_other_kinds ask"
  shows "rn_exit (snd (set_upstreams cx ask s cmd)) \<noteq> ExitUpstreamDown"
proof -
  have "rn_exit (snd (case ask s cmd of
      (s, Inl failure) \<Rightarrow> (s, unanswered failure)
    | (s, Inr response) \<Rightarrow>
        (case response of
           RespErr InvalidArgs message \<Rightarrow> (fst (ask s (command_unreadable_upstream load)), render cx Human response)
         | _ \<Rightarrow> (s, render cx Human response)))) \<noteq> ExitUpstreamDown" for load
  proof -
    obtain s' r where answer: "ask s cmd = (s', r)" by fastforce
    show ?thesis
    proof (cases r)
      case (Inr response)
      then have "other_kind response" using assms answer by (auto simp: answers_other_kinds_def)
      with rendered_exit answer Inr show ?thesis by (auto split: response.split err_kind.split)
    qed (simp add: answer unanswered_exit)
  qed
  then show ?thesis
    using ask_exit [OF assms] by (auto simp: set_upstreams_def split: command.split option.split)
qed

lemma proxy_exit:
  assumes "answers_other_kinds ask"
  shows "rn_exit (snd (proxy run euid ask action service sm)) \<noteq> ExitUpstreamDown"
proof -
  have listen: "rn_exit r \<noteq> ExitUpstreamDown" if "listen_addresses ask s = (s', Inl r)" for s s' r
  proof -
    obtain t answer where answer: "ask s Status = (t, answer)" by fastforce
    have "other_kind response" if "answer = Inr response" for response
      using assms answer that by (auto simp: answers_other_kinds_def)
    then show ?thesis
      using that answer unanswered_exit
      by (auto simp: listen_addresses_def ran_with_def other_kind_def
          split: sum.splits response.splits elim!: exit_of_err.elims)
  qed
  have "rn_exit (snd (write_proxy run invocations service m)) \<noteq> ExitUpstreamDown" for invocations m
    by (simp add: write_proxy_def ran_with_def split: prod.split sum.split)
  moreover have "rn_exit (snd (read_proxy run service m)) \<noteq> ExitUpstreamDown" for m
    by (simp add: read_proxy_def ran_with_def split: prod.split sum.split)
  ultimately show ?thesis
    using listen
    by (auto simp: proxy_def needs_root_def ran_with_def split: proxy_action.split prod.splits sum.splits
        dest: arg_cong [of _ _ "\<lambda>p. rn_exit (snd p)"])
qed

lemma print_kept_exit: "print_kept cx json window form kept = Inl r \<Longrightarrow> rn_exit r = Failed"
  by (induction kept arbitrary: r)
    (auto simp: unreadable_log_def ran_with_def split: option.splits sum.splits)

lemma logs_exit: "rn_exit (fst (logs cx json window form files)) \<noteq> ExitUpstreamDown"
  by (auto simp: logs_def ran_with_def unreadable_log_def Let_def dest: print_kept_exit
      split: sum.split prod.split option.split)

lemma keep_reading_exit:
  "keep_reading keeps at snapshots = (ls, Inl exit) \<Longrightarrow> exit \<noteq> ExitUpstreamDown"
proof (induction snapshots arbitrary: at ls)
  case (Cons s snapshots)
  have "e \<noteq> ExitUpstreamDown" if "keep_reading_turn keeps at s = Inl e" for e
    using that by (auto simp: keep_reading_turn_def Let_def split: option.splits prod.splits if_splits)
  with Cons show ?case by (auto split: sum.splits prod.splits)
qed simp

lemma logs_run_exit: "pr_exit (logs_run sh follow since form) \<noteq> Some ExitUpstreamDown"
proof -
  let ?window = "case since of Some back \<Rightarrow> reaching_back (sh_earliest sh) (sh_now sh) back | None \<Rightarrow> WindowAll"
  obtain r at where logs: "logs (sh_client sh) (sh_json sh) ?window form (sh_files sh) = (r, at)" by fastforce
  then have "rn_exit r \<noteq> ExitUpstreamDown"
    using logs_exit [of "sh_client sh" "sh_json sh" ?window form "sh_files sh"] by simp
  with logs show ?thesis
    by (auto simp: logs_run_def ended_run_def Let_def dest: keep_reading_exit
        split: option.split follow.split prod.split sum.split)
qed

lemma start_run_exit: "rn_exit (snd (start_run sh s)) \<noteq> ExitUpstreamDown"
  by (auto simp: start_run_def ran_with_def split: prod.split sum.split elim: exit_of_start.elims)

text \<open>
  Code 3 is \<open>doctor\<close>'s.  Against a daemon that answers as the state task does, no other subcommand
  that asks it ends with that code, however the machine and the log behave; \<open>tail\<close> prints what the
  stream brings.
\<close>

theorem upstream_down_is_doctors:
  assumes "answers_other_kinds (sh_ask sh)" and "\<And>json. verb \<noteq> VerbDoctor json" and "\<And>json. verb \<noteq> VerbTail json"
  shows "pr_exit (snd (dispatch sh verb sm)) \<noteq> Some ExitUpstreamDown"
proof -
  note exits = ask_exit [OF assms(1)] set_upstreams_exit [OF assms(1)] proxy_exit [OF assms(1)]
    start_run_exit logs_run_exit
  obtain s m where sm: "sm = (s, m)" by fastforce
  show ?thesis
    using assms(2,3) exits
    by (cases verb) (simp_all add: dispatch_def sm ended_run_def Let_def case_prod_beta)
qed

end
