(* ===== verification/Spec2Isabelle.thy ===== *)
theory Spec2Isabelle
  imports Startup Instances Rounds Guard Serving Exchange Rotation Scripts KeepAlive Words ExitCodes
begin

text \<open>
  A verification development for nhop, a local proxy that routes each connection by its destination.

  The program.  A daemon listens as an HTTP proxy, as a SOCKS5 proxy and on forwards, which are
  local ports with one destination each.  A connection's destination is decided by a ruleset:
  \<open>never\<close> rules send it direct, \<open>require\<close> and \<open>prefer\<close> rules through an upstream SOCKS5 proxy, the
  second falling back to a direct connect.  Several upstreams may be listed in order of preference;
  a patrol probes them, every dial judges the one it used, and new connections go through the one
  that is selected.  All of this is declared by an init script that runs \<open>nhop\<close> itself: its commands
  reach the daemon over a Unix socket, are staged, and are committed together when the script ends
  well.  The command line also reads the state back: status, rules, test, doctor, logs, tail.

  Theories and sources (paths under src/nhop/src unless they begin with nhop-ipc).

  Foundations.  Prelude holds results, machine integers and the string operations of the standard
  library; Net the socket addresses of \<open>std::net\<close> with their readers and printers, and Addresses that
  each address reads back from its text; Json the values a JSON text stands for and the readers and
  writers serde derives from.

  Wire types.  Wire holds the commands, responses and views of nhop-ipc/src/command.rs and view.rs;
  Codec and Replies how serde writes each of them and reads it back; Answers that what the state
  task answers fits its type.

  Routing.  Rules models rules/mod.rs, matcher.rs and ruleset.rs: the matchers, the rule list and
  \<open>decide\<close>.  Proxy models proxy/mod.rs: forwards, upstream lists, the errors nhop makes itself and
  the loop guard \<open>dials_itself\<close>; Guard shows that no spelling of an address gets past the guard.

  Upstreams.  Health models upstream/health.rs with a heap of verdicts, so that a handle shared by
  several tasks is an index; Select and Selection model upstream/select.rs, the selection and the
  log of its moves; Entries models upstream/entries.rs and the cell a list is published in; Dialer
  and Patrol model upstream/mod.rs, the dial and the patrol, and KeepAlive the option its sockets are
  given.  World lets dials, patrol rounds and
  publications run together as an inductive step relation: each transition is one atomic access of
  the source, the clock never moves back, and the network answers anything.  Rounds shows that each
  round of the patrol ends.  System puts the state task of theory Daemon beside them, over the same
  verdicts and the same published list.

  Front ends.  Events models the decision stream and the record of one connection in proxy/mod.rs;
  Conn, Socks5 and Http model proxy/forward.rs, socks5.rs and http.rs over connections that are byte
  strings cut into the reads that bring them.  Frontends models the listeners of daemon/mod.rs, Serving
  the accept loops on them and what each client is served with while loads come and go.

  Daemon.  Staging models daemon/staging.rs; InitScript models daemon/init_script.rs; Daemon models
  the state task of daemon/state.rs, one function per command, the start and the end of a load and
  the event loop, with nhop-ipc/src/paths.rs; Loads proves what a load promises.  Process models the
  claim on the pid file, start, shutdown and \<open>run\<close> of daemon/mod.rs and daemon/open_files.rs;
  Instances takes the claim apart into system calls that any number of processes make side by side;
  Startup composes the start with the whole daemon;
  IpcServer models a conversation on the command socket, daemon/ipc_server.rs; Exchange composes it
  with the client of cli/client.rs and the state task.

  Command line.  SystemProxy models cli/system_proxy.rs; Views models cli/explain.rs and status.rs;
  Doctor models cli/doctor.rs; Logging models logging.rs and the loop of \<open>logs -f\<close>, Records the
  fields each record is written with and the readers derived for them; Cli models the
  words, exit codes and renderings of cli/mod.rs and cli/client.rs; Commands and Verbs model the
  subcommands and \<open>dispatch\<close>, with cli/tail.rs; Words models the words each subcommand takes and how
  they are read; Scripts composes the verbs of a script with the state task; Entry models main.rs and
  the set-up of the log, Rotation the order of its
  files, and ExitCodes which runs can end with the code of an upstream that is down.

  How state corresponds.  A struct is a record with a prefix per type, a Rust enum a datatype; a
  \<open>Result\<close> is a sum whose \<open>Err\<close> is \<open>Inl\<close>; an \<open>Arc\<close> whose identity matters carries the number of its
  allocation; \<open>ArcSwap::rcu\<close> is one step.  Ports and octets are words; counters that saturate or wrap
  in the source do so here at 64 bits; an instant is a number of nanoseconds.  A string is the list
  of its bytes.  Every definition that models code runs, so examples and witnesses are evaluated.

  Interfaces are locales, interpreted on the model: \<open>verdict_store\<close> (Health), \<open>declaration_table\<close>
  (Proxy, for the forwards), \<open>next_hop\<close> (Dialer), \<open>front_end\<close> (Conn; interpreted there and in Socks5
  and Http), \<open>load_server\<close> (Scripts, what the verbs of a script rely on in the daemon) and \<open>codec\<close>
  (Json, what a type on the wire promises; interpreted for every type there, in Codec and in Replies).

  What the lemmas show.
  Rules: the decision is the first match in the order never, then the upstream rules; a suffix rule
  matches whole labels only; a rejected rule changes nothing.
  Select, Entries, Selection: the selection meets its three-step specification; a selected entry that
  is up is not displaced while verdicts come in order of time; a published list keeps the verdicts
  of the addresses it keeps; each move is logged once and truthfully.
  Dialer, Patrol, World: what each class of dial returns for each answer of the network; a verdict
  turns over only as the source documents; the invariant of all reachable states, and the one run in
  which a probe that began before a verdict displaces the selected upstream.
  System: every run of the whole daemon is, seen from the dials and the patrol, a run of World, and
  what a status calls selected is where the next prefer dial goes.
  Rounds: in every endless run in which probes come back, a round of n probes is closed after n of
  them and one step more.
  Conn, Socks5, Http: a connection is relayed or answered with the refusal its failure calls for,
  leaves one event, and no byte behind one request reaches the next hop; requests are read back as
  they were written; a rewritten head keeps what must be kept.
  Frontends, Loads: a set of forwards is opened whole or not at all; while a script runs its commands
  are staged and traffic sees none of them; its end commits all of them or none, whatever else the
  daemon is asked; a command of an earlier run is refused; what the daemon reports is what it holds.
  Serving: whenever a client is accepted, it is served with the rules from before a load or with the
  whole of what the load declared.
  Scripts: the exit codes of the verbs of a script decide its load, through the whole path from the
  verb to the commit; a list of upstreams an older daemon refuses still fails the load.
  Views, Doctor, SystemProxy: \<open>nhop test\<close> names the hop a dial would take; the doctor's report; the
  settings \<open>nhop proxy on\<close> writes pass the doctor's check.
  IpcServer, Logging: every line is answered once and in order; \<open>logs -f\<close> prints each line of a
  growing file once; the lines of a file that was rotated away between two reads are lost.
  Records: what is written for a decision, a verdict or a switch reads back as itself.
  Codec, Replies, Answers, Exchange: every command and every response reads back; every answer the
  state task gives can be written; what a client reads through the socket is that answer.
  Process, Startup: a second start is refused and names the first; a daemon that did not start leaves
  the claim free; a daemon that did is the one System starts from, reports the addresses it listens
  on and first loads its script; raising the open-file limit twice is raising it once.
  Instances: at most one process has the claim, and the pid file and the socket lead to the daemon that
  runs, in every run in which no guard removes the pid file while another process is between
  opening it and trying its lock; and a run without that condition with two daemons.  A process that
  runs alone does what Process says.
  Words, Rotation, KeepAlive: every subcommand can be written and reads back, and refused words ask
  nothing of the daemon; the kept log files come back in the order of their days; arming keepalive
  never changes how a dial ends.
  ExitCodes: the state task never answers that an upstream is down, so only \<open>doctor\<close> ends with 3.

  Bounds.  The only loops that are not structural are \<open>converse\<close> (IpcServer) and \<open>follow_decisions\<close>
  (Commands), proved to end because each turn consumes input; no definition takes fuel.  Loops that
  never end in the source (the event loop, the patrol, \<open>logs -f\<close>) are functions of the finite list of
  what has happened so far.

  Not modelled, and why.  The text of JSON values (serde_json), the sorting of words into positional ones,
  options and switches (argh), the text of
  instants and durations (humantime), networks (ipnet), the SOCKS5 client (tokio-socks), relaying
  (tokio) and the tracing crates are other people's code: where the program relies on them they are
  parameters.  Unicode case folding and white space are those of ASCII.  Sockets, files, processes
  and signals are the operating system's: each call is a parameter that may fail.  The task each
  connection runs in changes none of the modelled state.
\<close>

end
